(* ===== verification/Prelude.thy ===== *)
theory Prelude
  imports Main "HOL-Library.Word"
begin

text \<open>
  Shared vocabulary of the development: the fixed-width integer types of
  \<^verbatim>\<open>include/types.h\<close>, addresses, the faults a C statement can run into, the sequencing
  of fallible computations, the byte order of the host, and the lemmas about them that
  every component uses.

  The host is a little-endian LP64 machine, the one \<^verbatim>\<open>libipstack.a\<close> is built for.
\<close>

unbundle bit_operations_syntax

section \<open>Integers and addresses\<close>

type_synonym u8 = "8 word"
type_synonym u16 = "16 word"
type_synonym u32 = "32 word"

text \<open>
  An address is an integer; \<open>0\<close> is \<^verbatim>\<open>NULL\<close>. Pointer arithmetic with
  \<^verbatim>\<open>offsetof\<close> is plain addition and subtraction: user-space objects lie far from the
  ends of the address space, so no wrap-around arises.
\<close>

type_synonym addr = int

text \<open>
  The value of a C \<^verbatim>\<open>int\<close> after a conversion from a wider or unsigned value: reduction
  to 32 bits, read as two's complement.
\<close>

definition to_int32 :: "int \<Rightarrow> int" where
  "to_int32 x = sint (word_of_int x :: u32)"

lemma to_int32_id: "- (2 ^ 31) \<le> x \<Longrightarrow> x < 2 ^ 31 \<Longrightarrow> to_int32 x = x"
  by (simp add: to_int32_def signed_of_int signed_take_bit_int_eq_self)

section \<open>Faults and sequencing\<close>

text \<open>
  What stops a C computation: an access through a pointer that does not point into a
  live object (\<^verbatim>\<open>NULL\<close>, freed or mistyped memory), an access past the end of an
  object, a failed \<^verbatim>\<open>assert\<close>, a loop that never ends, and \<^verbatim>\<open>exit\<close>.
\<close>

datatype fault = Wild_Pointer | Out_Of_Bounds | Assert_Failed | Never_Returns | Exit int

type_synonym 'a res = "fault + 'a"

definition rbind :: "'a res \<Rightarrow> ('a \<Rightarrow> 'b res) \<Rightarrow> 'b res" where
  "rbind r f = (case r of Inl e \<Rightarrow> Inl e | Inr x \<Rightarrow> f x)"

named_theorems res_simps \<open>evaluation of sequenced computations\<close>

lemma rbind_Inl [simp, res_simps]: "rbind (Inl e) f = Inl e"
  by (simp add: rbind_def)

lemma rbind_Inr [simp, res_simps]: "rbind (Inr x) f = f x"
  by (simp add: rbind_def)

lemma rbind_assoc: "rbind (rbind r f) g = rbind r (\<lambda>x. rbind (f x) g)"
  by (cases r) simp_all

lemma rbind_Inr_iff: "rbind r f = Inr y \<longleftrightarrow> (\<exists>x. r = Inr x \<and> f x = Inr y)"
  by (cases r) simp_all

lemma rbind_Inl_iff:
  "rbind r f = Inl e \<longleftrightarrow> r = Inl e \<or> (\<exists>x. r = Inr x \<and> f x = Inl e)"
  by (cases r) simp_all

lemma rbind_cong [cong]: "r = r' \<Longrightarrow> rbind r f = rbind r' f"
  by simp

text \<open>
  A loop that may not end is a \<^theory_text>\<open>partial_function (option)\<close> whose value
  \<open>None\<close> means that it does not return; the caller then never returns either.
\<close>

definition of_loop :: "'a res option \<Rightarrow> 'a res" where
  "of_loop r = (case r of None \<Rightarrow> Inl Never_Returns | Some x \<Rightarrow> x)"

lemma of_loop_Some [simp, res_simps]: "of_loop (Some x) = x"
  by (simp add: of_loop_def)

section \<open>Byte order\<close>

text \<open>
  Multi-byte integers lie in memory least significant byte first.
\<close>

definition le16 :: "u8 \<Rightarrow> u8 \<Rightarrow> u16" where
  "le16 b0 b1 = ucast b0 OR push_bit 8 (ucast b1)"

definition le32 :: "u8 \<Rightarrow> u8 \<Rightarrow> u8 \<Rightarrow> u8 \<Rightarrow> u32" where
  "le32 b0 b1 b2 b3 =
     ucast b0 OR push_bit 8 (ucast b1) OR push_bit 16 (ucast b2) OR push_bit 24 (ucast b3)"

definition byte16 :: "nat \<Rightarrow> u16 \<Rightarrow> u8" where
  "byte16 i x = ucast (drop_bit (8 * i) x)"

definition byte32 :: "nat \<Rightarrow> u32 \<Rightarrow> u8" where
  "byte32 i x = ucast (drop_bit (8 * i) x)"

definition bytes16 :: "u16 \<Rightarrow> u8 list" where
  "bytes16 x = [byte16 0 x, byte16 1 x]"

definition bytes32 :: "u32 \<Rightarrow> u8 list" where
  "bytes32 x = [byte32 0 x, byte32 1 x, byte32 2 x, byte32 3 x]"

text \<open>
  \<^verbatim>\<open>htons\<close>, \<^verbatim>\<open>ntohs\<close>, \<^verbatim>\<open>htonl\<close> and
  \<^verbatim>\<open>ntohl\<close> reverse the bytes on such a host.
\<close>

definition htons :: "u16 \<Rightarrow> u16" where
  "htons x = le16 (byte16 1 x) (byte16 0 x)"

abbreviation ntohs :: "u16 \<Rightarrow> u16" where
  "ntohs \<equiv> htons"

definition htonl :: "u32 \<Rightarrow> u32" where
  "htonl x = le32 (byte32 3 x) (byte32 2 x) (byte32 1 x) (byte32 0 x)"

abbreviation ntohl :: "u32 \<Rightarrow> u32" where
  "ntohl \<equiv> htonl"

named_theorems byte_simps \<open>bytes of words and words of bytes\<close>

lemma bit_u8_beyond [simp]: "8 \<le> n \<Longrightarrow> \<not> bit (b :: u8) n"
  using bit_imp_le_length [of b n] by auto

lemma bit_u16_beyond [simp]: "16 \<le> n \<Longrightarrow> \<not> bit (b :: u16) n"
  using bit_imp_le_length [of b n] by auto

lemma le16_bytes [simp, byte_simps]: "le16 (byte16 0 x) (byte16 (Suc 0) x) = x"
  by (rule bit_word_eqI) (auto simp: le16_def byte16_def bit_simps)

lemma byte16_0_le16 [simp, byte_simps]: "byte16 0 (le16 a b) = a"
  by (rule bit_word_eqI) (auto simp: le16_def byte16_def bit_simps)

lemma byte16_1_le16 [simp, byte_simps]: "byte16 (Suc 0) (le16 a b) = b"
  by (rule bit_word_eqI) (auto simp: le16_def byte16_def bit_simps)

lemma le32_bytes [simp, byte_simps]:
  "le32 (byte32 0 x) (byte32 (Suc 0) x) (byte32 2 x) (byte32 3 x) = x"
proof (rule bit_word_eqI)
  fix n
  assume "n < LENGTH(32)"
  then show "bit (le32 (byte32 0 x) (byte32 (Suc 0) x) (byte32 2 x) (byte32 3 x)) n = bit x n"
    by (cases "n < 8"; cases "n < 16"; cases "n < 24")
      (auto simp: le32_def byte32_def bit_simps)
qed

lemma byte32_0_le32 [simp, byte_simps]: "byte32 0 (le32 a b c d) = a"
  by (rule bit_word_eqI) (auto simp: le32_def byte32_def bit_simps)

lemma byte32_1_le32 [simp, byte_simps]: "byte32 (Suc 0) (le32 a b c d) = b"
  by (rule bit_word_eqI) (auto simp: le32_def byte32_def bit_simps)

lemma byte32_2_le32 [simp, byte_simps]: "byte32 2 (le32 a b c d) = c"
  by (rule bit_word_eqI) (auto simp: le32_def byte32_def bit_simps)

lemma byte32_3_le32 [simp, byte_simps]: "byte32 3 (le32 a b c d) = d"
  by (rule bit_word_eqI) (auto simp: le32_def byte32_def bit_simps)

lemma htons_htons [simp, byte_simps]: "htons (htons x) = x"
  by (simp add: htons_def)

lemma htons_0_iff: "htons x = 0 \<longleftrightarrow> x = 0"
proof -
  have "htons 0 = 0" by (simp add: htons_def le16_def byte16_def)
  then show ?thesis by (metis htons_htons)
qed

lemma htonl_htonl [simp, byte_simps]: "htonl (htonl x) = x"
  by (simp add: htonl_def)

lemma length_bytes [simp]: "length (bytes16 x) = 2" "length (bytes32 y) = 4"
  by (simp_all add: bytes16_def bytes32_def)

section \<open>Memory blocks\<close>

text \<open>
  A block of memory is the list of its bytes. Reading past its end is a fault.
\<close>

definition rd8 :: "u8 list \<Rightarrow> nat \<Rightarrow> u8 res" where
  "rd8 bs i = (if i < length bs then Inr (bs ! i) else Inl Out_Of_Bounds)"

definition rd16 :: "u8 list \<Rightarrow> nat \<Rightarrow> u16 res" where
  "rd16 bs i =
     (if i + 1 < length bs then Inr (le16 (bs ! i) (bs ! (i + 1))) else Inl Out_Of_Bounds)"

definition rd32 :: "u8 list \<Rightarrow> nat \<Rightarrow> u32 res" where
  "rd32 bs i =
     (if i + 3 < length bs
      then Inr (le32 (bs ! i) (bs ! (i + 1)) (bs ! (i + 2)) (bs ! (i + 3)))
      else Inl Out_Of_Bounds)"

text \<open>
  The bytes a \<^verbatim>\<open>memcpy\<close> of \<open>n\<close> bytes from \<open>bs + i\<close> copies, and the block after a
  \<^verbatim>\<open>memcpy\<close> of \<open>src\<close> to \<open>bs + i\<close>. A negative length becomes a huge
  \<^verbatim>\<open>size_t\<close>, which no block can hold.
\<close>

definition blit :: "'a list \<Rightarrow> nat \<Rightarrow> 'a list \<Rightarrow> 'a list" where
  "blit dst i src = take i dst @ src @ drop (i + length src) dst"

lemma length_blit [simp]: "i + length src \<le> length dst \<Longrightarrow> length (blit dst i src) = length dst"
  by (simp add: blit_def)

lemma nth_blit:
  "i + length src \<le> length dst \<Longrightarrow> k < length dst \<Longrightarrow>
   blit dst i src ! k = (if i \<le> k \<and> k < i + length src then src ! (k - i) else dst ! k)"
  by (auto simp: blit_def nth_append min_def)

definition rd_bytes :: "'a list \<Rightarrow> int \<Rightarrow> int \<Rightarrow> 'a list res" where
  "rd_bytes bs i n =
     (if 0 \<le> i \<and> 0 \<le> n \<and> i + n \<le> int (length bs)
      then Inr (take (nat n) (drop (nat i) bs)) else Inl Out_Of_Bounds)"

definition wr_bytes :: "'a list \<Rightarrow> int \<Rightarrow> 'a list \<Rightarrow> 'a list res" where
  "wr_bytes bs i src =
     (if 0 \<le> i \<and> i + int (length src) \<le> int (length bs)
      then Inr (blit bs (nat i) src) else Inl Out_Of_Bounds)"

definition wr16 :: "u8 list \<Rightarrow> nat \<Rightarrow> u16 \<Rightarrow> u8 list res" where
  "wr16 bs i w =
     (if i + 1 < length bs then Inr (bs[i := byte16 0 w, i + 1 := byte16 1 w])
      else Inl Out_Of_Bounds)"

text \<open>Access inside the second part of a block.\<close>

lemma rd_shift [simp]:
  "rd8 (pre @ bs) (length pre + i) = rd8 bs i"
  "rd16 (pre @ bs) (length pre + i) = rd16 bs i"
  "rd32 (pre @ bs) (length pre + i) = rd32 bs i"
  by (auto simp: rd8_def rd16_def rd32_def nth_append)

lemma wr16_shift [simp]:
  "wr16 (pre @ bs) (length pre + i) w = rbind (wr16 bs i w) (\<lambda>bs. Inr (pre @ bs))"
  by (auto simp: wr16_def list_update_append)

lemma wr16_restore: "rd16 bs i = Inr w \<Longrightarrow> rbind (wr16 bs i v) (\<lambda>bs. wr16 bs i w) = Inr bs"
  by (auto simp: wr16_def rd16_def list_update_swap split: if_splits)

section \<open>Searching a list\<close>

lemma find_SomeD: "find P xs = Some x \<Longrightarrow> x \<in> set xs \<and> P x"
  by (auto simp: find_Some_iff)

lemma find_hit: "x \<in> set xs \<Longrightarrow> P x \<Longrightarrow> \<exists>y. find P xs = Some y \<and> y \<in> set xs \<and> P y"
  by (induction xs) auto

end
