(* ===== verification/Linked_List.thy ===== *)
theory Linked_List
  imports Prelude
begin

text \<open>
  The intrusive circular doubly linked lists of \<^verbatim>\<open>include/list.h\<close>, over a heap of
  list nodes. A \<^verbatim>\<open>struct list_head\<close> embedded in another object lives at that
  object's address plus a field offset; \<^verbatim>\<open>list_entry\<close> goes back by the same offset.
  An address outside the domain of the heap is not a live node, so every access through
  \<^verbatim>\<open>NULL\<close> or through a freed object is a fault.

  The abstract view is the list of the addresses between a head and itself (\<open>dll\<close>); the
  contract the sockets, the timers and the interfaces rely on is the locale
  \<open>intrusive_list\<close>.
\<close>

section \<open>The operations\<close>

record list_head =
  nxt :: addr
  prv :: addr

type_synonym node_heap = "addr \<Rightarrow> list_head option"

definition rd_node :: "node_heap \<Rightarrow> addr \<Rightarrow> list_head res" where
  "rd_node h a = (case h a of None \<Rightarrow> Inl Wild_Pointer | Some n \<Rightarrow> Inr n)"

definition set_nxt :: "node_heap \<Rightarrow> addr \<Rightarrow> addr \<Rightarrow> node_heap res" where
  "set_nxt h a v = rbind (rd_node h a) (\<lambda>n. Inr (h(a \<mapsto> n\<lparr>nxt := v\<rparr>)))"

definition set_prv :: "node_heap \<Rightarrow> addr \<Rightarrow> addr \<Rightarrow> node_heap res" where
  "set_prv h a v = rbind (rd_node h a) (\<lambda>n. Inr (h(a \<mapsto> n\<lparr>prv := v\<rparr>)))"

definition list_empty :: "node_heap \<Rightarrow> addr \<Rightarrow> bool res" where
  "list_empty h l = rbind (rd_node h l) (\<lambda>n. Inr (nxt n = l))"

definition list_entry :: "addr \<Rightarrow> int \<Rightarrow> addr" where
  "list_entry ptr offset = ptr - offset"

definition init_list_head :: "node_heap \<Rightarrow> addr \<Rightarrow> node_heap res" where
  "init_list_head h l = rbind (set_prv h l l) (\<lambda>h. set_nxt h l l)"

definition list_insert :: "node_heap \<Rightarrow> addr \<Rightarrow> addr \<Rightarrow> addr \<Rightarrow> node_heap res" where
  "list_insert h new prev next =
     rbind (set_prv h next new) (\<lambda>h.
     rbind (set_nxt h prev new) (\<lambda>h.
     rbind (set_nxt h new next) (\<lambda>h.
     set_prv h new prev)))"

definition list_add_head :: "node_heap \<Rightarrow> addr \<Rightarrow> addr \<Rightarrow> node_heap res" where
  "list_add_head h new head = rbind (rd_node h head) (\<lambda>n. list_insert h new head (nxt n))"

definition list_add_tail :: "node_heap \<Rightarrow> addr \<Rightarrow> addr \<Rightarrow> node_heap res" where
  "list_add_tail h new head = rbind (rd_node h head) (\<lambda>n. list_insert h new (prv n) head)"

definition list_delete_entry :: "node_heap \<Rightarrow> addr \<Rightarrow> node_heap res" where
  "list_delete_entry h entry =
     rbind (rd_node h entry) (\<lambda>e.
     rbind (set_prv h (nxt e) (prv e)) (\<lambda>h.
     rbind (rd_node h entry) (\<lambda>e.
     set_nxt h (prv e) (nxt e))))"

text \<open>
  \<^verbatim>\<open>list_for_each_entry\<close> with a body that returns at the first node for which a test
  holds. \<open>test p\<close> is the body's condition for the node at \<open>p\<close>, itself a computation that
  may fault; the loop starts at \<^verbatim>\<open>head->next\<close> and stops when it is back at the head.
\<close>

partial_function (option) list_find_from ::
  "node_heap \<Rightarrow> addr \<Rightarrow> (addr \<Rightarrow> bool res) \<Rightarrow> addr \<Rightarrow> addr option res option" where
  "list_find_from h head test p =
     (if p = head then Some (Inr None)
      else case test p of
        Inl e \<Rightarrow> Some (Inl e)
      | Inr found \<Rightarrow>
          if found then Some (Inr (Some p))
          else (case rd_node h p of Inl e \<Rightarrow> Some (Inl e)
                | Inr n \<Rightarrow> list_find_from h head test (nxt n)))"

definition list_find :: "node_heap \<Rightarrow> addr \<Rightarrow> (addr \<Rightarrow> bool res) \<Rightarrow> addr option res" where
  "list_find h head test =
     rbind (rd_node h head) (\<lambda>n. of_loop (list_find_from h head test (nxt n)))"

text \<open>
  The same loop by \<^verbatim>\<open>list_for_each_entry_safe\<close>: its second cursor \<open>q\<close> is read from the
  node at \<open>p\<close> before the body sees \<open>p\<close>, also from the head when the loop ends.
\<close>

partial_function (option) list_find_safe_from ::
  "node_heap \<Rightarrow> addr \<Rightarrow> (addr \<Rightarrow> bool res) \<Rightarrow> addr \<Rightarrow> addr option res option" where
  "list_find_safe_from h head test p =
     (case rd_node h p of
        Inl e \<Rightarrow> Some (Inl e)
      | Inr n \<Rightarrow>
          let q = nxt n in
          if p = head then Some (Inr None)
          else case test p of
            Inl e \<Rightarrow> Some (Inl e)
          | Inr found \<Rightarrow> if found then Some (Inr (Some p)) else list_find_safe_from h head test q)"

definition list_find_safe :: "node_heap \<Rightarrow> addr \<Rightarrow> (addr \<Rightarrow> bool res) \<Rightarrow> addr option res" where
  "list_find_safe h head test =
     rbind (rd_node h head) (\<lambda>n. of_loop (list_find_safe_from h head test (nxt n)))"

section \<open>Abstraction\<close>

definition nx :: "node_heap \<Rightarrow> addr \<Rightarrow> addr option" where
  "nx h a = map_option nxt (h a)"

definition pv :: "node_heap \<Rightarrow> addr \<Rightarrow> addr option" where
  "pv h a = map_option prv (h a)"

definition edge :: "node_heap \<Rightarrow> addr \<Rightarrow> addr \<Rightarrow> bool" where
  "edge h a b \<longleftrightarrow> nx h a = Some b \<and> pv h b = Some a"

definition dll :: "node_heap \<Rightarrow> addr \<Rightarrow> addr list \<Rightarrow> bool" where
  "dll h head xs \<longleftrightarrow> distinct (head # xs) \<and> successively (edge h) (head # xs @ [head])"

text \<open>Nodes outside \<open>A\<close> are untouched and no node appears or disappears.\<close>

definition same_outside :: "addr set \<Rightarrow> node_heap \<Rightarrow> node_heap \<Rightarrow> bool" where
  "same_outside A h h' \<longleftrightarrow> dom h' = dom h \<and> (\<forall>a. a \<notin> A \<longrightarrow> h' a = h a)"

text \<open>
  A family of disjoint lists, given by their heads: what is known of all lists of the memory
  at once.
\<close>

definition family ::
  "('h \<Rightarrow> addr \<Rightarrow> addr list \<Rightarrow> bool) \<Rightarrow> 'h \<Rightarrow> (addr \<Rightarrow> addr list option) \<Rightarrow> bool" where
  "family is_list h F \<longleftrightarrow>
     (\<forall>l xs. F l = Some xs \<longrightarrow> is_list h l xs) \<and>
     (\<forall>l xs l' xs'. F l = Some xs \<longrightarrow> F l' = Some xs' \<longrightarrow> l \<noteq> l' \<longrightarrow> set (l # xs) \<inter> set (l' # xs') = {})"

definition footprint :: "(addr \<Rightarrow> addr list option) \<Rightarrow> addr set" where
  "footprint F = {a. \<exists>l xs. F l = Some xs \<and> a \<in> set (l # xs)}"

section \<open>The contract\<close>

locale intrusive_list =
  fixes is_list :: "'h \<Rightarrow> addr \<Rightarrow> addr list \<Rightarrow> bool"
    and live :: "'h \<Rightarrow> addr \<Rightarrow> bool"
    and frame :: "addr set \<Rightarrow> 'h \<Rightarrow> 'h \<Rightarrow> bool"
    and add_head :: "'h \<Rightarrow> addr \<Rightarrow> addr \<Rightarrow> 'h res"
    and add_tail :: "'h \<Rightarrow> addr \<Rightarrow> addr \<Rightarrow> 'h res"
    and delete :: "'h \<Rightarrow> addr \<Rightarrow> 'h res"
    and empty_test :: "'h \<Rightarrow> addr \<Rightarrow> bool res"
    and search :: "'h \<Rightarrow> addr \<Rightarrow> (addr \<Rightarrow> bool res) \<Rightarrow> addr option res"
  assumes frame_refl: "frame A h h"
    and frame_trans: "frame A h h' \<Longrightarrow> frame A h' h'' \<Longrightarrow> frame A h h''"
    and frame_mono: "frame A h h' \<Longrightarrow> A \<subseteq> B \<Longrightarrow> frame B h h'"
    and frame_live: "frame A h h' \<Longrightarrow> live h' a = live h a"
    and frame_is_list: "frame A h h' \<Longrightarrow> A \<inter> insert l (set xs) = {} \<Longrightarrow> is_list h' l xs = is_list h l xs"
    and is_list_distinct: "is_list h l xs \<Longrightarrow> distinct (l # xs)"
    and add_head_law: "is_list h l xs \<Longrightarrow> live h new \<Longrightarrow> new \<notin> set (l # xs) \<Longrightarrow>
      \<exists>h'. add_head h new l = Inr h' \<and> is_list h' l (new # xs) \<and> frame (insert new (insert l (set xs))) h h'"
    and add_tail_law: "is_list h l xs \<Longrightarrow> live h new \<Longrightarrow> new \<notin> set (l # xs) \<Longrightarrow>
      \<exists>h'. add_tail h new l = Inr h' \<and> is_list h' l (xs @ [new]) \<and> frame (insert new (insert l (set xs))) h h'"
    and delete_law: "is_list h l (xs @ e # ys) \<Longrightarrow>
      \<exists>h'. delete h e = Inr h' \<and> is_list h' l (xs @ ys) \<and> frame (insert l (set (xs @ ys))) h h'"
    and empty_law: "is_list h l xs \<Longrightarrow> empty_test h l = Inr (xs = [])"
    and search_law: "is_list h l xs \<Longrightarrow> (\<And>x. x \<in> set xs \<Longrightarrow> test x = Inr (p x)) \<Longrightarrow>
      search h l test = Inr (find p xs)"
begin

text \<open>Adding at the tail and deleting at the front is a queue.\<close>

lemma enqueue_dequeue:
  assumes "is_list h l (x # xs)" "live h new" "new \<notin> set (l # x # xs)"
  shows "\<exists>h1 h2. add_tail h new l = Inr h1 \<and> delete h1 x = Inr h2 \<and> is_list h2 l (xs @ [new]) \<and>
    frame (insert new (insert l (set (x # xs)))) h h2"
proof -
  from add_tail_law [OF assms] obtain h1 where h1: "add_tail h new l = Inr h1"
    "is_list h1 l ([] @ x # (xs @ [new]))" "frame (insert new (insert l (set (x # xs)))) h h1"
    by auto
  from delete_law [OF h1(2)] obtain h2 where h2: "delete h1 x = Inr h2" "is_list h2 l (xs @ [new])"
    "frame (insert l (set ([] @ xs @ [new]))) h1 h2"
    by auto
  have "frame (insert new (insert l (set (x # xs)))) h1 h2"
    using h2(3) by (rule frame_mono) auto
  with h1 h2 show ?thesis by (blast intro: frame_trans)
qed

text \<open>Changing one list of a family leaves the others as they are.\<close>

lemma family_list: "family is_list h F \<Longrightarrow> F l = Some xs \<Longrightarrow> is_list h l xs"
  by (simp add: family_def)

lemma family_change:
  assumes "family is_list h F" "F l = Some xs" "is_list h' l ys" "frame A h h'"
    and "A \<subseteq> N \<union> set (l # xs)" "set ys \<subseteq> N \<union> set xs" "N \<inter> footprint F = {}"
  shows "family is_list h' (F(l \<mapsto> ys))"
proof -
  have out: "(N \<union> set (l # xs)) \<inter> set (l' # xs') = {}" if "F l' = Some xs'" "l' \<noteq> l" for l' xs'
  proof -
    have "set (l # xs) \<inter> set (l' # xs') = {}"
      using assms(1,2) that unfolding family_def by blast
    moreover have "set (l' # xs') \<subseteq> footprint F" using that(1) by (auto simp: footprint_def)
    ultimately show ?thesis using assms(7) by blast
  qed
  have "is_list h' l' xs'" if "F l' = Some xs'" "l' \<noteq> l" for l' xs'
  proof -
    have "A \<inter> insert l' (set xs') = {}" using out [OF that] assms(5) by auto
    from frame_is_list [OF assms(4) this] family_list [OF assms(1) that(1)] show ?thesis by simp
  qed
  moreover have "set (l # ys) \<inter> set (l' # xs') = {}" if "F l' = Some xs'" "l' \<noteq> l" for l' xs'
    using out [OF that] assms(6) by auto
  moreover have "set (l' # xs') \<inter> set (l'' # xs'') = {}"
    if "F l' = Some xs'" "F l'' = Some xs''" "l' \<noteq> l''" for l' xs' l'' xs''
    using assms(1) that unfolding family_def by blast
  ultimately show ?thesis
    using assms(3) unfolding family_def by (auto split: if_splits; blast)
qed

lemma family_add_head:
  assumes "family is_list h F" "F l = Some xs" "live h new" "new \<notin> footprint F"
  shows "\<exists>h'. add_head h new l = Inr h' \<and> family is_list h' (F(l \<mapsto> new # xs)) \<and>
    frame (insert new (insert l (set xs))) h h'"
proof -
  have "new \<notin> set (l # xs)" using assms(2,4) by (auto simp: footprint_def)
  from add_head_law [OF family_list [OF assms(1,2)] assms(3) this] obtain h' where
    "add_head h new l = Inr h'" "is_list h' l (new # xs)" "frame (insert new (insert l (set xs))) h h'"
    by blast
  with family_change [OF assms(1,2) this(2,3), of "{new}"] assms(4) show ?thesis by auto
qed

lemma family_add_tail:
  assumes "family is_list h F" "F l = Some xs" "live h new" "new \<notin> footprint F"
  shows "\<exists>h'. add_tail h new l = Inr h' \<and> family is_list h' (F(l \<mapsto> xs @ [new])) \<and>
    frame (insert new (insert l (set xs))) h h'"
proof -
  have "new \<notin> set (l # xs)" using assms(2,4) by (auto simp: footprint_def)
  from add_tail_law [OF family_list [OF assms(1,2)] assms(3) this] obtain h' where
    "add_tail h new l = Inr h'" "is_list h' l (xs @ [new])" "frame (insert new (insert l (set xs))) h h'"
    by blast
  with family_change [OF assms(1,2) this(2,3), of "{new}"] assms(4) show ?thesis by auto
qed

lemma family_delete:
  assumes "family is_list h F" "F l = Some (xs @ e # ys)"
  shows "\<exists>h'. delete h e = Inr h' \<and> family is_list h' (F(l \<mapsto> xs @ ys)) \<and>
    frame (insert l (set (xs @ ys))) h h'"
proof -
  from delete_law [OF family_list [OF assms]] obtain h' where
    "delete h e = Inr h'" "is_list h' l (xs @ ys)" "frame (insert l (set (xs @ ys))) h h'"
    by blast
  with family_change [OF assms this(2,3), of "{}"] show ?thesis by auto
qed

text \<open>A node just added is the first that a search for it meets.\<close>

lemma search_added:
  assumes "is_list h l xs" "live h new" "new \<notin> set (l # xs)"
    and "add_head h new l = Inr h'"
    and "\<And>x. x \<in> set (new # xs) \<Longrightarrow> test x = Inr (p x)" and "p new"
  shows "search h' l test = Inr (Some new)"
proof -
  from add_head_law [OF assms(1-3)] assms(4) have "is_list h' l (new # xs)" by auto
  from search_law [OF this assms(5)] assms(6) show ?thesis by simp
qed

end

section \<open>The heap of nodes meets the contract\<close>

lemma set_simps:
  "h a \<noteq> None \<Longrightarrow> set_nxt h a v = Inr (h(a \<mapsto> (the (h a))\<lparr>nxt := v\<rparr>))"
  "h a \<noteq> None \<Longrightarrow> set_prv h a v = Inr (h(a \<mapsto> (the (h a))\<lparr>prv := v\<rparr>))"
  by (auto simp: set_nxt_def set_prv_def rd_node_def)

lemma nx_upd [simp]:
  "nx (h(a \<mapsto> n)) b = (if b = a then Some (nxt n) else nx h b)"
  "pv (h(a \<mapsto> n)) b = (if b = a then Some (prv n) else pv h b)"
  by (auto simp: nx_def pv_def)

lemma nx_the: "h a = Some n \<Longrightarrow> nx h a = Some (nxt n)" "h a = Some n \<Longrightarrow> pv h a = Some (prv n)"
  by (auto simp: nx_def pv_def)

lemma nx_SomeE: "nx h a = Some b \<Longrightarrow> (\<And>n. h a = Some n \<Longrightarrow> nxt n = b \<Longrightarrow> thesis) \<Longrightarrow> thesis"
  by (auto simp: nx_def)

lemma pv_SomeE: "pv h a = Some b \<Longrightarrow> (\<And>n. h a = Some n \<Longrightarrow> prv n = b \<Longrightarrow> thesis) \<Longrightarrow> thesis"
  by (auto simp: pv_def)

text \<open>A chain of edges reads the next pointers of all nodes but the last and the previous
  pointers of all but the first.\<close>

lemma chain_cong:
  assumes "\<And>a. a \<in> set (butlast L) \<Longrightarrow> nx h' a = nx h a" "\<And>b. b \<in> set (tl L) \<Longrightarrow> pv h' b = pv h b"
  shows "successively (edge h') L = successively (edge h) L"
  using assms
proof (induction L rule: induct_list012)
  case (3 x y zs)
  have "edge h' x y = edge h x y" using 3(3,4) by (simp add: edge_def)
  moreover have "successively (edge h') (y # zs) = successively (edge h) (y # zs)"
  proof (rule 3(2))
    show "nx h' a = nx h a" if "a \<in> set (butlast (y # zs))" for a using that 3(3) by simp
    show "pv h' b = pv h b" if "b \<in> set (tl (y # zs))" for b using that 3(4) by simp
  qed
  ultimately show ?case by simp
qed simp_all

lemma dll_frame:
  assumes "\<And>a. a \<in> set (head # xs) \<Longrightarrow> h' a = h a"
  shows "dll h' head xs = dll h head xs"
proof -
  have "successively (edge h') (head # xs @ [head]) = successively (edge h) (head # xs @ [head])"
    using assms by (intro chain_cong) (auto simp: nx_def pv_def butlast_append dest: in_set_butlastD)
  then show ?thesis by (simp add: dll_def)
qed

lemma in_set_tlD: "x \<in> set (tl L) \<Longrightarrow> x \<in> set L"
  by (cases L) auto

lemma last_notin_butlast: "distinct L \<Longrightarrow> last L \<notin> set (butlast L)"
  by (induction L rule: rev_induct) auto

text \<open>Linking a new node between the last node of \<open>A\<close> and the first of \<open>B\<close>.\<close>

lemma chain_insert:
  assumes chain: "successively (edge h) (A @ B)" and ne: "A \<noteq> []" "B \<noteq> []"
    and p: "p = last A" "p \<notin> set (butlast A)" "p \<notin> set (butlast B)"
    and q: "q = List.hd B" "q \<notin> set (tl A)" "q \<notin> set (tl B)"
    and new: "h new \<noteq> None" "new \<notin> set (A @ B)"
  shows "\<exists>h'. list_insert h new p q = Inr h' \<and> successively (edge h') (A @ new # B) \<and>
    same_outside {p, q, new} h h'"
proof -
  have "edge h p q" using chain ne p q by (auto simp: successively_append_iff)
  then obtain np nq where pq: "h p = Some np" "h q = Some nq"
    by (auto simp: edge_def elim!: nx_SomeE pv_SomeE)
  have d: "p \<noteq> new" "q \<noteq> new" using p(1) q(1) ne new(2) by auto
  define h1 where "h1 = h(q \<mapsto> nq\<lparr>prv := new\<rparr>)"
  define h2 where "h2 = h1(p \<mapsto> (the (h1 p))\<lparr>nxt := new\<rparr>)"
  define h3 where "h3 = h2(new \<mapsto> (the (h2 new))\<lparr>nxt := q\<rparr>)"
  define h4 where "h4 = h3(new \<mapsto> (the (h3 new))\<lparr>prv := p\<rparr>)"
  have "h1 p \<noteq> None" "h2 new \<noteq> None" "h3 new \<noteq> None"
    using pq new by (auto simp: h1_def h2_def h3_def)
  then have run: "list_insert h new p q = Inr h4"
    using pq by (simp add: list_insert_def set_simps h1_def [symmetric] h2_def [symmetric]
        h3_def [symmetric] h4_def [symmetric])
  have nx4: "nx h4 a = (if a = new then Some q else if a = p then Some new else nx h a)" for a
    using pq by (auto simp: h4_def h3_def h2_def h1_def nx_def)
  have pv4: "pv h4 a = (if a = new then Some p else if a = q then Some new else pv h a)" for a
    using pq d by (auto simp: h4_def h3_def h2_def h1_def pv_def)
  have out: "new \<notin> set (butlast A)" "new \<notin> set (tl A)" "new \<notin> set (butlast B)" "new \<notin> set (tl B)"
    using new(2) by (auto dest: in_set_butlastD in_set_tlD)
  have "successively (edge h4) A = successively (edge h) A"
    using p q out by (intro chain_cong) (auto simp: nx4 pv4)
  moreover have "successively (edge h4) B = successively (edge h) B"
    using p q out by (intro chain_cong) (auto simp: nx4 pv4)
  ultimately have "successively (edge h4) A" "successively (edge h4) B"
    using chain by (auto simp: successively_append_iff)
  moreover have "edge h4 p new" "edge h4 new q" using d by (auto simp: edge_def nx4 pv4)
  ultimately have "successively (edge h4) (A @ new # B)"
    using ne p q by (cases B) (auto simp: successively_append_iff)
  moreover have "same_outside {p, q, new} h h4"
    using pq new by (auto simp: same_outside_def h4_def h3_def h2_def h1_def)
  ultimately show ?thesis using run by blast
qed

text \<open>Unlinking a node: its own pointers stay as they were.\<close>

lemma chain_delete:
  assumes chain: "successively (edge h) (A @ e # B)" and ne: "A \<noteq> []" "B \<noteq> []"
    and p: "p = last A" "p \<notin> set (butlast A)" "p \<notin> set (butlast B)"
    and q: "q = List.hd B" "q \<notin> set (tl A)" "q \<notin> set (tl B)"
    and e: "e \<notin> set (A @ B)"
  shows "\<exists>h'. list_delete_entry h e = Inr h' \<and> successively (edge h') (A @ B) \<and>
    same_outside {p, q} h h'"
proof -
  have "edge h p e" "edge h e q"
    using chain ne p q by (auto simp: successively_append_iff successively_Cons)
  then obtain np ne nq where n: "h p = Some np" "h e = Some ne" "h q = Some nq"
    "nxt ne = q" "prv ne = p"
    by (auto simp: edge_def elim!: nx_SomeE pv_SomeE)
  have d: "p \<noteq> e" "q \<noteq> e" using p(1) q(1) \<open>A \<noteq> []\<close> \<open>B \<noteq> []\<close> e by auto
  define h1 where "h1 = h(q \<mapsto> nq\<lparr>prv := p\<rparr>)"
  define h2 where "h2 = h1(p \<mapsto> (the (h1 p))\<lparr>nxt := q\<rparr>)"
  have "h1 p \<noteq> None" "h1 e = Some ne" using n d by (auto simp: h1_def)
  then have run: "list_delete_entry h e = Inr h2"
    using n by (simp add: list_delete_entry_def rd_node_def set_simps h1_def [symmetric] h2_def)
  have nx2: "nx h2 a = (if a = p then Some q else nx h a)" for a
    using n by (auto simp: h2_def h1_def nx_def)
  have pv2: "pv h2 a = (if a = q then Some p else pv h a)" for a
    using n by (auto simp: h2_def h1_def pv_def)
  have "successively (edge h2) A = successively (edge h) A"
    using p q by (intro chain_cong) (auto simp: nx2 pv2)
  moreover have "successively (edge h2) B = successively (edge h) B"
    using p q by (intro chain_cong) (auto simp: nx2 pv2)
  ultimately have "successively (edge h2) A" "successively (edge h2) B"
    using chain by (auto simp: successively_append_iff successively_Cons)
  moreover have "edge h2 p q" by (auto simp: edge_def nx2 pv2)
  ultimately have "successively (edge h2) (A @ B)"
    using ne p q \<open>A \<noteq> []\<close> by (auto simp: successively_append_iff)
  moreover have "same_outside {p, q} h h2"
    using n by (auto simp: same_outside_def h2_def h1_def)
  ultimately show ?thesis using run by blast
qed

lemma dll_first: "dll h head xs \<Longrightarrow> \<exists>n. h head = Some n \<and> nxt n = List.hd (xs @ [head])"
  by (cases xs) (auto simp: dll_def edge_def elim!: nx_SomeE)

lemma dll_last: "dll h head xs \<Longrightarrow> \<exists>n. h head = Some n \<and> prv n = last (head # xs)"
proof -
  assume "dll h head xs"
  then have "successively (edge h) ((head # xs) @ [head])" by (simp add: dll_def)
  then have "edge h (last (head # xs)) head"
    by (subst (asm) successively_append_iff) auto
  then show ?thesis by (auto simp: edge_def elim!: pv_SomeE)
qed

lemma dll_entry_next:
  assumes "dll h head (xs @ e # ys)"
  shows "\<exists>n. h e = Some n \<and> nxt n \<noteq> e"
proof -
  have "edge h e (List.hd (ys @ [head]))"
    using assms by (cases ys) (auto simp: dll_def successively_append_iff successively_Cons)
  moreover have "List.hd (ys @ [head]) \<noteq> e" using assms by (cases ys) (auto simp: dll_def)
  ultimately show ?thesis by (auto simp: edge_def elim!: nx_SomeE)
qed

lemma dll_entry_linked: "dll h head (xs @ e # ys) \<Longrightarrow> list_empty h e = Inr False"
  using dll_entry_next [of h head xs e ys] by (auto simp: list_empty_def rd_node_def)

lemma same_outside_mono: "same_outside A h h' \<Longrightarrow> A \<subseteq> B \<Longrightarrow> same_outside B h h'"
  by (auto simp: same_outside_def)

lemma same_outside_trans:
  "same_outside A h h' \<Longrightarrow> same_outside A h' h'' \<Longrightarrow> same_outside A h h''"
  by (auto simp: same_outside_def)

lemma dll_insert:
  assumes "dll h head (xs @ ys)" "h new \<noteq> None" "new \<notin> set (head # xs @ ys)"
  shows "\<exists>h'. list_insert h new (last (head # xs)) (List.hd (ys @ [head])) = Inr h' \<and>
    dll h' head (xs @ new # ys) \<and> same_outside (insert new (insert head (set (xs @ ys)))) h h'"
proof -
  let ?p = "last (head # xs)" and ?q = "List.hd (ys @ [head])"
  have d: "distinct (head # xs)" "distinct ys" "set xs \<inter> set ys = {}" "head \<notin> set ys"
    using assms(1) by (auto simp: dll_def)
  have p: "?p \<notin> set (butlast (head # xs))" "?p \<notin> set ys"
    using last_notin_butlast [OF d(1)] last_in_set [of "head # xs"] d by auto
  have q: "?q \<notin> set xs" "?q \<notin> set (tl (ys @ [head]))"
    using d by (cases ys; auto)+
  have "successively (edge h) ((head # xs) @ (ys @ [head]))" using assms(1) by (simp add: dll_def)
  from chain_insert [OF this _ _ refl p(1) _ refl _ q(2) assms(2)] p q assms(3) obtain h' where
    h': "list_insert h new ?p ?q = Inr h'" "successively (edge h') ((head # xs) @ new # ys @ [head])"
    "same_outside {?p, ?q, new} h h'"
    by (auto simp: butlast_append)
  have "{?p, ?q, new} \<subseteq> insert new (insert head (set (xs @ ys)))"
    by (cases ys) auto
  with h' assms show ?thesis by (auto simp: dll_def intro: same_outside_mono)
qed

lemma dll_delete:
  assumes "dll h head (xs @ e # ys)"
  shows "\<exists>h'. list_delete_entry h e = Inr h' \<and> dll h' head (xs @ ys) \<and>
    same_outside (insert head (set (xs @ ys))) h h'"
proof -
  let ?p = "last (head # xs)" and ?q = "List.hd (ys @ [head])"
  have d: "distinct (head # xs)" "distinct ys" "set xs \<inter> set ys = {}" "head \<notin> set ys"
    "e \<noteq> head" "e \<notin> set xs" "e \<notin> set ys"
    using assms by (auto simp: dll_def)
  have p: "?p \<notin> set (butlast (head # xs))" "?p \<notin> set ys"
    using last_notin_butlast [OF d(1)] last_in_set [of "head # xs"] d by auto
  have q: "?q \<notin> set xs" "?q \<notin> set (tl (ys @ [head]))"
    using d by (cases ys; auto)+
  have "successively (edge h) ((head # xs) @ e # (ys @ [head]))" using assms by (simp add: dll_def)
  from chain_delete [OF this _ _ refl p(1) _ refl _ q(2)] p q d obtain h' where
    h': "list_delete_entry h e = Inr h'" "successively (edge h') ((head # xs) @ ys @ [head])"
    "same_outside {?p, ?q} h h'"
    by (auto simp: butlast_append)
  have "{?p, ?q} \<subseteq> insert head (set (xs @ ys))"
    by (cases ys) auto
  with h' assms show ?thesis by (auto simp: dll_def intro: same_outside_mono)
qed

lemma dll_add_head:
  assumes "dll h head xs" "h new \<noteq> None" "new \<notin> set (head # xs)"
  shows "\<exists>h'. list_add_head h new head = Inr h' \<and> dll h' head (new # xs) \<and>
    same_outside (insert new (insert head (set xs))) h h'"
proof -
  from dll_first [OF assms(1)] obtain n where n: "h head = Some n" "nxt n = List.hd (xs @ [head])"
    by blast
  with dll_insert [of h head "[]" xs new] assms show ?thesis
    by (auto simp: list_add_head_def rd_node_def)
qed

lemma dll_add_tail:
  assumes "dll h head xs" "h new \<noteq> None" "new \<notin> set (head # xs)"
  shows "\<exists>h'. list_add_tail h new head = Inr h' \<and> dll h' head (xs @ [new]) \<and>
    same_outside (insert new (insert head (set xs))) h h'"
proof -
  from dll_last [OF assms(1)] obtain n where n: "h head = Some n" "prv n = last (head # xs)"
    by blast
  with dll_insert [of h head xs "[]" new] assms show ?thesis
    by (auto simp: list_add_tail_def rd_node_def)
qed

lemma init_list_head_dll:
  assumes "h l = Some n"
  shows "\<exists>h'. init_list_head h l = Inr h' \<and> dll h' l [] \<and> same_outside {l} h h'"
  using assms
  by (auto simp: init_list_head_def set_simps dll_def edge_def same_outside_def)

lemma list_empty_dll: "dll h head xs \<Longrightarrow> list_empty h head = Inr (xs = [])"
  using dll_first [of h head xs]
  by (cases xs) (auto simp: list_empty_def rd_node_def dll_def)

lemma list_find_from_chain:
  assumes "successively (edge h) (ys @ [head])" "head \<notin> set ys"
    and "\<And>x. x \<in> set ys \<Longrightarrow> test x = Inr (p x)"
  shows "list_find_from h head test (List.hd (ys @ [head])) = Some (Inr (find p ys))"
  using assms
proof (induction ys)
  case Nil
  then show ?case by (simp add: list_find_from.simps)
next
  case (Cons y ys)
  have "edge h y (List.hd (ys @ [head]))" "successively (edge h) (ys @ [head])"
    using Cons.prems(1) by (cases ys; simp)+
  then obtain n where "h y = Some n" "nxt n = List.hd (ys @ [head])"
    by (auto simp: edge_def elim: nx_SomeE)
  with Cons.IH [OF \<open>successively (edge h) (ys @ [head])\<close>] Cons.prems(2,3) show ?case
    by (subst list_find_from.simps) (auto simp: rd_node_def)
qed

lemma list_find_dll:
  assumes "dll h head xs" "\<And>x. x \<in> set xs \<Longrightarrow> test x = Inr (p x)"
  shows "list_find h head test = Inr (find p xs)"
proof -
  from assms(1) have "successively (edge h) (xs @ [head])" "head \<notin> set xs"
    by (auto simp: dll_def successively_Cons)
  from list_find_from_chain [OF this assms(2)] dll_first [OF assms(1)] show ?thesis
    by (auto simp: list_find_def rd_node_def)
qed

lemma list_find_safe_from_chain:
  assumes "successively (edge h) (ys @ [head])" "head \<notin> set ys" "h head \<noteq> None"
    and "\<And>x. x \<in> set ys \<Longrightarrow> test x = Inr (p x)"
  shows "list_find_safe_from h head test (List.hd (ys @ [head])) = Some (Inr (find p ys))"
  using assms
proof (induction ys)
  case Nil
  then show ?case by (subst list_find_safe_from.simps) (auto simp: rd_node_def)
next
  case (Cons y ys)
  have "edge h y (List.hd (ys @ [head]))" and chain: "successively (edge h) (ys @ [head])"
    using Cons.prems(1) by (cases ys; simp)+
  then obtain n where "h y = Some n" "nxt n = List.hd (ys @ [head])"
    by (auto simp: edge_def elim: nx_SomeE)
  with Cons.IH [OF chain] Cons.prems(2-4) show ?case
    by (subst list_find_safe_from.simps) (auto simp: rd_node_def)
qed

text \<open>On a list that the body leaves alone until it returns, both loops find the same node.\<close>

lemma list_find_safe_dll:
  assumes "dll h head xs" "\<And>x. x \<in> set xs \<Longrightarrow> test x = Inr (p x)"
  shows "list_find_safe h head test = Inr (find p xs)"
proof -
  from assms(1) have "successively (edge h) (xs @ [head])" "head \<notin> set xs" "h head \<noteq> None"
    using dll_first [OF assms(1)] by (auto simp: dll_def successively_Cons)
  from list_find_safe_from_chain [OF this assms(2)] dll_first [OF assms(1)] show ?thesis
    by (auto simp: list_find_safe_def rd_node_def)
qed

text \<open>A search that meets a node whose test faults, before any hit, faults.\<close>

lemma list_find_from_fault:
  assumes "successively (edge h) (xs @ n # rest)" "head \<notin> set (xs @ [n])"
    and "\<And>x. x \<in> set xs \<Longrightarrow> h' x = h x \<and> test x = Inr False" and "test n = Inl e"
  shows "list_find_from h' head test (List.hd (xs @ [n])) = Some (Inl e)"
  using assms
proof (induction xs)
  case Nil
  then show ?case by (simp add: list_find_from.simps)
next
  case (Cons x xs)
  have "edge h x (List.hd (xs @ [n]))" "successively (edge h) (xs @ n # rest)"
    using Cons.prems(1) by (cases xs; simp)+
  then obtain nd where "h x = Some nd" "nxt nd = List.hd (xs @ [n])"
    by (auto simp: edge_def elim: nx_SomeE)
  with Cons.IH [OF \<open>successively (edge h) (xs @ n # rest)\<close>] Cons.prems(2-4) show ?case
    by (subst list_find_from.simps) (auto simp: rd_node_def)
qed

lemma list_find_fault:
  assumes "dll h head (xs @ n # ys)" "h' head = h head"
    and "\<And>x. x \<in> set xs \<Longrightarrow> h' x = h x \<and> test x = Inr False" and "test n = Inl e"
  shows "list_find h' head test = Inl e"
proof -
  have "successively (edge h) (xs @ n # (ys @ [head]))" "head \<notin> set (xs @ [n])"
    using assms(1) by (auto simp: dll_def successively_Cons)
  from list_find_from_fault [OF this assms(3,4)]
  have "list_find_from h' head test (List.hd (xs @ [n])) = Some (Inl e)" by blast
  moreover obtain nd where "h head = Some nd" "nxt nd = List.hd (xs @ [n])"
    using dll_first [OF assms(1)] by (cases xs) auto
  ultimately show ?thesis using assms(2) by (simp add: list_find_def rd_node_def)
qed

interpretation lists: intrusive_list dll "\<lambda>h a. h a \<noteq> None" same_outside
  list_add_head list_add_tail list_delete_entry list_empty list_find
proof unfold_locales
  show "\<And>A h. same_outside A h h" by (simp add: same_outside_def)
  show "\<And>A h h' h''. same_outside A h h' \<Longrightarrow> same_outside A h' h'' \<Longrightarrow> same_outside A h h''"
    by (rule same_outside_trans)
  show "\<And>A h h' B. same_outside A h h' \<Longrightarrow> A \<subseteq> B \<Longrightarrow> same_outside B h h'"
    by (rule same_outside_mono)
  show "\<And>A h h' a. same_outside A h h' \<Longrightarrow> (h' a \<noteq> None) = (h a \<noteq> None)"
    by (metis domIff same_outside_def)
  show "dll h' l xs = dll h l xs"
    if "same_outside A h h'" "A \<inter> insert l (set xs) = {}" for A h h' l xs
    using that by (intro dll_frame) (auto simp: same_outside_def)
  show "\<And>h l xs. dll h l xs \<Longrightarrow> distinct (l # xs)" by (simp add: dll_def)
qed (fact dll_add_head dll_add_tail dll_delete list_empty_dll list_find_dll)+

section \<open>Properties\<close>

text \<open>Sequences of list operations, on the heap and on the abstract list.\<close>

datatype list_op = Add_Head addr | Add_Tail addr | Delete addr

fun list_run :: "node_heap \<Rightarrow> addr \<Rightarrow> list_op list \<Rightarrow> node_heap res" where
  "list_run h head [] = Inr h"
| "list_run h head (Add_Head a # ops) = rbind (list_add_head h a head) (\<lambda>h. list_run h head ops)"
| "list_run h head (Add_Tail a # ops) = rbind (list_add_tail h a head) (\<lambda>h. list_run h head ops)"
| "list_run h head (Delete a # ops) = rbind (list_delete_entry h a) (\<lambda>h. list_run h head ops)"

fun abs_run :: "addr list \<Rightarrow> list_op list \<Rightarrow> addr list" where
  "abs_run xs [] = xs"
| "abs_run xs (Add_Head a # ops) = abs_run (a # xs) ops"
| "abs_run xs (Add_Tail a # ops) = abs_run (xs @ [a]) ops"
| "abs_run xs (Delete a # ops) = abs_run (remove1 a xs) ops"

text \<open>Nodes are added only while unlinked and deleted only while linked.\<close>

fun ops_ok :: "addr set \<Rightarrow> addr \<Rightarrow> addr list \<Rightarrow> list_op list \<Rightarrow> bool" where
  "ops_ok A l xs [] = True"
| "ops_ok A l xs (Add_Head a # ops) \<longleftrightarrow> a \<in> A \<and> a \<notin> set (l # xs) \<and> ops_ok A l (a # xs) ops"
| "ops_ok A l xs (Add_Tail a # ops) \<longleftrightarrow> a \<in> A \<and> a \<notin> set (l # xs) \<and> ops_ok A l (xs @ [a]) ops"
| "ops_ok A l xs (Delete a # ops) \<longleftrightarrow> a \<in> set xs \<and> ops_ok A l (remove1 a xs) ops"

lemma remove1_split: "e \<notin> set us \<Longrightarrow> remove1 e (us @ e # vs) = us @ vs"
  by (simp add: remove1_append)

text \<open>
  C6: The pointer lists implement lists. Any sequence of head insertions, tail insertions and
  deletions, each on a node in the right state, runs without a fault, and the ring of next and
  previous pointers afterwards spells exactly the list the abstract operations compute; no
  node other than the head, the linked nodes and the inserted ones is written.
\<close>

theorem list_ops_refine:
  assumes "dll h head xs" and "ops_ok A head xs ops"
    and "insert head (set xs) \<subseteq> A" and "A \<subseteq> dom h"
  shows "\<exists>h'. list_run h head ops = Inr h' \<and> dll h' head (abs_run xs ops) \<and> same_outside A h h'"
  using assms
proof (induction ops arbitrary: h xs)
  case Nil
  then show ?case by (simp add: lists.frame_refl)
next
  case (Cons op ops)
  have step: "\<exists>h'. list_run h1 head ops = Inr h' \<and> dll h' head (abs_run xs1 ops) \<and> same_outside A h h'"
    if "dll h1 head xs1" "ops_ok A head xs1 ops" "set xs1 \<subseteq> A" "same_outside B h h1" "B \<subseteq> A" for h1 xs1 B
  proof -
    have s: "same_outside A h h1" using that(4,5) by (rule same_outside_mono)
    then have "A \<subseteq> dom h1" using Cons.prems(4) by (simp add: same_outside_def)
    from Cons.IH [OF that(1,2) _ this] that(3) Cons.prems(3) show ?thesis
      by (auto intro: same_outside_trans [OF s])
  qed
  show ?case
  proof (cases op)
    case (Add_Head a)
    with Cons.prems obtain h1 where h1: "list_add_head h a head = Inr h1" "dll h1 head (a # xs)"
      "same_outside (insert a (insert head (set xs))) h h1"
      using lists.add_head_law [of h head xs a] by auto
    from step [OF h1(2) _ _ h1(3)] Add_Head Cons.prems h1(1) show ?thesis by auto
  next
    case (Add_Tail a)
    with Cons.prems obtain h1 where h1: "list_add_tail h a head = Inr h1" "dll h1 head (xs @ [a])"
      "same_outside (insert a (insert head (set xs))) h h1"
      using lists.add_tail_law [of h head xs a] by auto
    from step [OF h1(2) _ _ h1(3)] Add_Tail Cons.prems h1(1) show ?thesis by auto
  next
    case (Delete a)
    with Cons.prems(2) obtain us vs where xs: "xs = us @ a # vs" "a \<notin> set us"
      by (auto dest: split_list_first)
    with Cons.prems(1) obtain h1 where h1: "list_delete_entry h a = Inr h1" "dll h1 head (us @ vs)"
      "same_outside (insert head (set (us @ vs))) h h1"
      using lists.delete_law [of h head us a vs] by auto
    from step [OF h1(2) _ _ h1(3)] Delete Cons.prems xs h1(1) show ?thesis
      by (auto simp: remove1_split)
  qed
qed

theorem list_ops_refine_witness:
  "\<exists>h'. list_run [16 \<mapsto> \<lparr>nxt = 16, prv = 16\<rparr>, 32 \<mapsto> \<lparr>nxt = 0, prv = 0\<rparr>, 48 \<mapsto> \<lparr>nxt = 0, prv = 0\<rparr>] 16
      [Add_Tail 32, Add_Head 48, Delete 32] = Inr h' \<and> dll h' 16 [48]"
proof -
  let ?h = "[16 \<mapsto> \<lparr>nxt = 16, prv = 16\<rparr>, 32 \<mapsto> \<lparr>nxt = 0, prv = 0\<rparr>, 48 \<mapsto> \<lparr>nxt = 0, prv = 0\<rparr>] :: node_heap"
  have "dll ?h 16 []" by (simp add: dll_def edge_def nx_def pv_def)
  from list_ops_refine [OF this, of "{16, 32, 48}" "[Add_Tail 32, Add_Head 48, Delete 32]"]
  show ?thesis by auto
qed

text \<open>
  Deleting a node does not mark it as unlinked: its own pointers keep their values, so
  the test \<^verbatim>\<open>!list_empty (entry)\<close> by which the callers decide whether a node is still
  linked stays true after the deletion.
\<close>

theorem deleted_entry_looks_linked:
  assumes "dll h head (xs @ e # ys)" and "list_delete_entry h e = Inr h'"
  shows "list_empty h' e = Inr False"
proof -
  from lists.delete_law [OF assms(1)] assms(2)
  have s: "same_outside (insert head (set (xs @ ys))) h h'" by auto
  from lists.is_list_distinct [OF assms(1)] have e: "e \<notin> insert head (set (xs @ ys))" by auto
  with s have "h' e = h e" by (simp add: same_outside_def)
  with dll_entry_next [OF assms(1)] show ?thesis by (auto simp: list_empty_def rd_node_def)
qed

theorem deleted_entry_looks_linked_witness:
  "\<exists>h'. list_delete_entry [16 \<mapsto> \<lparr>nxt = 32, prv = 32\<rparr>, 32 \<mapsto> \<lparr>nxt = 16, prv = 16\<rparr>] 32 = Inr h' \<and>
    list_empty h' 32 = Inr False"
proof -
  let ?h = "[16 \<mapsto> \<lparr>nxt = 32, prv = 32\<rparr>, 32 \<mapsto> \<lparr>nxt = 16, prv = 16\<rparr>] :: node_heap"
  have d: "dll ?h 16 ([] @ 32 # [])" by (simp add: dll_def edge_def nx_def pv_def)
  from lists.delete_law [OF d] obtain h' where "list_delete_entry ?h 32 = Inr h'" by blast
  with deleted_entry_looks_linked [OF d this] show ?thesis by blast
qed

end
