(* ===== verification/Ring_Buffer.thy ===== *)
theory Ring_Buffer
  imports Prelude "HOL-Library.Signed_Division"
begin

text \<open>
  The circular byte buffer of \<^verbatim>\<open>include/ring_buffer.h\<close> that holds the received,
  not yet read bytes of a socket. The C \<^verbatim>\<open>int\<close> fields are integers; the bounds
  theorem shows that no intermediate value leaves the range of a C \<^verbatim>\<open>int\<close>.
  \<^verbatim>\<open>%\<close> is truncated remainder (\<open>smod\<close>).

  The abstract view of a buffer is the list of its unread bytes, and the contract of a
  bounded first-in first-out channel is the locale \<open>bounded_fifo\<close>.
\<close>

section \<open>The operations\<close>

record ring_buffer =
  rb_size :: int
  rb_head :: int
  rb_tail :: int
  rb_buf :: "u8 list"

definition alloc_ring_buffer :: "int \<Rightarrow> ring_buffer" where
  "alloc_ring_buffer sz =
     \<lparr>rb_size = sz + 1, rb_head = 0, rb_tail = 0, rb_buf = replicate (nat (sz + 1)) 0\<rparr>"

definition ring_buffer_used :: "ring_buffer \<Rightarrow> int" where
  "ring_buffer_used rbuf = (rb_tail rbuf - rb_head rbuf + rb_size rbuf) smod (rb_size rbuf)"

definition ring_buffer_free :: "ring_buffer \<Rightarrow> int" where
  "ring_buffer_free rbuf = rb_size rbuf - ring_buffer_used rbuf - 1"

definition ring_buffer_empty :: "ring_buffer \<Rightarrow> bool" where
  "ring_buffer_empty rbuf \<longleftrightarrow> ring_buffer_used rbuf = 0"

definition ring_buffer_full :: "ring_buffer \<Rightarrow> bool" where
  "ring_buffer_full rbuf \<longleftrightarrow> ring_buffer_free rbuf = 0"

text \<open>The result: the returned length, the bytes stored at \<^verbatim>\<open>buf\<close>, the buffer after.\<close>

definition read_ring_buffer :: "ring_buffer \<Rightarrow> int \<Rightarrow> (int \<times> u8 list \<times> ring_buffer) res" where
  "read_ring_buffer rbuf sz =
     (let len = min (ring_buffer_used rbuf) sz in
      if len > 0 then
        rbind
          (if rb_head rbuf + len > rb_size rbuf then
             let right = rb_size rbuf - rb_head rbuf; left = len - right in
             rbind (rd_bytes (rb_buf rbuf) (rb_head rbuf) right) (\<lambda>r.
             rbind (rd_bytes (rb_buf rbuf) 0 left) (\<lambda>l. Inr (r @ l)))
           else rd_bytes (rb_buf rbuf) (rb_head rbuf) len)
          (\<lambda>out. Inr (len, out,
             rbuf\<lparr>rb_head := (rb_head rbuf + len) smod (rb_size rbuf)\<rparr>))
      else Inr (len, [], rbuf))"

definition write_ring_buffer :: "ring_buffer \<Rightarrow> u8 list \<Rightarrow> int \<Rightarrow> ring_buffer res" where
  "write_ring_buffer rbuf buf sz =
     (if \<not> (sz > 0 \<and> ring_buffer_free rbuf \<ge> sz) then Inl Assert_Failed
      else
        let len = sz in
        if len > 0 then
          rbind
            (if rb_tail rbuf + len > rb_size rbuf then
               let right = rb_size rbuf - rb_tail rbuf; left = len - right in
               rbind (rd_bytes buf 0 right) (\<lambda>r.
               rbind (wr_bytes (rb_buf rbuf) (rb_tail rbuf) r) (\<lambda>b.
               rbind (rd_bytes buf right left) (\<lambda>l.
               wr_bytes b 0 l)))
             else
               rbind (rd_bytes buf 0 len) (\<lambda>r.
               wr_bytes (rb_buf rbuf) (rb_tail rbuf) r))
            (\<lambda>b. Inr (rbuf\<lparr>rb_buf := b,
               rb_tail := (rb_tail rbuf + len) smod (rb_size rbuf)\<rparr>))
        else Inr rbuf)"

section \<open>Invariant and abstraction\<close>

definition rb_inv :: "ring_buffer \<Rightarrow> bool" where
  "rb_inv rbuf \<longleftrightarrow>
     0 < rb_size rbuf \<and> rb_size rbuf = int (length (rb_buf rbuf)) \<and>
     0 \<le> rb_head rbuf \<and> rb_head rbuf < rb_size rbuf \<and>
     0 \<le> rb_tail rbuf \<and> rb_tail rbuf < rb_size rbuf"

text \<open>The unread bytes: the buffer turned so that the head comes first.\<close>

definition rb_contents :: "ring_buffer \<Rightarrow> u8 list" where
  "rb_contents rbuf =
     take (nat (ring_buffer_used rbuf)) (rotate (nat (rb_head rbuf)) (rb_buf rbuf))"

definition rb_capacity :: "ring_buffer \<Rightarrow> nat" where
  "rb_capacity rbuf = nat (rb_size rbuf - 1)"

section \<open>The contract of a bounded channel\<close>

datatype fifo_op = Put "u8 list" | Get int

fun fifo_run ::
  "('q \<Rightarrow> int \<Rightarrow> (int \<times> u8 list \<times> 'q) res) \<Rightarrow> ('q \<Rightarrow> u8 list \<Rightarrow> int \<Rightarrow> 'q res) \<Rightarrow>
   'q \<Rightarrow> fifo_op list \<Rightarrow> (u8 list \<times> 'q) res" where
  "fifo_run rd wr q [] = Inr ([], q)"
| "fifo_run rd wr q (Put bs # ops) =
     rbind (wr q bs (int (length bs))) (\<lambda>q'. fifo_run rd wr q' ops)"
| "fifo_run rd wr q (Get n # ops) =
     rbind (rd q n) (\<lambda>(_, out, q').
     rbind (fifo_run rd wr q' ops) (\<lambda>(outs, q''). Inr (out @ outs, q'')))"

fun fifo_input :: "fifo_op list \<Rightarrow> u8 list" where
  "fifo_input [] = []"
| "fifo_input (Put bs # ops) = bs @ fifo_input ops"
| "fifo_input (Get n # ops) = fifo_input ops"

text \<open>
  A schedule is admissible from fill level \<open>k\<close> and capacity \<open>c\<close> when every write is
  nonempty and fits, and every read asks for a nonnegative number of bytes.
\<close>

fun fifo_fits :: "nat \<Rightarrow> nat \<Rightarrow> fifo_op list \<Rightarrow> bool" where
  "fifo_fits c k [] = True"
| "fifo_fits c k (Put bs # ops) \<longleftrightarrow>
     bs \<noteq> [] \<and> k + length bs \<le> c \<and> fifo_fits c (k + length bs) ops"
| "fifo_fits c k (Get n # ops) \<longleftrightarrow> 0 \<le> n \<and> fifo_fits c (k - nat n) ops"

locale bounded_fifo =
  fixes inv :: "'q \<Rightarrow> bool"
    and contents :: "'q \<Rightarrow> u8 list"
    and capacity :: "'q \<Rightarrow> nat"
    and rd :: "'q \<Rightarrow> int \<Rightarrow> (int \<times> u8 list \<times> 'q) res"
    and wr :: "'q \<Rightarrow> u8 list \<Rightarrow> int \<Rightarrow> 'q res"
  assumes contents_bound: "inv q \<Longrightarrow> length (contents q) \<le> capacity q"
    and rd_law: "inv q \<Longrightarrow> 0 \<le> n \<Longrightarrow> k = min (length (contents q)) (nat n) \<Longrightarrow>
      \<exists>q'. rd q n = Inr (int k, take k (contents q), q') \<and> inv q' \<and>
        contents q' = drop k (contents q) \<and> capacity q' = capacity q"
    and wr_law: "inv q \<Longrightarrow> bs \<noteq> [] \<Longrightarrow> length (contents q) + length bs \<le> capacity q \<Longrightarrow>
      \<exists>q'. wr q bs (int (length bs)) = Inr q' \<and> inv q' \<and>
        contents q' = contents q @ bs \<and> capacity q' = capacity q"
begin

lemma run_fits:
  assumes "inv q" and "fifo_fits (capacity q) (length (contents q)) ops"
  shows "\<exists>outs q'. fifo_run rd wr q ops = Inr (outs, q') \<and> inv q' \<and> capacity q' = capacity q \<and>
    contents q @ fifo_input ops = outs @ contents q'"
  using assms
proof (induction ops arbitrary: q)
  case Nil
  then show ?case by simp
next
  case (Cons op ops)
  show ?case
  proof (cases op)
    case (Put bs)
    with Cons.prems wr_law [of q bs] obtain q1
      where q1: "wr q bs (int (length bs)) = Inr q1" "inv q1"
        "contents q1 = contents q @ bs" "capacity q1 = capacity q"
      by auto
    with Cons.prems Put have "fifo_fits (capacity q1) (length (contents q1)) ops" by simp
    from Cons.IH [OF q1(2) this] q1 Put show ?thesis by auto
  next
    case (Get n)
    let ?k = "min (length (contents q)) (nat n)"
    from Get Cons.prems rd_law [OF _ _ refl, of q n] obtain q1
      where q1: "rd q n = Inr (int ?k, take ?k (contents q), q1)" "inv q1"
        "contents q1 = drop ?k (contents q)" "capacity q1 = capacity q"
      by auto
    have "length (contents q) - ?k = length (contents q) - nat n" by simp
    with Cons.prems Get q1 have "fifo_fits (capacity q1) (length (contents q1)) ops" by simp
    from Cons.IH [OF q1(2) this] obtain outs q2 where
      "fifo_run rd wr q1 ops = Inr (outs, q2)" "inv q2" "capacity q2 = capacity q1"
      "contents q1 @ fifo_input ops = outs @ contents q2"
      by blast
    with q1 Get show ?thesis by (auto simp flip: append_assoc) (metis append_assoc append_take_drop_id)
  qed
qed

end

section \<open>The ring buffer meets the contract\<close>

lemma smod_nonneg [simp]: "0 \<le> a \<Longrightarrow> 0 < b \<Longrightarrow> (a :: int) smod b = a mod b"
  by (auto simp: smod_int_alt_def sgn_if)

lemma smod_of_nat: "0 < n \<Longrightarrow> int a smod int n = int (a mod n)"
  by (simp add: zmod_int)

lemma mod_shift_diff: "(a mod n + n - b mod n) mod n = (a - b) mod (n :: int)"
proof -
  have "(a mod n + n - b mod n) mod n = (a mod n - b mod n + n) mod n" by (simp add: algebra_simps)
  then show ?thesis by (simp only: mod_add_self2 mod_diff_eq)
qed

text \<open>
  A well-formed buffer in terms of natural numbers: backing list, head, tail and fill
  level.
\<close>

definition mk_rb :: "u8 list \<Rightarrow> nat \<Rightarrow> nat \<Rightarrow> ring_buffer" where
  "mk_rb xs h t = \<lparr>rb_size = int (length xs), rb_head = int h, rb_tail = int t, rb_buf = xs\<rparr>"

lemma rb_inv_mk_rb: "rb_inv (mk_rb xs h t) \<longleftrightarrow> h < length xs \<and> t < length xs"
  by (auto simp: rb_inv_def mk_rb_def)

lemma rb_inv_cases:
  assumes "rb_inv b"
  obtains xs h t where "b = mk_rb xs h t" "h < length xs" "t < length xs"
  using assms
  by (cases b) (auto simp: rb_inv_def mk_rb_def elim!: nonneg_int_cases)

lemma used_mk_rb:
  assumes "h < length xs" "t < length xs"
  shows "ring_buffer_used (mk_rb xs h t) = int ((t + length xs - h) mod length xs)"
proof -
  have "int t - int h + int (length xs) = int (t + length xs - h)" using assms by simp
  moreover have "(int (t + length xs - h)) smod int (length xs) = int ((t + length xs - h) mod length xs)"
    using assms by (intro smod_of_nat) linarith
  ultimately show ?thesis by (simp add: ring_buffer_used_def mk_rb_def)
qed

lemma fill_less: "h < n \<Longrightarrow> (t + n - h) mod n < (n :: nat)"
  by simp

text \<open>From the fill level \<open>k\<close> the tail is \<open>(h + k) mod n\<close>, and conversely.\<close>

lemma tail_fill:
  assumes "h < n" "t < n"
  shows "t = (h + (t + n - h) mod n) mod (n :: nat)"
proof -
  have "(h + (t + n - h) mod n) mod n = (h + (t + n - h)) mod n" by (simp add: mod_add_right_eq)
  also have "h + (t + n - h) = t + n" using assms by simp
  finally show ?thesis using assms by simp
qed

lemma fill_tail:
  assumes "h < n" "k < n"
  shows "((h + k) mod n + n - h) mod n = (k :: nat)"
proof (cases "h + k < n")
  case True
  then show ?thesis using assms by simp
next
  case False
  then have "(h + k) mod n = h + k - n" using assms by (simp add: mod_if)
  then show ?thesis using False assms by simp
qed

lemma rb_inv_cases_fill:
  assumes "rb_inv b"
  obtains xs h k where "b = mk_rb xs h ((h + k) mod length xs)" "h < length xs" "k < length xs"
    "ring_buffer_used b = int k" "rb_contents b = take k (rotate h xs)"
proof -
  from assms obtain xs h t where b: "b = mk_rb xs h t" "h < length xs" "t < length xs"
    by (rule rb_inv_cases)
  let ?k = "(t + length xs - h) mod length xs"
  have "b = mk_rb xs h ((h + ?k) mod length xs)" using b tail_fill [of h "length xs" t] by simp
  moreover have "?k < length xs" using b by (simp add: fill_less)
  moreover have "ring_buffer_used b = int ?k" using b by (simp add: used_mk_rb)
  moreover from this have "rb_contents b = take ?k (rotate h xs)"
    using b by (simp add: rb_contents_def mk_rb_def)
  ultimately show ?thesis using b(2) that by blast
qed

lemma mk_rb_fill:
  assumes "h < length xs" "k < length xs"
  shows "rb_inv (mk_rb xs h ((h + k) mod length xs))"
    and "ring_buffer_used (mk_rb xs h ((h + k) mod length xs)) = int k"
    and "rb_contents (mk_rb xs h ((h + k) mod length xs)) = take k (rotate h xs)"
proof -
  have n: "(h + k) mod length xs < length xs" using assms by (intro mod_less_divisor) linarith
  then show "rb_inv (mk_rb xs h ((h + k) mod length xs))" using assms by (simp add: rb_inv_mk_rb)
  from assms n show "ring_buffer_used (mk_rb xs h ((h + k) mod length xs)) = int k"
    by (simp add: used_mk_rb fill_tail)
  then show "rb_contents (mk_rb xs h ((h + k) mod length xs)) = take k (rotate h xs)"
    by (simp add: rb_contents_def) (simp add: mk_rb_def)
qed

lemma rb_contents_capacity: "rb_inv b \<Longrightarrow> length (rb_contents b) \<le> rb_capacity b"
  by (erule rb_inv_cases_fill) (auto simp: rb_capacity_def mk_rb_def)

lemma rb_used_length: "rb_inv b \<Longrightarrow> ring_buffer_used b = int (length (rb_contents b))"
  by (erule rb_inv_cases_fill) simp

lemma rb_free_length: "rb_inv b \<Longrightarrow> ring_buffer_free b = int (rb_capacity b - length (rb_contents b))"
  by (erule rb_inv_cases_fill) (auto simp: ring_buffer_free_def rb_capacity_def mk_rb_def)

text \<open>Reading: the two \<^verbatim>\<open>memcpy\<close> calls together copy a prefix of the turned buffer.\<close>

lemma take_rotate_wrap:
  assumes "h < length xs" "m \<le> length xs" "length xs < h + m"
  shows "drop h xs @ take (h + m - length xs) xs = take m (rotate h xs)"
  using assms by (auto simp: rotate_drop_take min_def add.commute)

lemma take_rotate_nowrap:
  assumes "h < length xs" "h + m \<le> length xs"
  shows "take m (drop h xs) = take m (rotate h xs)"
  using assms by (simp add: rotate_drop_take)

lemma read_copied:
  assumes "h < length xs" "0 < m" "m \<le> length xs"
  shows "(if int h + int m > int (length xs) then
            let right = int (length xs) - int h; left = int m - right in
            rbind (rd_bytes xs (int h) right) (\<lambda>r. rbind (rd_bytes xs 0 left) (\<lambda>l. Inr (r @ l)))
          else rd_bytes xs (int h) (int m)) = Inr (take m (rotate h xs))"
proof (cases "length xs < h + m")
  case True
  moreover have "nat (int m - (int (length xs) - int h)) = h + m - length xs"
    using True by simp
  ultimately show ?thesis using assms take_rotate_wrap [of h xs m]
    by (auto simp: rd_bytes_def Let_def)
next
  case False
  with assms take_rotate_nowrap [of h xs m] show ?thesis by (simp add: rd_bytes_def)
qed

lemma drop_rotate:
  assumes "h < length xs" "m \<le> k" "k < length xs"
  shows "take (k - m) (rotate ((h + m) mod length xs) xs) = drop m (take k (rotate h xs))"
proof -
  have "rotate ((h + m) mod length xs) xs = rotate m (rotate h xs)"
    by (simp add: rotate_rotate add.commute flip: rotate_conv_mod)
  also have "\<dots> = drop m (rotate h xs) @ take m (rotate h xs)"
    using assms by (simp add: rotate_drop_take)
  finally show ?thesis using assms by (simp add: drop_take)
qed

lemma smod_advance: "0 < n \<Longrightarrow> (int (a mod n) + int m) smod int n = int ((a + m) mod n)"
  using smod_of_nat [of n "a mod n + m"] by (simp only: of_nat_add mod_add_left_eq)

lemma read_mk_rb:
  assumes hk: "h < length xs" "k < length xs" and mk: "m \<le> k" "0 < m"
    and n: "min (int k) n = int m"
  defines "h' \<equiv> (h + m) mod length xs"
  shows "read_ring_buffer (mk_rb xs h ((h + k) mod length xs)) n =
    Inr (int m, take m (rotate h xs), mk_rb xs h' ((h' + (k - m)) mod length xs))"
proof -
  let ?b = "mk_rb xs h ((h + k) mod length xs)"
  have flds: "rb_size ?b = int (length xs)" "rb_head ?b = int h" "rb_buf ?b = xs" by (simp_all add: mk_rb_def)
  have hs: "(int h + int m) smod int (length xs) = int h'"
    using smod_of_nat [of "length xs" "h + m"] hk by (simp only: h'_def of_nat_add)
  have "(h' + (k - m)) mod length xs = (h + m + (k - m)) mod length xs" unfolding h'_def by (rule mod_add_left_eq)
  then have "(h' + (k - m)) mod length xs = (h + k) mod length xs" using mk(1) by simp
  then have "?b\<lparr>rb_head := int h'\<rparr> = mk_rb xs h' ((h' + (k - m)) mod length xs)" by (simp add: mk_rb_def)
  moreover have "int m > 0" "m \<le> length xs" using mk hk by auto
  ultimately show ?thesis
    unfolding read_ring_buffer_def Let_def mk_rb_fill(2) [OF hk] n flds hs
    by (simp only: read_copied [OF hk(1) mk(2), unfolded Let_def] if_True rbind_Inr)
qed

lemma rb_read_law:
  assumes "rb_inv b" "0 \<le> n" and m: "m = min (length (rb_contents b)) (nat n)"
  shows "\<exists>b'. read_ring_buffer b n = Inr (int m, take m (rb_contents b), b') \<and> rb_inv b' \<and>
    rb_contents b' = drop m (rb_contents b) \<and> rb_capacity b' = rb_capacity b"
proof -
  from assms(1) obtain xs h k where b: "b = mk_rb xs h ((h + k) mod length xs)"
    and hk: "h < length xs" "k < length xs" and used: "ring_buffer_used b = int k"
    and cont: "rb_contents b = take k (rotate h xs)"
    by (rule rb_inv_cases_fill)
  have len: "length (rb_contents b) = k" using cont hk by simp
  then have mk: "m \<le> k" and n: "min (int k) n = int m" using m assms(2) by (auto simp: min_def)
  show ?thesis
  proof (cases "m = 0")
    case True
    with n used assms(1) show ?thesis by (simp add: read_ring_buffer_def)
  next
    case False
    let ?h = "(h + m) mod length xs"
    have "read_ring_buffer b n = Inr (int m, take m (rotate h xs), mk_rb xs ?h ((?h + (k - m)) mod length xs))"
      unfolding b using False by (intro read_mk_rb hk mk n) simp
    moreover have "take m (rotate h xs) = take m (rb_contents b)" using cont mk by (simp add: min_def)
    moreover have "?h < length xs" using hk by (intro mod_less_divisor) linarith
    note mk_rb_fill [OF this less_imp_diff_less [OF hk(2), of m]]
    moreover have "take (k - m) (rotate ?h xs) = drop m (rb_contents b)"
      using drop_rotate [OF hk(1) mk hk(2)] cont by simp
    ultimately show ?thesis by (auto simp: b rb_capacity_def mk_rb_def)
  qed
qed

text \<open>
  Writing: whichever way the bytes are split over the two \<^verbatim>\<open>memcpy\<close> calls, cell
  \<open>(t + i) mod n\<close> receives byte \<open>i\<close> of the source and every other cell is kept.
\<close>

lemma write_copied:
  assumes "t < length xs" "0 < length src" "length src < length xs"
  shows "\<exists>ys. (if int t + int (length src) > int (length xs) then
            let right = int (length xs) - int t; left = int (length src) - right in
            rbind (rd_bytes src 0 right) (\<lambda>r. rbind (wr_bytes xs (int t) r) (\<lambda>b.
            rbind (rd_bytes src right left) (\<lambda>l. wr_bytes b 0 l)))
          else rbind (rd_bytes src 0 (int (length src))) (\<lambda>r. wr_bytes xs (int t) r)) = Inr ys \<and>
      length ys = length xs \<and>
      (\<forall>j < length xs. ys ! j =
         (if (j + length xs - t) mod length xs < length src
          then src ! ((j + length xs - t) mod length xs) else xs ! j))"
proof (cases "length xs < t + length src")
  case True
  define r where "r = length xs - t"
  have r: "r < length src" "t + r = length xs" "int (length xs) - int t = int r"
    using True assms by (auto simp: r_def)
  let ?ys = "blit (blit xs t (take r src)) 0 (drop r src)"
  have "nat (int (length src) - int r) = length src - r" using r by simp
  moreover have "length (blit xs t (take r src)) = length xs" using r by simp
  ultimately have "(let right = int (length xs) - int t; left = int (length src) - right in
      rbind (rd_bytes src 0 right) (\<lambda>q. rbind (wr_bytes xs (int t) q) (\<lambda>b.
      rbind (rd_bytes src right left) (\<lambda>l. wr_bytes b 0 l)))) = Inr ?ys"
    using True assms r by (simp add: rd_bytes_def wr_bytes_def Let_def)
  moreover have "length ?ys = length xs" using r assms by simp
  moreover have "?ys ! j = (if (j + length xs - t) mod length xs < length src
      then src ! ((j + length xs - t) mod length xs) else xs ! j)" if j: "j < length xs" for j
  proof (cases "j < t")
    case jt: True
    then have "(j + length xs - t) mod length xs = j + r" using j r by simp
    then show ?thesis using jt j r assms by (auto simp: nth_blit add.commute)
  next
    case jt: False
    then have "(j + length xs - t) mod length xs = j - t" using j by (simp add: mod_if)
    moreover have "j - t < r" using jt j r by simp
    ultimately show ?thesis using jt j r assms by (auto simp: nth_blit)
  qed
  ultimately show ?thesis using True by auto
next
  case False
  have "(j + length xs - t) mod length xs = (if j < t then j + length xs - t else j - t)"
    if "j < length xs" for j
    using that assms by (auto simp: mod_if)
  then have "blit xs t src ! j = (if (j + length xs - t) mod length xs < length src
      then src ! ((j + length xs - t) mod length xs) else xs ! j)" if j: "j < length xs" for j
    using that False assms by (auto simp: nth_blit)
  then show ?thesis using False assms by (auto simp: rd_bytes_def wr_bytes_def)
qed

lemma write_turned:
  assumes "h < length xs" "k + length src < length xs" "length ys = length xs"
    and ys: "\<And>j. j < length xs \<Longrightarrow> ys ! j =
      (if (j + length xs - (h + k) mod length xs) mod length xs < length src
       then src ! ((j + length xs - (h + k) mod length xs) mod length xs) else xs ! j)"
  shows "take (k + length src) (rotate h ys) = take k (rotate h xs) @ src"
proof (rule nth_equalityI)
  show "length (take (k + length src) (rotate h ys)) = length (take k (rotate h xs) @ src)"
    using assms by simp
  fix i
  assume "i < length (take (k + length src) (rotate h ys))"
  then have i: "i < k + length src" by simp
  let ?n = "length xs"
  let ?t = "(h + k) mod ?n"
  have n: "0 < ?n" using assms(2) by linarith
  have j: "(h + i) mod ?n < ?n" using n by simp
  have shift: "((h + i) mod ?n + ?n - ?t) mod ?n = (if i < k then i + ?n - k else i - k)"
  proof -
    have "?t < ?n" using n by simp
    then have "int (((h + i) mod ?n + ?n - ?t) mod ?n) = (int ((h + i) mod ?n) + int ?n - int ?t) mod int ?n"
      by (simp add: zmod_int)
    also have "\<dots> = (int (h + i) - int (h + k)) mod int ?n"
      by (simp only: zmod_int mod_shift_diff)
    also have "\<dots> = (int i - int k) mod int ?n" by simp
    also have "\<dots> = int (if i < k then i + ?n - k else i - k)"
    proof (cases "i < k")
      case True
      then have "(int i - int k) mod int ?n = (int i - int k + int ?n) mod int ?n" by simp
      also have "\<dots> = int i - int k + int ?n" using True assms(2) by (intro mod_pos_pos_trivial) auto
      finally show ?thesis using True assms(2) by simp
    next
      case False
      then show ?thesis using i assms(2) by (simp add: zmod_int [symmetric])
    qed
    finally show ?thesis by (simp only: of_nat_eq_iff)
  qed
  have "take (k + length src) (rotate h ys) ! i = ys ! ((h + i) mod ?n)"
    using i assms(2,3) by (simp add: nth_rotate)
  also have "\<dots> = (if i < k then xs ! ((h + i) mod ?n) else src ! (i - k))"
    using ys [OF j] shift i assms(2) by auto
  also have "\<dots> = (take k (rotate h xs) @ src) ! i"
    using i assms(2) by (simp add: nth_append nth_rotate)
  finally show "take (k + length src) (rotate h ys) ! i = (take k (rotate h xs) @ src) ! i" .
qed

lemma write_mk_rb:
  assumes hk: "h < length xs" "k < length xs" and src: "src \<noteq> []" "k + length src < length xs"
  shows "\<exists>ys. write_ring_buffer (mk_rb xs h ((h + k) mod length xs)) src (int (length src)) =
      Inr (mk_rb ys h ((h + (k + length src)) mod length ys)) \<and> length ys = length xs \<and>
    take (k + length src) (rotate h ys) = take k (rotate h xs) @ src"
proof -
  let ?t = "(h + k) mod length xs" and ?k = "k + length src"
  let ?b = "mk_rb xs h ?t"
  have flds: "rb_size ?b = int (length xs)" "rb_tail ?b = int ?t" "rb_buf ?b = xs" by (simp_all add: mk_rb_def)
  have pos: "0 < length xs" "0 < length src" "length src < length xs" using src by auto
  then have t: "?t < length xs" by (intro mod_less_divisor)
  from write_copied [OF t pos(2,3)] obtain ys where copied:
    "(if int ?t + int (length src) > int (length xs) then
        let right = int (length xs) - int ?t; left = int (length src) - right in
        rbind (rd_bytes src 0 right) (\<lambda>r. rbind (wr_bytes xs (int ?t) r) (\<lambda>b.
        rbind (rd_bytes src right left) (\<lambda>l. wr_bytes b 0 l)))
      else rbind (rd_bytes src 0 (int (length src))) (\<lambda>r. wr_bytes xs (int ?t) r)) = Inr ys"
    and len: "length ys = length xs"
    and ys: "\<forall>j < length xs. ys ! j = (if (j + length xs - ?t) mod length xs < length src
         then src ! ((j + length xs - ?t) mod length xs) else xs ! j)"
    by blast
  have tl: "(int ?t + int (length src)) smod int (length xs) = int ((h + ?k) mod length ys)"
    using smod_advance [OF pos(1), of "h + k" "length src"] by (simp only: len add.assoc)
  have "?b\<lparr>rb_buf := ys, rb_tail := int ((h + ?k) mod length ys)\<rparr> = mk_rb ys h ((h + ?k) mod length ys)"
    by (simp add: mk_rb_def len)
  moreover have "ring_buffer_free ?b \<ge> int (length src)"
    using src(2) mk_rb_fill(2) [OF hk] by (simp add: ring_buffer_free_def flds)
  moreover have "int (length src) > 0" using pos(2) by simp
  ultimately have "write_ring_buffer ?b src (int (length src)) = Inr (mk_rb ys h ((h + ?k) mod length ys))"
    unfolding write_ring_buffer_def Let_def flds tl
    by (simp only: copied [unfolded Let_def] if_True if_False rbind_Inr simp_thms)
  with len write_turned [OF hk(1) src(2) len] ys show ?thesis by blast
qed

lemma rb_write_law:
  assumes "rb_inv b" "src \<noteq> []" and fits: "length (rb_contents b) + length src \<le> rb_capacity b"
  shows "\<exists>b'. write_ring_buffer b src (int (length src)) = Inr b' \<and> rb_inv b' \<and>
    rb_contents b' = rb_contents b @ src \<and> rb_capacity b' = rb_capacity b"
proof -
  from assms(1) obtain xs h k where b: "b = mk_rb xs h ((h + k) mod length xs)"
    and hk: "h < length xs" "k < length xs" and cont: "rb_contents b = take k (rotate h xs)"
    by (rule rb_inv_cases_fill)
  have cap: "rb_capacity b = length xs - 1" by (simp add: b rb_capacity_def mk_rb_def nat_diff_distrib)
  have room: "k + length src < length xs" using fits cont hk cap by simp
  from write_mk_rb [OF hk assms(2) room] obtain ys where
    w: "write_ring_buffer b src (int (length src)) = Inr (mk_rb ys h ((h + (k + length src)) mod length ys))"
      "length ys = length xs" "take (k + length src) (rotate h ys) = rb_contents b @ src"
    unfolding b cont [unfolded b] by blast
  have "h < length ys" "k + length src < length ys" using hk room w(2) by simp_all
  from mk_rb_fill [OF this] w cap show ?thesis by (auto simp: rb_capacity_def mk_rb_def nat_diff_distrib)
qed

interpretation rb: bounded_fifo rb_inv rb_contents rb_capacity read_ring_buffer write_ring_buffer
  by unfold_locales (blast intro: rb_contents_capacity rb_read_law rb_write_law)+

section \<open>Properties\<close>

lemma ring_buffer_tests:
  assumes "rb_inv b"
  shows "ring_buffer_empty b \<longleftrightarrow> rb_contents b = []"
    and "ring_buffer_full b \<longleftrightarrow> length (rb_contents b) = rb_capacity b"
  using assms rb_contents_capacity [OF assms]
  by (auto simp: ring_buffer_empty_def ring_buffer_full_def rb_used_length rb_free_length)

lemma rb_alloc_law:
  assumes "0 \<le> sz"
  shows "rb_inv (alloc_ring_buffer sz)" "rb_contents (alloc_ring_buffer sz) = []"
    "rb_capacity (alloc_ring_buffer sz) = nat sz"
  using assms
  by (simp_all add: alloc_ring_buffer_def rb_inv_def rb_capacity_def rb_contents_def
      ring_buffer_used_def smod_int_alt_def)

text \<open>
  C7: The ring buffer is a bounded first-in first-out channel. From any well-formed buffer,
  every schedule of nonempty writes that fit and of reads runs without a fault, and the bytes
  handed to the readers followed by the bytes still stored are exactly the bytes stored at
  the start followed by the bytes written, in order; the capacity never changes.
\<close>

theorem ring_buffer_stream:
  assumes "rb_inv b" and "fifo_fits (rb_capacity b) (length (rb_contents b)) ops"
  shows "\<exists>out b'. fifo_run read_ring_buffer write_ring_buffer b ops = Inr (out, b') \<and>
    rb_inv b' \<and> rb_capacity b' = rb_capacity b \<and>
    rb_contents b @ fifo_input ops = out @ rb_contents b'"
  using rb.run_fits [OF assms] by blast

theorem ring_buffer_stream_witness:
  "\<exists>out b'. fifo_run read_ring_buffer write_ring_buffer (alloc_ring_buffer 3)
      [Put [1, 2], Get 1, Put [3, 4], Get 5] = Inr (out, b') \<and>
    [1, 2, 3, 4] = out @ rb_contents b'"
proof -
  have "fifo_fits (rb_capacity (alloc_ring_buffer 3)) (length (rb_contents (alloc_ring_buffer 3)))
      [Put [1, 2], Get 1, Put [3, 4], Get 5]"
    by (simp add: rb_alloc_law)
  from ring_buffer_stream [OF rb_alloc_law(1) this] show ?thesis
    by (auto simp: rb_alloc_law simp del: fifo_run.simps)
qed

text \<open>
  C21: The assertion at the head of \<^verbatim>\<open>write_ring_buffer\<close> fires exactly on an empty
  write or on one larger than the free space, and a write that passes it appends its bytes.
\<close>

theorem write_ring_buffer_exact:
  assumes "rb_inv b"
  shows "if src = [] \<or> rb_capacity b < length (rb_contents b) + length src
    then write_ring_buffer b src (int (length src)) = Inl Assert_Failed
    else \<exists>b'. write_ring_buffer b src (int (length src)) = Inr b' \<and> rb_inv b' \<and>
        rb_contents b' = rb_contents b @ src"
proof -
  have "ring_buffer_free b \<ge> int (length src) \<longleftrightarrow>
      length (rb_contents b) + length src \<le> rb_capacity b"
    using rb_contents_capacity [OF assms] by (auto simp: rb_free_length [OF assms])
  then have "write_ring_buffer b src (int (length src)) = Inl Assert_Failed"
    if "src = [] \<or> rb_capacity b < length (rb_contents b) + length src"
    using that by (auto simp: write_ring_buffer_def)
  moreover have "\<exists>b'. write_ring_buffer b src (int (length src)) = Inr b' \<and> rb_inv b' \<and>
      rb_contents b' = rb_contents b @ src"
    if "src \<noteq> []" "length (rb_contents b) + length src \<le> rb_capacity b"
    using rb.wr_law [OF assms that] by blast
  ultimately show ?thesis by auto
qed

theorem write_ring_buffer_exact_witness:
  "write_ring_buffer (alloc_ring_buffer 2) [1, 2, 3] 3 = Inl Assert_Failed \<and>
   (\<exists>b'. write_ring_buffer (alloc_ring_buffer 2) [1, 2] 2 = Inr b' \<and> rb_contents b' = [1, 2])"
proof -
  have inv: "rb_inv (alloc_ring_buffer 2)" by (simp add: rb_alloc_law)
  show ?thesis
    using write_ring_buffer_exact [OF inv, of "[1, 2, 3]"]
      write_ring_buffer_exact [OF inv, of "[1, 2]"]
    by (auto simp: rb_alloc_law)
qed

text \<open>
  No integer expression of \<^verbatim>\<open>ring_buffer.h\<close> overflows: for a well-formed
  buffer of at most \<open>2 ^ 30\<close> cells (the stack allocates 65536), the differences and sums of
  head, tail, size and a copy length all lie in the range of a C \<^verbatim>\<open>int\<close>, and the
  remainders taken are those of nonnegative numbers.
\<close>

theorem ring_buffer_no_overflow:
  assumes "rb_inv b" "rb_size b \<le> 2 ^ 30" "0 \<le> len" "len \<le> max (ring_buffer_used b) (ring_buffer_free b)"
  shows "- (2 ^ 31) \<le> rb_tail b - rb_head b \<and>
    rb_tail b - rb_head b + rb_size b \<in> {0..<2 ^ 31} \<and>
    ring_buffer_used b \<in> {0..<rb_size b} \<and> ring_buffer_free b \<in> {0..<rb_size b} \<and>
    rb_head b + len \<in> {0..<2 ^ 31} \<and> rb_tail b + len \<in> {0..<2 ^ 31}"
proof -
  have "int (rb_capacity b) = rb_size b - 1"
    using assms(1) by (auto simp: rb_capacity_def rb_inv_def)
  with rb_contents_capacity [OF assms(1)] rb_used_length [OF assms(1)] rb_free_length [OF assms(1)]
  have "0 \<le> ring_buffer_used b" "ring_buffer_used b < rb_size b"
    "0 \<le> ring_buffer_free b" "ring_buffer_free b < rb_size b"
    by auto
  with assms show ?thesis by (auto simp: rb_inv_def)
qed

theorem ring_buffer_no_overflow_witness:
  "rb_tail (alloc_ring_buffer 65535) - rb_head (alloc_ring_buffer 65535)
     + rb_size (alloc_ring_buffer 65535) \<in> {0..<2 ^ 31}"
proof -
  have "rb_inv (alloc_ring_buffer 65535)" by (simp add: rb_alloc_law)
  moreover from this have "0 \<le> ring_buffer_used (alloc_ring_buffer 65535)"
    by (simp add: rb_used_length)
  moreover have "rb_size (alloc_ring_buffer 65535) \<le> 2 ^ 30" by (simp add: alloc_ring_buffer_def)
  ultimately show ?thesis
    using ring_buffer_no_overflow [of "alloc_ring_buffer 65535" 0] by auto
qed

end
