(* ===== verification/Synch_Wait.thy ===== *)
theory Synch_Wait
  imports Prelude
begin

text \<open>
  The wait structure of \<^verbatim>\<open>include/synch_wait.h\<close>, on which the application
  threads sleep until the stack notifies them. Each operation runs under the structure's
  mutex and is one atomic step, but for \<^verbatim>\<open>sleep_on\<close>, which gives the mutex up
  inside \<^verbatim>\<open>pthread_cond_wait\<close>: it is an entry step and, for a thread that
  blocked, a resumption step. \<open>wait_step\<close> interleaves the operations of any number of
  threads on one structure.
\<close>

section \<open>The operations\<close>

record synch_wait =
  sw_notified :: int
  sw_dead :: int
  sw_sleep :: int

definition wait_init :: synch_wait where
  "wait_init = \<lparr>sw_notified = 0, sw_dead = 0, sw_sleep = 0\<rparr>"

text \<open>The structure after the call, and whether \<^verbatim>\<open>pthread_cond_broadcast\<close> is called.\<close>

definition wait_exit :: "synch_wait \<Rightarrow> synch_wait \<times> bool" where
  "wait_exit w =
     (if sw_dead w \<noteq> 0 then (w, False)
      else let w = w\<lparr>sw_dead := 1\<rparr> in (w, sw_sleep w \<noteq> 0))"

datatype sleep_outcome = Returns int synch_wait | Blocks synch_wait

text \<open>After \<^verbatim>\<open>pthread_cond_wait\<close>, or directly when a notification is pending.\<close>

definition sleep_on_resume :: "synch_wait \<Rightarrow> int \<times> synch_wait" where
  "sleep_on_resume w = (let w = w\<lparr>sw_notified := 0, sw_sleep := 0\<rparr> in (- sw_dead w, w))"

definition sleep_on :: "synch_wait \<Rightarrow> sleep_outcome" where
  "sleep_on w =
     (if sw_dead w \<noteq> 0 then Returns (- sw_dead w) w
      else let w = w\<lparr>sw_sleep := 1\<rparr> in
        if sw_notified w = 0 then Blocks w
        else case sleep_on_resume w of (r, w) \<Rightarrow> Returns r w)"

text \<open>The result, the structure after the call, and whether \<^verbatim>\<open>pthread_cond_signal\<close> is called.\<close>

definition wake_up :: "synch_wait \<Rightarrow> int \<times> synch_wait \<times> bool" where
  "wake_up w =
     (if sw_dead w \<noteq> 0 then (- sw_dead w, w, False)
      else if sw_notified w = 0
        then let w = w\<lparr>sw_notified := 1\<rparr> in (- sw_dead w, w, sw_sleep w \<noteq> 0)
        else (- sw_dead w, w, False))"

definition alloc_wait_struct :: synch_wait where
  "alloc_wait_struct = wait_init"

section \<open>Threads on one structure\<close>

record wait_sys =
  chan :: synch_wait
  blocked :: "nat set"   \<comment> \<open>threads inside \<^verbatim>\<open>pthread_cond_wait\<close>\<close>
  woken :: "nat set"     \<comment> \<open>threads released from it, not yet holding the mutex\<close>

definition wait_start :: wait_sys where
  "wait_start = \<lparr>chan = alloc_wait_struct, blocked = {}, woken = {}\<rparr>"

datatype wait_event = Sleep nat | Woken nat | Notify | Kill | Spurious nat

text \<open>
  A signal releases one blocked thread if there is one; a broadcast releases all; the
  condition variable may also release a thread spuriously.
\<close>

inductive wait_step :: "wait_sys \<Rightarrow> wait_event \<Rightarrow> wait_sys \<Rightarrow> bool" where
  sleep_returns: "sleep_on (chan s) = Returns r w \<Longrightarrow> t \<notin> blocked s \<union> woken s \<Longrightarrow>
    wait_step s (Sleep t) (s\<lparr>chan := w\<rparr>)"
| sleep_blocks: "sleep_on (chan s) = Blocks w \<Longrightarrow> t \<notin> blocked s \<union> woken s \<Longrightarrow>
    wait_step s (Sleep t) (s\<lparr>chan := w, blocked := insert t (blocked s)\<rparr>)"
| resume: "sleep_on_resume (chan s) = (r, w) \<Longrightarrow> t \<in> woken s \<Longrightarrow>
    wait_step s (Woken t) (s\<lparr>chan := w, woken := woken s - {t}\<rparr>)"
| notify_signal: "wake_up (chan s) = (r, w, True) \<Longrightarrow> t \<in> blocked s \<Longrightarrow>
    wait_step s Notify (s\<lparr>chan := w, blocked := blocked s - {t}, woken := insert t (woken s)\<rparr>)"
| notify_nobody: "wake_up (chan s) = (r, w, sig) \<Longrightarrow> sig = False \<or> blocked s = {} \<Longrightarrow>
    wait_step s Notify (s\<lparr>chan := w\<rparr>)"
| kill: "wait_exit (chan s) = (w, bc) \<Longrightarrow>
    wait_step s Kill (if bc then s\<lparr>chan := w, blocked := {}, woken := woken s \<union> blocked s\<rparr>
                      else s\<lparr>chan := w\<rparr>)"
| spurious: "t \<in> blocked s \<Longrightarrow>
    wait_step s (Spurious t) (s\<lparr>blocked := blocked s - {t}, woken := insert t (woken s)\<rparr>)"

inductive wait_trace :: "wait_sys \<Rightarrow> wait_event list \<Rightarrow> wait_sys \<Rightarrow> bool" where
  trace_nil: "wait_trace s [] s"
| trace_cons: "wait_step s e s' \<Longrightarrow> wait_trace s' es s'' \<Longrightarrow> wait_trace s (e # es) s''"

inductive_cases wait_step_SleepE: "wait_step s (Sleep t) s'"
inductive_cases wait_step_WokenE: "wait_step s (Woken t) s'"
inductive_cases wait_step_NotifyE: "wait_step s Notify s'"
inductive_cases wait_step_KillE: "wait_step s Kill s'"
inductive_cases wait_step_SpuriousE: "wait_step s (Spurious t) s'"

lemmas wait_step_elims =
  wait_step_SleepE wait_step_WokenE wait_step_NotifyE wait_step_KillE wait_step_SpuriousE

lemmas wait_ops =
  sleep_on_def sleep_on_resume_def wake_up_def wait_exit_def Let_def

section \<open>The contract of a notification channel\<close>

locale notification_channel =
  fixes ok :: "'c \<Rightarrow> bool"
    and pending :: "'c \<Rightarrow> bool"
    and sleep :: "'c \<Rightarrow> (int \<times> 'c) + 'c"  \<comment> \<open>returns at once, or blocks\<close>
    and notify :: "'c \<Rightarrow> 'c \<times> bool"        \<comment> \<open>and whether a sleeper is signalled\<close>
    and wake :: "'c \<Rightarrow> int \<times> 'c"           \<comment> \<open>the rest of a blocked sleep\<close>
  assumes sleep_pending: "ok c \<Longrightarrow> pending c \<Longrightarrow> \<exists>c'. sleep c = Inl (0, c') \<and> ok c' \<and> \<not> pending c'"
    and sleep_blocks: "ok c \<Longrightarrow> \<not> pending c \<Longrightarrow> \<exists>c'. sleep c = Inr c' \<and> ok c' \<and> \<not> pending c' \<and> snd (notify c')"
    and notify_pending: "ok c \<Longrightarrow> ok (fst (notify c)) \<and> pending (fst (notify c))"
    and wake_clears: "ok c \<Longrightarrow> fst (wake c) = 0 \<and> ok (snd (wake c)) \<and> \<not> pending (snd (wake c))"
begin

text \<open>The order of one notification and one sleep does not matter: either way the sleeper
  gets through with result 0 and the notification is consumed.\<close>

lemma either_order:
  assumes "ok c" "\<not> pending c"
  shows "(\<exists>c'. sleep (fst (notify c)) = Inl (0, c') \<and> \<not> pending c') \<and>
    (\<exists>c1. sleep c = Inr c1 \<and> snd (notify c1) \<and> fst (wake (fst (notify c1))) = 0 \<and>
       \<not> pending (snd (wake (fst (notify c1)))))"
  using assms sleep_pending notify_pending sleep_blocks wake_clears by meson

end

interpretation sync: notification_channel
  "\<lambda>w. sw_dead w = 0" "\<lambda>w. sw_notified w \<noteq> 0"
  "\<lambda>w. case sleep_on w of Returns r w' \<Rightarrow> Inl (r, w') | Blocks w' \<Rightarrow> Inr w'"
  "\<lambda>w. snd (wake_up w)" "sleep_on_resume"
  by unfold_locales (auto simp: wait_ops)

section \<open>Properties\<close>

text \<open>
  A notification sent before the thread goes to sleep is not lost, nor is one sent while
  it sleeps: in both orders \<^verbatim>\<open>sleep_on\<close> returns 0 and the notification is used up.
\<close>

theorem wake_up_sleep_on_commute:
  assumes "sw_dead w = 0" and "sw_notified w = 0"
  shows "(\<exists>w'. sleep_on (fst (snd (wake_up w))) = Returns 0 w' \<and> sw_notified w' = 0) \<and>
    (\<exists>w1. sleep_on w = Blocks w1 \<and> snd (snd (wake_up w1)) \<and>
      fst (sleep_on_resume (fst (snd (wake_up w1)))) = 0 \<and>
      sw_notified (snd (sleep_on_resume (fst (snd (wake_up w1))))) = 0)"
proof -
  from sync.either_order [of w] assms show ?thesis
    by (auto split: sleep_outcome.splits)
qed

theorem wake_up_sleep_on_commute_witness:
  "\<exists>w'. sleep_on (fst (snd (wake_up alloc_wait_struct))) = Returns 0 w' \<and> sw_notified w' = 0"
  using wake_up_sleep_on_commute [of alloc_wait_struct]
  by (simp add: alloc_wait_struct_def wait_init_def)

text \<open>One sleeper at a time: nobody starts to sleep while another thread is on its way through.\<close>

definition lone_sleeper :: "wait_sys \<Rightarrow> wait_event \<Rightarrow> bool" where
  "lone_sleeper s e \<longleftrightarrow> (case e of Sleep t \<Rightarrow> blocked s = {} \<and> woken s = {} | _ \<Rightarrow> True)"

inductive lone_trace :: "wait_sys \<Rightarrow> wait_event list \<Rightarrow> wait_sys \<Rightarrow> bool" where
  lone_nil: "lone_trace s [] s"
| lone_snoc: "lone_trace s es s' \<Longrightarrow> wait_step s' e s'' \<Longrightarrow> lone_sleeper s' e \<Longrightarrow> lone_trace s (es @ [e]) s''"

definition lone_inv :: "wait_sys \<Rightarrow> bool" where
  "lone_inv s \<longleftrightarrow>
     (blocked s = {} \<and> woken s = {} \<or> (\<exists>t. blocked s = {t} \<and> woken s = {}) \<or>
      (\<exists>t. blocked s = {} \<and> woken s = {t})) \<and>
     (blocked s \<noteq> {} \<longrightarrow> sw_sleep (chan s) = 1 \<and> sw_notified (chan s) = 0 \<and> sw_dead (chan s) = 0)"

lemma lone_inv_step:
  assumes "lone_inv s" "wait_step s e s'" "lone_sleeper s e"
  shows "lone_inv s'"
  using assms(2,1,3)
  by (cases rule: wait_step.cases)
    (auto simp: lone_inv_def lone_sleeper_def wait_ops split: if_splits)

text \<open>
  C11: With one sleeper at a time, which is how the stack uses its wait structures, no wake-up
  is lost: in every reachable state a thread that is blocked has no notification pending, the
  structure is alive and says that somebody sleeps, so the next \<^verbatim>\<open>wake_up\<close> releases
  exactly that thread.
\<close>

theorem lone_sleeper_not_stuck:
  assumes "lone_trace wait_start es s" and "t \<in> blocked s"
  shows "sw_notified (chan s) = 0 \<and> sw_dead (chan s) = 0 \<and> (\<exists>s'. wait_step s Notify s') \<and>
    (\<forall>s'. wait_step s Notify s' \<longrightarrow> t \<in> woken s' \<and> blocked s' = {})"
proof -
  have "lone_inv s'" if "lone_trace s es s'" "lone_inv s" for s es s'
    using that by (induction rule: lone_trace.induct) (auto intro: lone_inv_step)
  moreover have "lone_inv wait_start" by (simp add: lone_inv_def wait_start_def)
  ultimately have "lone_inv s" using assms(1) by blast
  with assms(2) have inv: "blocked s = {t}" "sw_sleep (chan s) = 1" "sw_notified (chan s) = 0"
    "sw_dead (chan s) = 0"
    by (auto simp: lone_inv_def)
  then have "t \<in> woken s' \<and> blocked s' = {}" if "wait_step s Notify s'" for s'
    using that by (auto elim!: wait_step_NotifyE simp: wait_ops)
  moreover obtain r w where "wake_up (chan s) = (r, w, True)" using inv by (simp add: wait_ops)
  with assms(2) have "\<exists>s'. wait_step s Notify s'" by (blast intro: wait_step.notify_signal)
  ultimately show ?thesis using inv by simp
qed

theorem lone_sleeper_not_stuck_witness:
  "\<exists>s. lone_trace wait_start [Sleep 1] s \<and> 1 \<in> blocked s \<and> sw_notified (chan s) = 0 \<and>
    (\<forall>s'. wait_step s Notify s' \<longrightarrow> 1 \<in> woken s' \<and> blocked s' = {})"
proof -
  let ?s = "wait_start\<lparr>chan := wait_init\<lparr>sw_sleep := 1\<rparr>, blocked := {1}\<rparr>"
  have "sleep_on (chan wait_start) = Blocks (wait_init\<lparr>sw_sleep := 1\<rparr>)"
    by (simp add: wait_ops wait_start_def alloc_wait_struct_def wait_init_def)
  then have "wait_step wait_start (Sleep 1) (wait_start\<lparr>chan := wait_init\<lparr>sw_sleep := 1\<rparr>, blocked := insert 1 (blocked wait_start)\<rparr>)"
    by (rule wait_step.sleep_blocks) (simp add: wait_start_def)
  then have "lone_trace wait_start ([] @ [Sleep 1]) ?s"
    by (intro lone_snoc [OF lone_nil]) (simp_all add: lone_sleeper_def wait_start_def)
  with lone_sleeper_not_stuck [of "[Sleep 1]" ?s 1] show ?thesis
    by (intro exI [of _ ?s]) simp
qed

text \<open>A state in which thread 2 sleeps although the structure records that nobody does.\<close>

definition forgotten :: "wait_sys \<Rightarrow> bool" where
  "forgotten s \<longleftrightarrow> 2 \<in> blocked s \<and> sw_sleep (chan s) = 0"

lemma forgotten_step: "forgotten s \<Longrightarrow> wait_step s e s' \<Longrightarrow> e \<in> {Notify, Kill} \<Longrightarrow> forgotten s'"
  by (auto simp: forgotten_def wait_ops elim!: wait_step_NotifyE wait_step_KillE split: if_splits)

lemma forgotten_trace:
  "wait_trace s es s' \<Longrightarrow> forgotten s \<Longrightarrow> set es \<subseteq> {Notify, Kill} \<Longrightarrow> forgotten s'"
  by (induction rule: wait_trace.induct) (auto intro: forgotten_step)

text \<open>The run: threads 1 and 2 go to sleep, one notification releases thread 1, which clears
  the single \<^verbatim>\<open>sleep\<close> flag on its way out.\<close>

definition after_first :: wait_sys where
  "after_first = \<lparr>chan = wait_init, blocked = {2}, woken = {}\<rparr>"

lemma after_first_reached:
  "wait_trace wait_start [Sleep 1, Sleep 2, Notify, Woken 1] after_first"
proof -
  let ?w = "wait_init\<lparr>sw_sleep := 1\<rparr>"
  let ?s1 = "\<lparr>chan = ?w, blocked = {1}, woken = {}\<rparr>"
  let ?s2 = "\<lparr>chan = ?w, blocked = {1, 2}, woken = {}\<rparr>"
  let ?s3 = "\<lparr>chan = ?w\<lparr>sw_notified := 1\<rparr>, blocked = {2}, woken = {1}\<rparr>"
  have e1: "wait_step wait_start (Sleep 1) ?s1"
    using wait_step.sleep_blocks [of wait_start ?w 1]
    by (simp add: wait_ops wait_start_def alloc_wait_struct_def wait_init_def)
  have e2: "wait_step ?s1 (Sleep 2) ?s2"
    using wait_step.sleep_blocks [of ?s1 ?w 2] by (simp add: wait_ops wait_init_def insert_commute)
  have e3: "wait_step ?s2 Notify ?s3"
    using wait_step.notify_signal [of ?s2 0 "?w\<lparr>sw_notified := 1\<rparr>" 1]
    by (simp add: wait_ops wait_init_def)
  have e4: "wait_step ?s3 (Woken 1) after_first"
    using wait_step.resume [of ?s3 0 wait_init 1]
    by (simp add: wait_ops wait_init_def after_first_def)
  show ?thesis using e1 e2 e3 e4 by (blast intro: wait_trace.intros)
qed

text \<open>
  C35: The single \<^verbatim>\<open>sleep\<close> flag is not enough for two sleepers. There is a run after
  which thread 2 is still blocked and stays blocked whatever sequence of \<^verbatim>\<open>wake_up\<close>
  and \<^verbatim>\<open>wait_exit\<close> follows: neither signals it any more.
\<close>

theorem two_sleepers_lost_wakeup:
  "wait_trace wait_start [Sleep 1, Sleep 2, Notify, Woken 1] after_first \<and>
   (\<forall>es s'. wait_trace after_first es s' \<and> set es \<subseteq> {Notify, Kill} \<longrightarrow> 2 \<in> blocked s')"
  using after_first_reached forgotten_trace [of after_first]
  by (auto simp: forgotten_def after_first_def wait_init_def)

theorem two_sleepers_lost_wakeup_witness:
  "\<exists>s. wait_trace after_first [Notify, Kill] s \<and> 2 \<in> blocked s"
proof -
  let ?w = "wait_init\<lparr>sw_notified := 1\<rparr>"
  have "wait_step after_first Notify (after_first\<lparr>chan := ?w\<rparr>)"
    by (rule wait_step.notify_nobody [where sig = False and r = 0])
      (simp_all add: wait_ops after_first_def wait_init_def)
  moreover have "wait_step (after_first\<lparr>chan := ?w\<rparr>) Kill (after_first\<lparr>chan := ?w\<lparr>sw_dead := 1\<rparr>\<rparr>)"
    using wait_step.kill [of "after_first\<lparr>chan := ?w\<rparr>" "?w\<lparr>sw_dead := 1\<rparr>" False]
    by (simp add: wait_ops after_first_def wait_init_def)
  ultimately have "wait_trace after_first [Notify, Kill] (after_first\<lparr>chan := ?w\<lparr>sw_dead := 1\<rparr>\<rparr>)"
    by (blast intro: wait_trace.intros)
  with two_sleepers_lost_wakeup show ?thesis by fastforce
qed

end
