(* ===== verification/Checksum.thy ===== *)
theory Checksum
  imports Prelude
begin

text \<open>
  The Internet checksum of \<^verbatim>\<open>include/checksum.h\<close>, compared with the one's complement
  sum it is meant to compute. Words are read from the byte block in host order.
\<close>

section \<open>The routine\<close>

text \<open>The accumulation loop from index \<open>i\<close> to \<open>n\<close>; \<^verbatim>\<open>sum\<close> is a \<open>u32\<close> and wraps.\<close>

function checksum_loop :: "u8 list \<Rightarrow> nat \<Rightarrow> nat \<Rightarrow> u32 \<Rightarrow> u32 res" where
  "checksum_loop buf i n sm =
     (if i < n
      then rbind (rd16 buf (2 * i)) (\<lambda>w. checksum_loop buf (Suc i) n (sm + ucast w))
      else Inr sm)"
  by pat_completeness auto
termination
  by (relation "measure (\<lambda>(buf, i, n, sm). n - i)") auto

definition checksum :: "u8 list \<Rightarrow> nat \<Rightarrow> u32 \<Rightarrow> u16 res" where
  "checksum buf nbytes sm =
     rbind (checksum_loop buf 0 (nbytes div 2) sm) (\<lambda>sm.
     let sm = drop_bit 16 sm + (sm AND 0xffff);
         sm = sm + drop_bit 16 sm
     in if nbytes mod 2 \<noteq> 0
        then rbind (rd8 buf (nbytes - 1)) (\<lambda>b. Inr (ucast (NOT (sm + ucast b))))
        else Inr (ucast (NOT sm)))"

declare checksum_loop.simps [simp del]

section \<open>The reference: one's complement sums\<close>

text \<open>The 16-bit words of a block, a trailing byte padded with a zero byte.\<close>

fun words16 :: "u8 list \<Rightarrow> u16 list" where
  "words16 (a # b # bs) = le16 a b # words16 bs"
| "words16 [a] = [ucast a]"
| "words16 [] = []"

text \<open>One's complement value of a sum of words: the representative in \<open>1..65535\<close>, or 0.\<close>

definition ones_sum :: "nat \<Rightarrow> nat" where
  "ones_sum s = (if s = 0 then 0 else Suc ((s - 1) mod 65535))"

definition word_total :: "u8 list \<Rightarrow> nat" where
  "word_total bs = sum_list (map unat (words16 bs))"

definition internet_checksum :: "nat \<Rightarrow> u8 list \<Rightarrow> nat" where
  "internet_checksum init bs = 65535 - ones_sum (init + word_total bs)"

lemma ones_sum_le: "ones_sum s \<le> 65535"
  by (simp add: ones_sum_def Suc_le_eq)

lemma ones_sum_cong: "ones_sum s = ones_sum t \<Longrightarrow> s mod 65535 = t mod 65535"
proof -
  have *: "ones_sum r mod 65535 = r mod 65535" for r
  proof (cases "r = 0")
    case False
    then obtain q where "r = Suc q" by (cases r) auto
    then show ?thesis by (simp add: ones_sum_def mod_Suc_eq)
  qed (simp add: ones_sum_def)
  show "ones_sum s = ones_sum t \<Longrightarrow> s mod 65535 = t mod 65535" by (metis *)
qed

section \<open>Folding\<close>

lemma fold_step:
  fixes s :: u32
  shows "unat (drop_bit 16 s + (s AND 0xffff)) = unat s div 65536 + unat s mod 65536"
proof -
  have hi: "unat (drop_bit 16 s) = unat s div 65536"
    by (simp only: unat_drop_bit_eq) (simp add: drop_bit_eq_div)
  have "s AND 0xffff = take_bit 16 s"
    by (simp add: take_bit_eq_mask mask_eq_exp_minus_1)
  then have lo: "unat (s AND 0xffff) = unat s mod 65536"
    by (simp only: unsigned_take_bit_eq) (simp add: take_bit_eq_mod)
  have "unat s < 2 ^ 32" using unsigned_less [of s, where ?'a = nat] by simp
  then have "unat s div 65536 < 65536" by (simp add: less_mult_imp_div_less)
  then show ?thesis by (simp add: unat_word_ariths hi lo)
qed

lemma mod_pred:
  assumes "n mod k = m mod (k :: nat)" "n \<noteq> 0" "m \<noteq> 0"
  shows "(n - 1) mod k = (m - 1) mod k"
proof -
  have "(int n - 1) mod int k = (int m - 1) mod int k"
    using assms(1) by (metis mod_diff_left_eq of_nat_mod)
  moreover have "int n - 1 = int (n - 1)" "int m - 1 = int (m - 1)" using assms(2,3) by auto
  ultimately show ?thesis by (simp only: of_nat_mod [symmetric] of_nat_eq_iff)
qed

lemma fold_small:
  assumes "m \<noteq> 0" "m \<le> (131070 :: nat)"
  shows "(m + m div 65536) mod 65536 = Suc ((m - 1) mod 65535)"
proof (cases "m < 65536")
  case True
  then show ?thesis using assms(1) by simp
next
  case False
  then have "m div 65536 = 1" using assms(2) by (intro div_nat_eqI) auto
  moreover have "(m + 1) mod 65536 = m + 1 - 65536" using False assms(2) by (simp add: mod_if)
  moreover have "(m - 1) mod 65535 = m - 1 - 65535" using False assms(2) by (simp add: mod_if)
  ultimately show ?thesis using False by simp
qed

lemma fold_value:
  fixes s :: u32
  defines "s1 \<equiv> drop_bit 16 s + (s AND 0xffff)"
  defines "s2 \<equiv> s1 + drop_bit 16 s1"
  shows "unat s2 mod 65536 = ones_sum (unat s)" and "unat s2 \<le> 131072"
proof -
  let ?n = "unat s" and ?m = "unat s div 65536 + unat s mod 65536"
  have m: "unat s1 = ?m" unfolding s1_def by (rule fold_step)
  have "?n < 65536 * 65536" using unsigned_less [of s, where ?'a = nat] by simp
  then have "?n div 65536 \<le> 65535" by (simp add: less_mult_imp_div_less less_Suc_eq_le)
  then have mle: "?m \<le> 131070" by simp
  have "unat (drop_bit 16 s1) = ?m div 65536"
    by (simp only: unat_drop_bit_eq) (simp add: drop_bit_eq_div m)
  then have s2: "unat s2 = ?m + ?m div 65536"
  proof -
    have "?m + ?m div 65536 < 4294967296"
      using mle div_le_dividend [of ?m 65536] by linarith
    with m \<open>unat (drop_bit 16 s1) = ?m div 65536\<close> show ?thesis
      unfolding s2_def by (simp only: unat_word_ariths) simp
  qed
  then show "unat s2 \<le> 131072" using mle div_le_mono [OF mle, of 65536] by simp
  have "?n = 65535 * (?n div 65536) + ?m" by simp
  then have nm: "?n mod 65535 = ?m mod 65535" using mod_mult_self4 [of 65535 "?n div 65536" ?m] by presburger
  show "unat s2 mod 65536 = ones_sum ?n"
  proof (cases "?m = 0")
    case True
    then have "?n = 0" using div_mult_mod_eq [of ?n 65536] by simp
    then show ?thesis using s2 by (simp add: ones_sum_def)
  next
    case False
    then have n0: "?n \<noteq> 0" by auto
    have "(?n - 1) mod 65535 = (?m - 1) mod 65535"
      using nm n0 False by (rule mod_pred)
    moreover have "unat s2 mod 65536 = Suc ((?m - 1) mod 65535)"
      unfolding s2 using False mle by (rule fold_small)
    ultimately show ?thesis using n0 by (simp add: ones_sum_def)
  qed
qed

lemma unat_not_u16:
  fixes s :: u32
  shows "unat (ucast (NOT s) :: u16) = 65535 - unat s mod 65536"
proof -
  have "ucast (NOT s) = NOT (ucast s :: u16)"
    by (rule bit_word_eqI) (simp add: bit_simps)
  moreover have "unat (NOT w) = 65535 - unat w" for w :: u16
  proof -
    have "NOT w = - 1 - w" by (simp add: not_eq_complement)
    also have "(- 1 :: u16) = 65535" by simp
    finally have "NOT w = 65535 - w" .
    moreover have "w \<le> 65535"
      using unsigned_less [of w, where ?'a = nat] by (simp add: word_le_nat_alt)
    ultimately show ?thesis by (simp add: unat_sub)
  qed
  moreover have "unat (ucast s :: u16) = unat s mod 65536"
    by (simp only: unsigned_ucast_eq) (simp add: take_bit_eq_mod)
  ultimately show ?thesis by simp
qed

section \<open>The loop\<close>

lemma words16_even_index:
  "i < length bs div 2 \<Longrightarrow> words16 bs ! i = le16 (bs ! (2 * i)) (bs ! (2 * i + 1))"
proof (induction bs arbitrary: i rule: words16.induct)
  case (1 a b bs)
  then show ?case by (cases i) auto
qed auto

lemma length_words16: "length (words16 bs) = (length bs + 1) div 2"
  by (induction bs rule: words16.induct) auto

lemma checksum_loop_sum:
  assumes "n \<le> length buf div 2" "i \<le> n"
  shows "checksum_loop buf i n sm =
    Inr (sm + (\<Sum>w \<leftarrow> take (n - i) (drop i (words16 buf)). ucast w))"
  using assms
proof (induction buf i n sm rule: checksum_loop.induct)
  case (1 buf i n sm)
  show ?case
  proof (cases "i < n")
    case True
    with "1.prems" have i: "i < length buf div 2" "2 * i + 1 < length buf" "i < length (words16 buf)"
      by (auto simp: length_words16)
    then have rd: "rd16 buf (2 * i) = Inr (words16 buf ! i)"
      by (simp add: rd16_def words16_even_index)
    have "take (n - i) (drop i (words16 buf)) =
        words16 buf ! i # take (n - Suc i) (drop (Suc i) (words16 buf))"
      using True i(3) by (simp add: Cons_nth_drop_Suc [symmetric] Suc_diff_Suc [symmetric] del: Cons_nth_drop_Suc)
    moreover have "checksum_loop buf (Suc i) n (sm + ucast (words16 buf ! i)) =
        Inr (sm + ucast (words16 buf ! i) + (\<Sum>w \<leftarrow> take (n - Suc i) (drop (Suc i) (words16 buf)). ucast w))"
      using "1.IH" [OF True] "1.prems" True by simp
    ultimately show ?thesis using True rd by (simp add: checksum_loop.simps [of buf i] add.assoc)
  next
    case False
    with "1.prems" show ?thesis by (subst checksum_loop.simps) simp
  qed
qed

lemma checksum_loop_short:
  "length buf div 2 < n \<Longrightarrow> i \<le> length buf div 2 \<Longrightarrow> checksum_loop buf i n sm = Inl Out_Of_Bounds"
proof (induction buf i n sm rule: checksum_loop.induct)
  case (1 buf i n sm)
  then show ?case
    by (cases "2 * i + 1 < length buf") (auto simp: checksum_loop.simps [of buf i] rd16_def)
qed

lemma unat_ucast_u32: "unat (ucast (w :: u16) :: u32) = unat w"
  using unsigned_less [of w, where ?'a = nat] by (simp add: unsigned_ucast_eq take_bit_eq_mod)

lemma unat_sum_list:
  "unat sm + sum_list (map unat ws) < 2 ^ 32 \<Longrightarrow>
   unat (sm + (\<Sum>w \<leftarrow> ws. ucast (w :: u16)) :: u32) = unat sm + sum_list (map unat ws)"
proof (induction ws arbitrary: sm)
  case (Cons w ws)
  then have "unat (sm + ucast w) = unat sm + unat w"
    by (simp add: unat_word_ariths unat_ucast_u32)
  then show ?case using Cons.IH [of "sm + ucast w"] Cons.prems by (simp add: add.assoc)
qed simp

section \<open>Properties\<close>

lemma word_total_take_even:
  assumes "even n" "n \<le> length bs"
  shows "word_total (take n bs) = sum_list (map unat (take (n div 2) (words16 bs)))"
proof -
  have "words16 (take n bs) = take (n div 2) (words16 bs)"
    using assms
  proof (induction bs arbitrary: n rule: words16.induct)
    case (1 a b bs)
    show ?case
    proof (cases n)
      case (Suc m)
      with 1(2) obtain k where "n = Suc (Suc k)" by (cases m) auto
      with 1 show ?thesis by simp
    qed simp
  next
    case (2 a)
    then show ?case by (cases n) auto
  qed simp
  then show ?thesis by (simp add: word_total_def)
qed

lemma word_total_take_le:
  assumes "even n"
  shows "word_total (take n bs) \<le> word_total bs"
  using assms
proof (induction bs arbitrary: n rule: words16.induct)
  case (1 a b bs)
  show ?case
  proof (cases n)
    case (Suc m)
    with 1(2) obtain k where "n = Suc (Suc k)" by (cases m) auto
    with 1 show ?thesis by (simp add: word_total_def)
  qed (simp add: word_total_def)
next
  case (2 a)
  then show ?case by (cases n) (auto simp: word_total_def)
qed simp

lemma checksum_total: "n \<le> length buf \<Longrightarrow> \<exists>c. checksum buf n init = Inr c"
  using checksum_loop_sum [of "n div 2" buf 0 init]
  by (auto simp: checksum_def rd8_def Let_def div_le_mono)

lemma checksum_even:
  assumes "even n" "n \<le> length buf" "unat init + word_total (take n buf) < 2 ^ 32"
  shows "\<exists>c. checksum buf n init = Inr c \<and> unat c = internet_checksum (unat init) (take n buf)"
proof -
  let ?s = "init + (\<Sum>w \<leftarrow> take (n div 2) (words16 buf). ucast w)"
  have "checksum_loop buf 0 (n div 2) init = Inr ?s"
    using assms(2) checksum_loop_sum [of "n div 2" buf 0 init] by (simp add: div_le_mono)
  moreover have "unat ?s = unat init + word_total (take n buf)"
    using unat_sum_list [of init "take (n div 2) (words16 buf)"] assms
    by (simp add: word_total_take_even)
  ultimately show ?thesis
    using assms(1) fold_value(1) [of ?s]
    by (auto simp: checksum_def Let_def unat_not_u16 internet_checksum_def)
qed

lemma unat_add_byte:
  fixes s :: u32 and b :: u8
  assumes "unat s \<le> 131072"
  shows "unat (s + ucast b) mod 65536 = (unat s mod 65536 + unat b) mod 65536"
proof -
  have "unat (ucast b :: u32) = unat b" "unat b < 256"
    using unsigned_less [of b, where ?'a = nat] by (simp_all add: unsigned_ucast_eq take_bit_eq_mod)
  then have "unat (s + ucast b) = unat s + unat b" using assms by (simp add: unat_word_ariths)
  then show ?thesis by (simp add: mod_add_left_eq)
qed

text \<open>
  The result in general: the words are summed and folded, and the byte that is left over in a
  block of odd length is added to the folded sum, modulo 65536.
\<close>

lemma checksum_value:
  assumes "n \<le> length buf" "unat init + word_total (take (n - n mod 2) buf) < 2 ^ 32"
  shows "\<exists>c. checksum buf n init = Inr c \<and>
    unat c = 65535 - (ones_sum (unat init + word_total (take (n - n mod 2) buf)) + (if even n then 0 else unat (buf ! (n - 1)))) mod 65536"
proof -
  let ?s = "init + (\<Sum>w \<leftarrow> take (n div 2) (words16 buf). ucast w)" and ?m = "n - n mod 2"
  let ?s1 = "drop_bit 16 ?s + (?s AND 0xffff)"
  let ?s2 = "?s1 + drop_bit 16 ?s1"
  have m: "even ?m" "?m \<le> length buf" "?m div 2 = n div 2" using assms(1) by (simp_all add: minus_mod_eq_mult_div)
  have loop: "checksum_loop buf 0 (n div 2) init = Inr ?s"
    using assms(1) checksum_loop_sum [of "n div 2" buf 0 init] by (simp add: div_le_mono)
  have "unat ?s = unat init + word_total (take ?m buf)"
    using unat_sum_list [of init "take (n div 2) (words16 buf)"] assms(2) word_total_take_even [OF m(1,2)] m(3) by simp
  then have fold: "unat ?s2 mod 65536 = ones_sum (unat init + word_total (take ?m buf))" "unat ?s2 \<le> 131072"
    using fold_value [of ?s] by simp_all
  show ?thesis
  proof (cases "even n")
    case True
    have "ones_sum (unat init + word_total (take ?m buf)) mod 65536 = ones_sum (unat init + word_total (take ?m buf))"
      using ones_sum_le [of "unat init + word_total (take ?m buf)"] by simp
    with loop True fold(1) show ?thesis by (simp add: checksum_def Let_def unat_not_u16)
  next
    case False
    then have "n - 1 < length buf" using assms(1) by (cases n) auto
    let ?b = "buf ! (n - 1)"
    have "unat (?s2 + ucast ?b) mod 65536 = (ones_sum (unat init + word_total (take ?m buf)) + unat ?b) mod 65536"
      using unat_add_byte [OF fold(2)] unfolding fold(1) .
    moreover have "checksum buf n init = Inr (ucast (NOT (?s2 + ucast ?b)))"
      using loop False \<open>n - 1 < length buf\<close> by (simp add: checksum_def Let_def rd8_def odd_iff_mod_2_eq_one)
    ultimately show ?thesis using False unat_not_u16 [of "?s2 + ucast ?b"]
      by (intro exI [of _ "ucast (NOT (?s2 + ucast ?b))"]) (simp only: if_False simp_thms)
  qed
qed

text \<open>
  C13: On a block of even length whose word sum fits 32 bits, the routine computes the
  Internet checksum: the complement of the one's complement sum of the initial value and the
  16-bit words of the block.
\<close>

theorem checksum_is_internet_checksum:
  assumes "even n" and "n \<le> length buf" and "unat init + word_total (take n buf) < 2 ^ 32"
  shows "\<exists>c. checksum buf n init = Inr c \<and> unat c = internet_checksum (unat init) (take n buf)"
  using assms by (rule checksum_even)

theorem checksum_is_internet_checksum_witness:
  "\<exists>c. checksum [0x00, 0x01, 0xf2, 0x03] 4 0 = Inr c \<and>
    unat c = internet_checksum 0 [0x00, 0x01, 0xf2, 0x03]"
  using checksum_is_internet_checksum [of 4 "[0x00, 0x01, 0xf2, 0x03]" 0]
  by (simp add: word_total_def le16_def)

text \<open>
  On a block of odd length the routine adds the last byte after the carries have been
  folded, and the carry this addition may produce is lost: here it does not compute the
  Internet checksum.
\<close>

theorem checksum_odd_loses_carry:
  "checksum [0xff, 0xff, 0x01] 3 0 = Inr 0xffff \<and> internet_checksum 0 [0xff, 0xff, 0x01] = 0xfffe"
  by (simp add: checksum_def checksum_loop.simps rd16_def rd8_def le16_def internet_checksum_def
      word_total_def ones_sum_def)

lemma ones_sum_residue:
  assumes "(ones_sum s + b) mod 65536 = (ones_sum t + b) mod 65536"
  shows "ones_sum s = ones_sum t"
proof -
  have "ones_sum s mod 65536 = ones_sum t mod 65536" using assms by (simp add: nat_mod_eq_iff)
  then show ?thesis using ones_sum_le [of s] ones_sum_le [of t] by simp
qed

text \<open>
  C23: The checksum detects a corruption of a single aligned 16-bit word, in a block of even or
  odd length whose word sum, with the initial value, fits 32 bits before and after the
  corruption. The only exception is the exchange of \<open>0x0000\<close> and \<open>0xffff\<close>, which are equal
  in one's complement.
\<close>

theorem checksum_detects_word_change:
  assumes "even (length us)"
    and "unat init + word_total (us @ a # b # vs) < 2 ^ 32"
    and "unat init + word_total (us @ a' # b' # vs) < 2 ^ 32"
    and same: "checksum (us @ a # b # vs) (length (us @ a # b # vs)) init =
      checksum (us @ a' # b' # vs) (length (us @ a # b # vs)) init"
  shows "le16 a b = le16 a' b' \<or> {le16 a b, le16 a' b'} = {0, 0xffff}"
proof -
  let ?n = "length (us @ a # b # vs)" and ?ws = "take (length vs - length vs mod 2) vs"
  define tail where "tail = (if even ?n then 0 else unat ((us @ a # b # vs) ! (?n - 1)))"
  let ?S = "\<lambda>x y. unat init + word_total us + unat (le16 x y) + word_total ?ws"
  have total: "word_total (us @ x # y # zs) = word_total us + unat (le16 x y) + word_total zs" for x y zs
    using assms(1)
    by (induction us rule: words16.induct) (auto simp: word_total_def)
  have n: "?n mod 2 = length vs mod 2" "?n - ?n mod 2 = length us + Suc (Suc (length vs - length vs mod 2))"
    using assms(1) by (simp_all add: mod_2_eq_odd)
  have take: "take (?n - ?n mod 2) (us @ x # y # vs) = us @ x # y # ?ws" for x y
    unfolding n(2) by (simp only: take_append take_all_iff add_diff_cancel_left' take_Suc_Cons) simp
  have le: "word_total ?ws \<le> word_total vs" by (rule word_total_take_le) simp
  have last: "(if even ?n then 0 else unat ((us @ x # y # vs) ! (?n - 1))) = tail" for x y
    unfolding tail_def using assms(1) by (cases vs rule: rev_cases) (simp_all add: nth_append)
  have res: "\<exists>c. checksum (us @ x # y # vs) ?n init = Inr c \<and> unat c = 65535 - (ones_sum (?S x y) + tail) mod 65536"
    if "unat init + word_total (us @ x # y # vs) < 2 ^ 32" for x y
    using checksum_value [of ?n "us @ x # y # vs" init] that le unfolding take last by (simp add: total add.assoc)
  have "(ones_sum (?S a b) + tail) mod 65536 = (ones_sum (?S a' b') + tail) mod 65536"
  proof -
    obtain c c' where c: "checksum (us @ a # b # vs) ?n init = Inr c" "unat c = 65535 - (ones_sum (?S a b) + tail) mod 65536"
      "checksum (us @ a' # b' # vs) ?n init = Inr c'" "unat c' = 65535 - (ones_sum (?S a' b') + tail) mod 65536"
      using res [OF assms(2)] res [OF assms(3)] by blast
    then have "c = c'" using same by (simp only: sum.inject)
    with c(2,4) have "65535 - (ones_sum (?S a b) + tail) mod 65536 = 65535 - (ones_sum (?S a' b') + tail) mod 65536"
      by (simp only:)
    moreover have "x = y" if "65535 - x = 65535 - y" "x < 65536" "y < 65536" for x y :: nat using that by linarith
    ultimately show ?thesis by (blast intro: mod_less_divisor zero_less_numeral)
  qed
  then have "ones_sum (?S a b) = ones_sum (?S a' b')" by (rule ones_sum_residue)
  then have "(unat (le16 a b) + (unat init + word_total us + word_total ?ws)) mod 65535 =
      (unat (le16 a' b') + (unat init + word_total us + word_total ?ws)) mod 65535"
    by (auto dest!: ones_sum_cong simp: ac_simps)
  then have "unat (le16 a b) mod 65535 = unat (le16 a' b') mod 65535"
    by (simp add: nat_mod_eq_iff)
  moreover have "unat (le16 a b) \<le> 65535" "unat (le16 a' b') \<le> 65535"
    using unsigned_less [of "le16 a b", where ?'a = nat] unsigned_less [of "le16 a' b'", where ?'a = nat]
    by auto
  ultimately have "unat (le16 a b) = unat (le16 a' b') \<or>
      unat (le16 a b) = 0 \<and> unat (le16 a' b') = 65535 \<or> unat (le16 a b) = 65535 \<and> unat (le16 a' b') = 0"
    by (metis le_antisym mod_less mod_self nat_less_le)
  moreover have "v = w" if "unat v = unat w" for v w :: u16
    using that by (rule unsigned_word_eqI)
  moreover have "unat (0xffff :: u16) = 65535" "unat (0 :: u16) = 0" by simp_all
  ultimately have "le16 a b = le16 a' b' \<or> le16 a b = 0 \<and> le16 a' b' = 0xffff \<or>
      le16 a b = 0xffff \<and> le16 a' b' = 0"
    by metis
  then show ?thesis by (elim disjE conjE) (simp_all only: insert_commute simp_thms)
qed

theorem checksum_detects_word_change_witness:
  "checksum [0, 0, 7, 8, 9] 5 1 = checksum [0xff, 0xff, 7, 8, 9] 5 1 \<and>
   (le16 0 0 = le16 0xff 0xff \<or> {le16 0 0, le16 0xff 0xff} = {0, 0xffff})"
proof -
  have "checksum [0, 0, 7, 8, 9] 5 1 = checksum [0xff, 0xff, 7, 8, 9] 5 1"
    by (simp add: checksum_def checksum_loop.simps rd16_def rd8_def le16_def)
  with checksum_detects_word_change [of "[]" 1 0 0 "[7, 8, 9]" "0xff" "0xff"] show ?thesis
    by (simp add: word_total_def le16_def)
qed

end
