(* ===== verification/Packets.thy ===== *)
theory Packets
  imports Prelude Checksum
begin

text \<open>
  The wire formats of \<^verbatim>\<open>include/ether.h\<close>, \<^verbatim>\<open>include/ip.h\<close>,
  \<^verbatim>\<open>include/tcp.h\<close>, \<^verbatim>\<open>include/icmp.h\<close> and
  \<^verbatim>\<open>include/arp.h\<close>, and the functions of \<^verbatim>\<open>tcp.c\<close> that read them.

  A packet is the block of its bytes. A header pointer is the offset of the header in the
  packet; a field access reads the bytes at that offset and is a fault past the end of the
  packet. The records hold the fields as the host reads them, so multi-byte fields are in
  network order until \<open>ntohs\<close> or \<open>ntohl\<close> is applied, as in the C structures.
\<close>

section \<open>Header structures\<close>

definition ETHER_HDR_SIZE :: nat where "ETHER_HDR_SIZE = 14"
definition IP_BASE_HDR_SIZE :: nat where "IP_BASE_HDR_SIZE = 20"
definition TCP_BASE_HDR_SIZE :: nat where "TCP_BASE_HDR_SIZE = 20"
definition TCP_HDR_OFFSET :: "4 word" where "TCP_HDR_OFFSET = 5"

definition TCP_FIN :: u8 where "TCP_FIN = 0x01"
definition TCP_SYN :: u8 where "TCP_SYN = 0x02"
definition TCP_RST :: u8 where "TCP_RST = 0x04"
definition TCP_PSH :: u8 where "TCP_PSH = 0x08"
definition TCP_ACK :: u8 where "TCP_ACK = 0x10"
definition TCP_URG :: u8 where "TCP_URG = 0x20"

lemmas flag_defs = TCP_FIN_def TCP_SYN_def TCP_RST_def TCP_PSH_def TCP_ACK_def TCP_URG_def

lemmas size_defs = ETHER_HDR_SIZE_def IP_BASE_HDR_SIZE_def TCP_BASE_HDR_SIZE_def

record ether_header =
  ether_dhost :: "u8 list"
  ether_shost :: "u8 list"
  ether_type :: u16

record iphdr =
  ip_ihl :: "4 word"
  ip_version :: "4 word"
  ip_tos :: u8
  ip_tot_len :: u16
  ip_id :: u16
  ip_frag_off :: u16
  ip_ttl :: u8
  ip_protocol :: u8
  ip_csum :: u16
  ip_saddr :: u32
  ip_daddr :: u32

record tcphdr =
  th_sport :: u16
  th_dport :: u16
  th_seq :: u32
  th_ack :: u32
  th_x2 :: "4 word"
  th_off :: "4 word"
  th_flags :: u8
  th_rwnd :: u16
  th_csum :: u16
  th_urp :: u16

record icmphdr =
  icmp_type :: u8
  icmp_code :: u8
  icmp_csum :: u16
  icmp_identifier :: u16
  icmp_sequence :: u16

record ether_arp =
  arp_hrd :: u16
  arp_pro :: u16
  arp_hln :: u8
  arp_pln :: u8
  arp_op :: u16
  arp_sha :: "u8 list"
  arp_spa :: u32
  arp_tha :: "u8 list"
  arp_tpa :: u32

section \<open>Layout in memory\<close>

text \<open>Two 4-bit fields share a byte, the first one in the low half.\<close>

definition nibbles :: "4 word \<Rightarrow> 4 word \<Rightarrow> u8" where
  "nibbles lo hi = ucast lo OR push_bit 4 (ucast hi)"

definition lo_nibble :: "u8 \<Rightarrow> 4 word" where "lo_nibble b = ucast b"
definition hi_nibble :: "u8 \<Rightarrow> 4 word" where "hi_nibble b = ucast (drop_bit 4 b)"

lemma nibble_simps [simp, byte_simps]:
  "lo_nibble (nibbles l h) = l" "hi_nibble (nibbles l h) = h" "nibbles (lo_nibble b) (hi_nibble b) = b"
proof -
  have [simp]: "4 \<le> n \<Longrightarrow> \<not> bit (x :: 4 word) n" for n x
    using bit_imp_le_length [of x n] by auto
  show "lo_nibble (nibbles l h) = l" "hi_nibble (nibbles l h) = h" "nibbles (lo_nibble b) (hi_nibble b) = b"
    by (rule bit_word_eqI; auto simp: lo_nibble_def hi_nibble_def nibbles_def bit_simps)+
qed

definition iphdr_bytes :: "iphdr \<Rightarrow> u8 list" where
  "iphdr_bytes h = nibbles (ip_ihl h) (ip_version h) # ip_tos h # bytes16 (ip_tot_len h) @
     bytes16 (ip_id h) @ bytes16 (ip_frag_off h) @ [ip_ttl h, ip_protocol h] @
     bytes16 (ip_csum h) @ bytes32 (ip_saddr h) @ bytes32 (ip_daddr h)"

definition tcphdr_bytes :: "tcphdr \<Rightarrow> u8 list" where
  "tcphdr_bytes h = bytes16 (th_sport h) @ bytes16 (th_dport h) @ bytes32 (th_seq h) @
     bytes32 (th_ack h) @ [nibbles (th_x2 h) (th_off h), th_flags h] @ bytes16 (th_rwnd h) @
     bytes16 (th_csum h) @ bytes16 (th_urp h)"

definition icmphdr_bytes :: "icmphdr \<Rightarrow> u8 list" where
  "icmphdr_bytes h = [icmp_type h, icmp_code h] @ bytes16 (icmp_csum h) @
     bytes16 (icmp_identifier h) @ bytes16 (icmp_sequence h)"

definition packet_to_ip_hdr :: nat where
  "packet_to_ip_hdr = ETHER_HDR_SIZE"

definition packet_to_ether_arp :: nat where
  "packet_to_ether_arp = ETHER_HDR_SIZE"

definition IP_HDR_SIZE :: "u8 list \<Rightarrow> nat \<Rightarrow> nat res" where
  "IP_HDR_SIZE p ip = rbind (rd8 p ip) (\<lambda>b. Inr (unat (lo_nibble b) * 4))"

definition IP_DATA :: "u8 list \<Rightarrow> nat \<Rightarrow> nat res" where
  "IP_DATA p ip = rbind (IP_HDR_SIZE p ip) (\<lambda>n. Inr (ip + n))"

definition TCP_HDR_SIZE :: "u8 list \<Rightarrow> nat \<Rightarrow> nat res" where
  "TCP_HDR_SIZE p tcp = rbind (rd8 p (tcp + 12)) (\<lambda>b. Inr (unat (hi_nibble b) * 4))"

text \<open>\<open>r\<close> is what \<^verbatim>\<open>rand\<close> returns.\<close>

definition tcp_new_iss :: "int \<Rightarrow> u32" where
  "tcp_new_iss r = word_of_int r"

definition packet_to_tcp_hdr :: "u8 list \<Rightarrow> nat res" where
  "packet_to_tcp_hdr p = IP_DATA p packet_to_ip_hdr"

section \<open>Checksums over packets\<close>

definition ip_checksum :: "u8 list \<Rightarrow> nat \<Rightarrow> u16 res" where
  "ip_checksum p hdr =
     rbind (rd16 p (hdr + 10)) (\<lambda>tmp.
     rbind (wr16 p (hdr + 10) 0) (\<lambda>p.
     rbind (IP_HDR_SIZE p hdr) (\<lambda>n. checksum (drop hdr p) n 0)))"

definition tcp_checksum :: "u8 list \<Rightarrow> nat \<Rightarrow> nat \<Rightarrow> u16 res" where
  "tcp_checksum p ip tcp =
     rbind (rd16 p (tcp + 16)) (\<lambda>tmp.
     rbind (wr16 p (tcp + 16) 0) (\<lambda>p.
     rbind (rd8 p (ip + 9)) (\<lambda>proto.
     rbind (rd16 p (ip + 2)) (\<lambda>tot_len.
     rbind (IP_HDR_SIZE p ip) (\<lambda>n.
     rbind (rd32 p (ip + 12)) (\<lambda>saddr.
     rbind (rd32 p (ip + 16)) (\<lambda>daddr.
     let reserv_proto = ucast proto :: u16;
         tcp_len = word_of_int (int (unat (ntohs tot_len)) - int n) :: u16;
         sm = saddr + daddr + ucast (htons reserv_proto) + ucast (htons tcp_len)
     in checksum (drop tcp p) (unat tcp_len) sm)))))))"

definition icmp_checksum :: "u8 list \<Rightarrow> nat \<Rightarrow> nat \<Rightarrow> u16 res" where
  "icmp_checksum p icmp len =
     rbind (rd16 p (icmp + 2)) (\<lambda>tmp.
     rbind (wr16 p (icmp + 2) 0) (\<lambda>p. checksum (drop icmp p) len 0))"

section \<open>The control block\<close>

text \<open>
  \<^verbatim>\<open>struct tcp_cb\<close>; the payload pointer is the offset of the payload in the packet.
  The members \<^verbatim>\<open>ip\<close> and \<^verbatim>\<open>tcp\<close> are neither set nor read anywhere.
\<close>

record tcp_cb =
  cb_saddr :: u32
  cb_daddr :: u32
  cb_sport :: u16
  cb_dport :: u16
  cb_seq :: u32
  cb_seq_end :: u32
  cb_ack :: u32
  cb_rwnd :: u32
  cb_flags :: u8
  cb_payload :: nat
  cb_pl_len :: int

definition tcp_cb_init :: "u8 list \<Rightarrow> nat \<Rightarrow> nat \<Rightarrow> tcp_cb res" where
  "tcp_cb_init p ip tcp =
     rbind (rd16 p (ip + 2)) (\<lambda>tot_len.
     rbind (IP_HDR_SIZE p ip) (\<lambda>ihs.
     rbind (TCP_HDR_SIZE p tcp) (\<lambda>ths.
     rbind (rd32 p (ip + 12)) (\<lambda>saddr.
     rbind (rd32 p (ip + 16)) (\<lambda>daddr.
     rbind (rd16 p tcp) (\<lambda>sport.
     rbind (rd16 p (tcp + 2)) (\<lambda>dport.
     rbind (rd32 p (tcp + 4)) (\<lambda>sq.
     rbind (rd8 p (tcp + 13)) (\<lambda>flags.
     rbind (rd32 p (tcp + 8)) (\<lambda>ack.
     rbind (rd16 p (tcp + 14)) (\<lambda>rwnd.
     let len = int (unat (ntohs tot_len)) - int ihs - int ths in
     Inr \<lparr>cb_saddr = ntohl saddr, cb_daddr = ntohl daddr,
       cb_sport = ntohs sport, cb_dport = ntohs dport, cb_seq = ntohl sq,
       cb_seq_end = ntohl sq + word_of_int len +
         (if flags AND (TCP_SYN OR TCP_FIN) \<noteq> 0 then 1 else 0),
       cb_ack = ntohl ack, cb_rwnd = ucast (ntohs rwnd), cb_flags = flags,
       cb_payload = tcp + ths, cb_pl_len = len\<rparr>)))))))))))"

section \<open>Flag names\<close>

text \<open>
  The output buffer is a list of 32 characters; \<^verbatim>\<open>strcpy\<close> copies the string and its
  terminating zero.
\<close>

definition c_nul :: char where "c_nul = CHR 0x00"

definition copy_flag_str :: "u8 \<Rightarrow> u8 \<Rightarrow> char list \<Rightarrow> nat \<Rightarrow> string \<Rightarrow> nat \<Rightarrow> (nat \<times> char list) res" where
  "copy_flag_str flags flag buf start str len =
     (if flags AND flag \<noteq> 0
      then rbind (wr_bytes buf (int start) (str @ [c_nul])) (\<lambda>buf. Inr (len, buf))
      else Inr (0, buf))"

definition tcp_copy_flags_to_str :: "u8 \<Rightarrow> char list res" where
  "tcp_copy_flags_to_str flags =
     (let buf = replicate 32 c_nul; len = 0 in
      rbind (copy_flag_str flags TCP_FIN buf len ''FIN|'' 4) (\<lambda>(n, buf). let len = len + n in
      rbind (copy_flag_str flags TCP_SYN buf len ''SYN|'' 4) (\<lambda>(n, buf). let len = len + n in
      rbind (copy_flag_str flags TCP_RST buf len ''RST|'' 4) (\<lambda>(n, buf). let len = len + n in
      rbind (copy_flag_str flags TCP_PSH buf len ''PSH|'' 4) (\<lambda>(n, buf). let len = len + n in
      rbind (copy_flag_str flags TCP_ACK buf len ''ACK|'' 4) (\<lambda>(n, buf). let len = len + n in
      rbind (copy_flag_str flags TCP_URG buf len ''URG|'' 4) (\<lambda>(n, buf). let len = len + n in
      if len \<noteq> 0 then Inr (buf[len - 1 := c_nul]) else Inr buf)))))))"

section \<open>Layout lemmas\<close>

text \<open>\<^verbatim>\<open>rand\<close> covers only the lower half of the sequence numbers.\<close>

lemma tcp_new_iss_bound:
  assumes "0 \<le> r" "r \<le> 2 ^ 31 - 1"
  shows "int (unat (tcp_new_iss r)) = r \<and> unat (tcp_new_iss r) < 2 ^ 31"
proof -
  have "int (unat (tcp_new_iss r)) = r"
    using assms by (simp add: tcp_new_iss_def unsigned_of_int take_bit_int_eq_self)
  moreover from this assms(2) have "int (unat (tcp_new_iss r)) < int (2 ^ 31)" by simp
  ultimately show ?thesis using of_nat_less_imp_less by blast
qed

lemmas layout_defs = bytes16_def bytes32_def rd8_def rd16_def rd32_def

lemma layout_lengths [simp]:
  "length (iphdr_bytes h) = 20" "length (tcphdr_bytes t) = 20" "length (icmphdr_bytes c) = 8"
  by (simp_all add: iphdr_bytes_def tcphdr_bytes_def icmphdr_bytes_def)

text \<open>Field accesses at the header itself.\<close>

lemma iphdr_fields [simp]:
  "rd8 (iphdr_bytes h @ post) 0 = Inr (nibbles (ip_ihl h) (ip_version h))"
  "rd8 (iphdr_bytes h @ post) (Suc 0) = Inr (ip_tos h)"
  "rd16 (iphdr_bytes h @ post) 2 = Inr (ip_tot_len h)"
  "rd16 (iphdr_bytes h @ post) 4 = Inr (ip_id h)"
  "rd16 (iphdr_bytes h @ post) 6 = Inr (ip_frag_off h)"
  "rd8 (iphdr_bytes h @ post) 8 = Inr (ip_ttl h)"
  "rd8 (iphdr_bytes h @ post) 9 = Inr (ip_protocol h)"
  "rd16 (iphdr_bytes h @ post) 10 = Inr (ip_csum h)"
  "rd32 (iphdr_bytes h @ post) 12 = Inr (ip_saddr h)"
  "rd32 (iphdr_bytes h @ post) 16 = Inr (ip_daddr h)"
  by (simp_all add: iphdr_bytes_def layout_defs numeral_2_eq_2 [symmetric])

lemma tcphdr_fields [simp]:
  "rd16 (tcphdr_bytes h @ post) 0 = Inr (th_sport h)"
  "rd16 (tcphdr_bytes h @ post) 2 = Inr (th_dport h)"
  "rd32 (tcphdr_bytes h @ post) 4 = Inr (th_seq h)"
  "rd32 (tcphdr_bytes h @ post) 8 = Inr (th_ack h)"
  "rd8 (tcphdr_bytes h @ post) 12 = Inr (nibbles (th_x2 h) (th_off h))"
  "rd8 (tcphdr_bytes h @ post) 13 = Inr (th_flags h)"
  "rd16 (tcphdr_bytes h @ post) 14 = Inr (th_rwnd h)"
  "rd16 (tcphdr_bytes h @ post) 16 = Inr (th_csum h)"
  "rd16 (tcphdr_bytes h @ post) 18 = Inr (th_urp h)"
  by (simp_all add: tcphdr_bytes_def layout_defs)

lemma icmphdr_fields [simp]:
  "rd8 (icmphdr_bytes h @ post) 0 = Inr (icmp_type h)"
  "rd8 (icmphdr_bytes h @ post) (Suc 0) = Inr (icmp_code h)"
  "rd16 (icmphdr_bytes h @ post) 2 = Inr (icmp_csum h)"
  "rd16 (icmphdr_bytes h @ post) 4 = Inr (icmp_identifier h)"
  "rd16 (icmphdr_bytes h @ post) 6 = Inr (icmp_sequence h)"
  by (simp_all add: icmphdr_bytes_def layout_defs)

lemma rd_shift_0 [simp]:
  "rd8 (pre @ bs) (length pre) = rd8 bs 0"
  "rd16 (pre @ bs) (length pre) = rd16 bs 0"
  "rd32 (pre @ bs) (length pre) = rd32 bs 0"
  using rd_shift(1) [of pre bs 0] rd_shift(2) [of pre bs 0] rd_shift(3) [of pre bs 0] by simp_all

lemma rd_shift_Suc [simp]:
  "rd8 (pre @ bs) (Suc (length pre)) = rd8 bs (Suc 0)"
  "rd8 (pre @ bs) (Suc (Suc (length pre))) = rd8 bs 2"
  "rd16 (pre @ bs) (Suc (Suc (length pre))) = rd16 bs 2"
  using rd_shift(1) [of pre bs 1] rd_shift(1) [of pre bs 2] rd_shift(2) [of pre bs 2] by simp_all

lemma rd_short:
  "length p \<le> i \<Longrightarrow> rd8 p i = Inl Out_Of_Bounds"
  "length p \<le> i + 1 \<Longrightarrow> rd16 p i = Inl Out_Of_Bounds"
  "length p \<le> i + 3 \<Longrightarrow> rd32 p i = Inl Out_Of_Bounds"
  by (simp_all add: rd8_def rd16_def rd32_def)

section \<open>Properties\<close>

lemma wr16_wr16: "wr16 p i v = Inr p' \<Longrightarrow> wr16 p' i w = wr16 p i w"
  by (auto simp: wr16_def list_update_swap split: if_splits)

lemma wr16_rd16: "wr16 p i v = Inr p' \<Longrightarrow> rd16 p' i = Inr v"
  by (auto simp: wr16_def rd16_def split: if_splits)

lemma checksum_field_irrelevant:
  assumes "wr16 p i v = Inr p'"
  shows "rbind (rd16 p' i) (\<lambda>tmp. rbind (wr16 p' i 0) f) = rbind (rd16 p i) (\<lambda>tmp. rbind (wr16 p i 0) f)"
  using assms wr16_rd16 [OF assms] wr16_wr16 [OF assms, of 0]
  by (auto simp: rd16_def wr16_def split: if_splits)

text \<open>
  Sender and receiver agree on the TCP and the IP checksum: storing the computed value in
  the checksum field leaves the value the receiver recomputes unchanged, so the comparison in
  \<^verbatim>\<open>handle_tcp_packet\<close> succeeds on every packet that arrives as it was sent.
\<close>

theorem stored_checksum_verifies:
  assumes "tcp_checksum p ip tcp = Inr c" and "wr16 p (tcp + 16) c = Inr p'"
    and "ip_checksum q hdr = Inr d" and "wr16 q (hdr + 10) d = Inr q'"
  shows "tcp_checksum p' ip tcp = rd16 p' (tcp + 16) \<and> ip_checksum q' hdr = rd16 q' (hdr + 10)"
proof -
  have "tcp_checksum p' ip tcp = tcp_checksum p ip tcp"
    unfolding tcp_checksum_def by (rule checksum_field_irrelevant [OF assms(2)])
  moreover have "ip_checksum q' hdr = ip_checksum q hdr"
    unfolding ip_checksum_def by (rule checksum_field_irrelevant [OF assms(4)])
  ultimately show ?thesis using assms wr16_rd16 by fastforce
qed

text \<open>A small packet without payload, used in the examples below.\<close>

definition sample_ip :: "u32 \<Rightarrow> u32 \<Rightarrow> iphdr" where
  "sample_ip s d = \<lparr>ip_ihl = 5, ip_version = 4, ip_tos = 0, ip_tot_len = htons 40, ip_id = 0,
     ip_frag_off = 0, ip_ttl = 64, ip_protocol = 6, ip_csum = 0, ip_saddr = s, ip_daddr = d\<rparr>"

definition sample_tcp :: tcphdr where
  "sample_tcp = \<lparr>th_sport = htons 12345, th_dport = htons 10001, th_seq = 0, th_ack = 0, th_x2 = 0,
     th_off = 5, th_flags = TCP_SYN, th_rwnd = 0xffff, th_csum = 0, th_urp = 0\<rparr>"

definition sample_packet :: "u32 \<Rightarrow> u32 \<Rightarrow> u8 list" where
  "sample_packet s d = replicate 14 0 @ iphdr_bytes (sample_ip s d) @ tcphdr_bytes sample_tcp"

lemma wr16_tcphdr [simp]:
  "wr16 (tcphdr_bytes t @ post) 16 v = Inr (tcphdr_bytes (t\<lparr>th_csum := v\<rparr>) @ post)"
  by (simp add: tcphdr_bytes_def wr16_def bytes16_def bytes32_def list_update_append)

lemma wr16_iphdr [simp]:
  "wr16 (iphdr_bytes h @ post) 10 v = Inr (iphdr_bytes (h\<lparr>ip_csum := v\<rparr>) @ post)"
  by (simp add: iphdr_bytes_def wr16_def bytes16_def bytes32_def list_update_append)

lemma unat_word_of_nat16: "n < 65536 \<Longrightarrow> unat (word_of_nat n :: u16) = n"
  by (simp add: unsigned_of_nat take_bit_nat_eq_self)

text \<open>The checksum of a packet with a plain 20-byte IP header and a 20-byte TCP header.\<close>

lemma tcp_checksum_built:
  assumes "ip_ihl h = 5" and "ip_tot_len h = htons (word_of_nat (40 + length payload))"
    and "length payload \<le> 65495"
  shows "tcp_checksum (e @ iphdr_bytes h @ tcphdr_bytes t @ payload) (length e) (length e + 20) =
    checksum (tcphdr_bytes (t\<lparr>th_csum := 0\<rparr>) @ payload) (20 + length payload)
      (ip_saddr h + ip_daddr h + ucast (htons (ucast (ip_protocol h))) +
       ucast (htons (word_of_nat (20 + length payload))))"
proof -
  let ?t = "t\<lparr>th_csum := 0\<rparr>" and ?n = "20 + length payload"
  have app: "e @ iphdr_bytes h @ tcphdr_bytes t @ payload = (e @ iphdr_bytes h) @ tcphdr_bytes t @ payload"
    "length e + 20 + 16 = length (e @ iphdr_bytes h) + 16" for t
    by simp_all
  have rd: "rd16 (e @ iphdr_bytes h @ tcphdr_bytes t @ payload) (length e + 20 + 16) = Inr (th_csum t)"
    unfolding app by (simp only: rd_shift tcphdr_fields)
  have wr: "wr16 (e @ iphdr_bytes h @ tcphdr_bytes t @ payload) (length e + 20 + 16) 0 =
      Inr (e @ iphdr_bytes h @ tcphdr_bytes ?t @ payload)"
    using wr16_shift [of "e @ iphdr_bytes h" "tcphdr_bytes t @ payload" 16 0] by (simp add: add.assoc)
  have len: "word_of_int (int (unat (ntohs (ip_tot_len h))) - int (unat (5 :: 4 word) * 4)) =
      (word_of_nat ?n :: u16)"
    using assms(2,3) by (simp add: unat_word_of_nat16)
  have n: "unat (word_of_nat ?n :: u16) = ?n" using assms(3) by (intro unat_word_of_nat16) simp
  have drop: "drop (length e + 20) (e @ iphdr_bytes h @ tcphdr_bytes ?t @ payload) =
      tcphdr_bytes ?t @ payload"
    by simp
  show ?thesis
    unfolding tcp_checksum_def rd wr rbind_Inr IP_HDR_SIZE_def
    by (simp only: rd_shift rd_shift_0 iphdr_fields rbind_Inr nibble_simps assms(1) len Let_def n drop)
qed

lemma word_total_append: "even (length us) \<Longrightarrow> word_total (us @ vs) = word_total us + word_total vs"
  by (induction us rule: words16.induct) (auto simp: word_total_def)

lemma word_total_bytes16: "word_total (bytes16 x) = unat x"
  by (simp add: word_total_def bytes16_def)

lemma word_total_bytes32: "word_total (bytes32 x) = unat x mod 65536 + unat x div 65536"
proof -
  have "le16 (byte32 0 x) (byte32 1 x) = ucast x"
    by (rule bit_word_eqI) (auto simp: le16_def byte32_def bit_simps)
  moreover have "le16 (byte32 2 x) (byte32 3 x) = ucast (drop_bit 16 x)"
    by (rule bit_word_eqI) (auto simp: le16_def byte32_def bit_simps)
  moreover have "unat (ucast x :: u16) = unat x mod 65536"
    by (simp only: unsigned_ucast_eq) (simp add: take_bit_eq_mod)
  moreover have "unat (ucast (drop_bit 16 x) :: u16) = unat x div 65536"
  proof -
    have "unat x div 65536 < 65536"
      using unsigned_less [of x, where ?'a = nat] by (simp add: less_mult_imp_div_less)
    then show ?thesis
      by (simp only: unsigned_ucast_eq unat_drop_bit_eq) (simp add: take_bit_eq_mod drop_bit_eq_div)
  qed
  ultimately show ?thesis by (simp add: word_total_def bytes32_def)
qed

lemma word_total_bytes32_mod: "word_total (bytes32 x) mod 65535 = unat x mod 65535"
proof -
  obtain q w where "unat x = 65535 * q + w" and w: "w = word_total (bytes32 x)"
    by (rule that [of "unat x div 65536" "word_total (bytes32 x)"]) (simp_all add: word_total_bytes32)
  from this(1) have "unat x mod 65535 = w mod 65535" by simp
  then show ?thesis by (simp only: w)
qed

lemma ones_sum_eqI:
  "m mod 65535 = n mod 65535 \<Longrightarrow> m \<noteq> 0 \<Longrightarrow> n \<noteq> 0 \<Longrightarrow> ones_sum m = ones_sum n"
  using mod_pred [of m 65535 n] by (simp add: ones_sum_def)

text \<open>The pseudo header of RFC 793, in front of the segment with its checksum field cleared.\<close>

definition pseudo_header :: "iphdr \<Rightarrow> nat \<Rightarrow> u8 list" where
  "pseudo_header h n =
     bytes32 (ip_saddr h) @ bytes32 (ip_daddr h) @ [0, ip_protocol h] @ bytes16 (htons (word_of_nat n))"

lemma word_total_Cons2: "word_total (a # b # bs) = unat (le16 a b) + word_total bs"
  by (simp add: word_total_def)

lemma pseudo_header_sum:
  "word_total (pseudo_header h n) = word_total (bytes32 (ip_saddr h)) + (word_total (bytes32 (ip_daddr h)) +
     (unat (htons (ucast (ip_protocol h))) + unat (htons (word_of_nat n))))"
proof -
  have "le16 0 b = htons (ucast b)" for b
    by (rule bit_word_eqI) (auto simp: htons_def le16_def byte16_def bit_simps)
  then show ?thesis
    by (simp add: pseudo_header_def word_total_append word_total_bytes16 word_total_Cons2)
qed

lemma pseudo_header_total:
  "word_total (pseudo_header h n) mod 65535 =
     (unat (ip_saddr h) + unat (ip_daddr h) + unat (htons (ucast (ip_protocol h))) +
      unat (htons (word_of_nat n))) mod 65535"
  unfolding pseudo_header_sum add.assoc by (intro mod_add_cong word_total_bytes32_mod refl)

lemma unat_htons_pos: "0 < n \<Longrightarrow> n < 65536 \<Longrightarrow> unat (htons (word_of_nat n)) \<noteq> 0"
proof
  assume n: "0 < n" "n < 65536" and "unat (htons (word_of_nat n)) = 0"
  then have "(word_of_nat n :: u16) = 0" by (simp add: unsigned_eq_0_iff htons_0_iff)
  with unat_word_of_nat16 [OF n(2)] n(1) show False by simp
qed

text \<open>
  C12: For packets with a plain IP header of 20 bytes and a payload of even length, whose
  addresses, protocol, length and words add up to less than \<open>2 ^ 32\<close>,
  \<^verbatim>\<open>tcp_checksum\<close> is the checksum RFC 793 prescribes: the Internet checksum of the
  pseudo header, the TCP header with a zero checksum field and the payload. Without the last two
  conditions it need not be: see \<open>checksum_odd_loses_carry\<close> and \<open>tcp_checksum_drops_carry\<close>.
\<close>

theorem tcp_checksum_is_rfc793:
  assumes "ip_ihl h = 5" and "ip_tot_len h = htons (word_of_nat (40 + length payload))"
    and "length payload \<le> 65495" and "even (length payload)"
    and fits: "unat (ip_saddr h) + unat (ip_daddr h) + unat (htons (ucast (ip_protocol h))) +
      unat (htons (word_of_nat (20 + length payload))) +
      word_total (tcphdr_bytes (t\<lparr>th_csum := 0\<rparr>) @ payload) < 2 ^ 32"
  shows "\<exists>c. tcp_checksum (e @ iphdr_bytes h @ tcphdr_bytes t @ payload) (length e) (length e + 20) = Inr c \<and>
    unat c = internet_checksum 0
      (pseudo_header h (20 + length payload) @ tcphdr_bytes (t\<lparr>th_csum := 0\<rparr>) @ payload)"
proof -
  let ?n = "20 + length payload" and ?seg = "tcphdr_bytes (t\<lparr>th_csum := 0\<rparr>) @ payload"
  let ?p = "htons (ucast (ip_protocol h)) :: u16" and ?l = "htons (word_of_nat ?n) :: u16"
  let ?S = "unat (ip_saddr h) + unat (ip_daddr h) + unat ?p + unat ?l"
  have init: "unat (ip_saddr h + ip_daddr h + ucast ?p + ucast ?l :: u32) = ?S"
    using fits unat_sum_list [of "ip_saddr h + ip_daddr h" "[?p, ?l]"]
    by (simp add: unat_word_ariths add.assoc)
  have "even ?n" "?n \<le> length ?seg" using assms(4) by simp_all
  with checksum_even [of ?n ?seg "ip_saddr h + ip_daddr h + ucast ?p + ucast ?l"] init fits
  obtain c where c: "checksum ?seg ?n (ip_saddr h + ip_daddr h + ucast ?p + ucast ?l) = Inr c"
    "unat c = internet_checksum ?S ?seg"
    by auto
  have tot: "word_total (pseudo_header h ?n @ ?seg) = word_total (pseudo_header h ?n) + word_total ?seg"
    by (rule word_total_append) (simp add: pseudo_header_def)
  have "?S \<noteq> 0" using unat_htons_pos [of ?n] assms(3) by simp
  moreover have "word_total (pseudo_header h ?n) \<noteq> 0"
    using unat_htons_pos [of ?n] assms(3) by (simp add: pseudo_header_sum)
  moreover have "(?S + word_total ?seg) mod 65535 = (word_total (pseudo_header h ?n) + word_total ?seg) mod 65535"
    by (rule mod_add_cong) (simp_all only: pseudo_header_total)
  ultimately have "ones_sum (?S + word_total ?seg) = ones_sum (word_total (pseudo_header h ?n @ ?seg))"
    unfolding tot by (intro ones_sum_eqI) linarith+
  with c have "unat c = internet_checksum 0 (pseudo_header h ?n @ ?seg)"
    by (simp only: internet_checksum_def add_0)
  with c(1) tcp_checksum_built [OF assms(1-3)] show ?thesis by metis
qed

lemmas sample_evals = sample_tcp_def tcphdr_bytes_def bytes16_def bytes32_def byte16_def byte32_def
  htons_def le16_def nibbles_def flag_defs word_total_def internet_checksum_def ones_sum_def

theorem tcp_checksum_is_rfc793_witness:
  "\<exists>c. tcp_checksum (sample_packet 0x0100000a 0x0200000a) 14 34 = Inr c \<and>
    unat c = internet_checksum 0
      (pseudo_header (sample_ip 0x0100000a 0x0200000a) 20 @ tcphdr_bytes sample_tcp)"
proof -
  have "unat (0x0100000a :: u32) + unat (0x0200000a :: u32) + unat (htons (ucast (6 :: u8))) +
      unat (htons (word_of_nat 20)) + word_total (tcphdr_bytes (sample_tcp\<lparr>th_csum := 0\<rparr>) @ []) < 2 ^ 32"
    by (simp add: sample_evals)
  with tcp_checksum_is_rfc793 [of "sample_ip 0x0100000a 0x0200000a" "[]" sample_tcp "replicate 14 0"]
  show ?thesis by (simp add: sample_ip_def sample_packet_def sample_tcp_def)
qed

text \<open>
  The two addresses are added as 32-bit numbers and a carry out of bit 31 is dropped, so
  for addresses with large last octets the result is not the checksum of RFC 793. For a packet
  from 192.168.1.200 to 192.168.1.201 it is off by one.
\<close>

theorem tcp_checksum_drops_carry:
  "tcp_checksum (sample_packet 0xc801a8c0 0xc901a8c0) 14 34 = Inr 0xb6d4 \<and>
   internet_checksum 0 (pseudo_header (sample_ip 0xc801a8c0 0xc901a8c0) 20 @ tcphdr_bytes sample_tcp) = 0xb6d3"
proof
  show "tcp_checksum (sample_packet 0xc801a8c0 0xc901a8c0) 14 34 = Inr 0xb6d4" by code_simp
  show "internet_checksum 0 (pseudo_header (sample_ip 0xc801a8c0 0xc901a8c0) 20 @ tcphdr_bytes sample_tcp) = 0xb6d3"
    by (simp add: sample_evals sample_ip_def pseudo_header_def)
qed

lemma tcp_cb_init_built:
  assumes "ip_ihl h = 5" and "th_off t = 5"
    and "ip_tot_len h = htons (word_of_nat (40 + length payload))" and "length payload \<le> 65495"
  shows "tcp_cb_init (e @ iphdr_bytes h @ tcphdr_bytes t @ payload) (length e) (length e + 20) =
    Inr \<lparr>cb_saddr = ntohl (ip_saddr h), cb_daddr = ntohl (ip_daddr h),
      cb_sport = ntohs (th_sport t), cb_dport = ntohs (th_dport t), cb_seq = ntohl (th_seq t),
      cb_seq_end = ntohl (th_seq t) + word_of_nat (length payload) +
        (if th_flags t AND (TCP_SYN OR TCP_FIN) \<noteq> 0 then 1 else 0),
      cb_ack = ntohl (th_ack t), cb_rwnd = ucast (ntohs (th_rwnd t)), cb_flags = th_flags t,
      cb_payload = length e + 40, cb_pl_len = int (length payload)\<rparr>"
proof -
  let ?p = "e @ iphdr_bytes h @ tcphdr_bytes t @ payload"
  have ip: "rd16 ?p (length e + 2) = Inr (ip_tot_len h)" "rd8 ?p (length e) = Inr (nibbles (ip_ihl h) (ip_version h))"
    "rd32 ?p (length e + 12) = Inr (ip_saddr h)" "rd32 ?p (length e + 16) = Inr (ip_daddr h)"
    by (simp_all only: rd_shift rd_shift_0 iphdr_fields)
  have "?p = (e @ iphdr_bytes h) @ tcphdr_bytes t @ payload" "length e + 20 = length (e @ iphdr_bytes h)"
    by simp_all
  then have tcp: "rd8 ?p (length e + 20 + 12) = Inr (nibbles (th_x2 t) (th_off t))"
    "rd16 ?p (length e + 20) = Inr (th_sport t)" "rd16 ?p (length e + 20 + 2) = Inr (th_dport t)"
    "rd32 ?p (length e + 20 + 4) = Inr (th_seq t)" "rd8 ?p (length e + 20 + 13) = Inr (th_flags t)"
    "rd32 ?p (length e + 20 + 8) = Inr (th_ack t)" "rd16 ?p (length e + 20 + 14) = Inr (th_rwnd t)"
    by (simp_all only: rd_shift rd_shift_0 tcphdr_fields)
  have "unat (ntohs (ip_tot_len h)) = 40 + length payload"
    unfolding assms(3) htons_htons using assms(4) by (intro unat_word_of_nat16) simp
  then have len: "int (unat (ntohs (ip_tot_len h))) - int (unat (5 :: 4 word) * 4) - int (unat (5 :: 4 word) * 4) =
      int (length payload)"
    by simp
  show ?thesis
    unfolding tcp_cb_init_def IP_HDR_SIZE_def TCP_HDR_SIZE_def ip tcp rbind_Inr nibble_simps assms(1,2) Let_def len
    by simp
qed

text \<open>
  \<^verbatim>\<open>tcp_cb_init\<close> recovers from a packet what the sender put in: addresses, ports,
  sequence and acknowledgement number, window and flags in host order, the place and length of
  the payload, and the end of the sequence range counting SYN and FIN as one.
\<close>

theorem tcp_cb_init_fields:
  assumes "ip_ihl h = 5" and "th_off t = 5"
    and "ip_tot_len h = htons (word_of_nat (40 + length payload))" and "length payload \<le> 65495"
  shows "tcp_cb_init (e @ iphdr_bytes h @ tcphdr_bytes t @ payload) (length e) (length e + 20) =
    Inr \<lparr>cb_saddr = ntohl (ip_saddr h), cb_daddr = ntohl (ip_daddr h),
      cb_sport = ntohs (th_sport t), cb_dport = ntohs (th_dport t), cb_seq = ntohl (th_seq t),
      cb_seq_end = ntohl (th_seq t) + word_of_nat (length payload) +
        (if th_flags t AND (TCP_SYN OR TCP_FIN) \<noteq> 0 then 1 else 0),
      cb_ack = ntohl (th_ack t), cb_rwnd = ucast (ntohs (th_rwnd t)), cb_flags = th_flags t,
      cb_payload = length e + 40, cb_pl_len = int (length payload)\<rparr>"
  using assms by (rule tcp_cb_init_built)

theorem tcp_cb_init_fields_witness:
  "\<exists>cb. tcp_cb_init (sample_packet 0x0100000a 0x0200000a) 14 34 = Inr cb \<and>
    cb_saddr cb = 0x0a000001 \<and> cb_sport cb = 12345 \<and> cb_seq_end cb = 1"
proof -
  have "(0x0100000a :: u32) = htonl 0x0a000001" by code_simp
  with tcp_cb_init_fields [of "sample_ip 0x0100000a 0x0200000a" sample_tcp "[]" "replicate 14 0"]
  show ?thesis by (simp add: sample_ip_def sample_packet_def sample_tcp_def flag_defs) (simp add: htonl_def le32_def byte32_def)
qed

section \<open>Flag strings\<close>

definition flag_names :: "u8 \<Rightarrow> string list" where
  "flag_names flags = concat (map (\<lambda>(f, s). if flags AND f \<noteq> 0 then [s] else [])
     [(TCP_FIN, ''FIN''), (TCP_SYN, ''SYN''), (TCP_RST, ''RST''), (TCP_PSH, ''PSH''),
      (TCP_ACK, ''ACK''), (TCP_URG, ''URG'')])"

fun join :: "string \<Rightarrow> string list \<Rightarrow> string" where
  "join sep [] = []"
| "join sep [s] = s"
| "join sep (s # t # ss) = s @ sep @ join sep (t # ss)"

definition c_string :: "char list \<Rightarrow> string" where
  "c_string buf = takeWhile (\<lambda>c. c \<noteq> c_nul) buf"

text \<open>
  C22: For every flag byte, \<^verbatim>\<open>tcp_copy_flags_to_str\<close> stays inside its 32-byte
  buffer and leaves in it the names of the flags that are set, separated by bars, as a
  terminated string.
\<close>

theorem tcp_copy_flags_to_str_correct:
  "\<exists>buf. tcp_copy_flags_to_str flags = Inr buf \<and> length buf = 32 \<and> c_nul \<in> set buf \<and>
     c_string buf = join ''|'' (flag_names flags)"
  by (cases "flags AND TCP_FIN = 0"; cases "flags AND TCP_SYN = 0"; cases "flags AND TCP_RST = 0";
      cases "flags AND TCP_PSH = 0"; cases "flags AND TCP_ACK = 0"; cases "flags AND TCP_URG = 0")
    (simp_all add: tcp_copy_flags_to_str_def copy_flag_str_def flag_names_def wr_bytes_def blit_def
      c_string_def c_nul_def numeral_eq_Suc)

theorem stored_checksum_verifies_witness:
  "\<exists>p' q'. wr16 (sample_packet 0xc801a8c0 0xc901a8c0) 50 0xb6d4 = Inr p' \<and>
     wr16 (sample_packet 0xc801a8c0 0xc901a8c0) 24 0xeef5 = Inr q' \<and>
     tcp_checksum p' 14 34 = rd16 p' 50 \<and> ip_checksum q' 14 = rd16 q' 24"
proof -
  let ?p = "sample_packet 0xc801a8c0 0xc901a8c0"
  have t: "tcp_checksum ?p 14 34 = Inr 0xb6d4" by code_simp
  have i: "ip_checksum ?p 14 = Inr 0xeef5" by code_simp
  have "length ?p = 54" by (simp add: sample_packet_def)
  then obtain p' q' where w: "wr16 ?p (34 + 16) 0xb6d4 = Inr p'" "wr16 ?p (14 + 10) 0xeef5 = Inr q'"
    by (simp add: wr16_def)
  from stored_checksum_verifies [OF t w(1) i w(2)] w show ?thesis by auto
qed

end
