(* ===== verification/Hash.thy ===== *)
theory Hash
  imports Prelude
begin

text \<open>
  The hash functions of \<^verbatim>\<open>include/hash.h\<close> and the bucket function of
  \<^verbatim>\<open>include/tcp_hash.h\<close>. A block \<^verbatim>\<open>(buf, len)\<close> is the list of its
  \<^verbatim>\<open>len\<close> bytes; \<^verbatim>\<open>(char *)&x\<close> is the host-order byte list of \<open>x\<close>.
\<close>

definition hash8 :: "u8 list \<Rightarrow> u8" where
  "hash8 buf = foldl (\<lambda>result b. result XOR b) 0 buf"

fun hash16_loop :: "u16 \<Rightarrow> u8 list \<Rightarrow> u16" where
  "hash16_loop result (b0 # b1 # bs) = hash16_loop (result XOR le16 b0 b1) bs"
| "hash16_loop result [b] = result XOR ucast b"
| "hash16_loop result [] = result"

definition hash16 :: "u8 list \<Rightarrow> u16" where
  "hash16 buf = hash16_loop 0 buf"

definition TCP_HASH_SIZE :: nat where
  "TCP_HASH_SIZE = 256"

definition TCP_HASH_MASK :: nat where
  "TCP_HASH_MASK = TCP_HASH_SIZE - 1"

definition tcp_hash_function :: "u32 \<Rightarrow> u32 \<Rightarrow> u16 \<Rightarrow> u16 \<Rightarrow> nat" where
  "tcp_hash_function saddr daddr sport dport =
     unat (hash8 (bytes32 saddr) XOR hash8 (bytes32 daddr) XOR
           hash8 (bytes16 sport) XOR hash8 (bytes16 dport)) AND TCP_HASH_MASK"

section \<open>Lemmas\<close>

lemma xor_foldl: "foldl (\<lambda>r b. r XOR b) (a :: u8) bs = a XOR foldl (\<lambda>r b. r XOR b) 0 bs"
proof (induction bs arbitrary: a)
  case (Cons b bs)
  show ?case
    using Cons.IH [of "a XOR b"] Cons.IH [of b] by (simp add: xor.assoc)
qed simp

lemma hash8_simps: "hash8 [] = 0" "hash8 (b # bs) = b XOR hash8 bs"
  by (simp_all add: hash8_def xor_foldl [of b])

lemma hash_bucket_less: "tcp_hash_function saddr daddr sport dport < TCP_HASH_SIZE"
proof -
  have "n AND (255 :: nat) < 256" for n
    using take_bit_nat_less_exp [of 8 n] by (simp add: take_bit_eq_mask mask_eq_exp_minus_1)
  then show ?thesis by (simp add: tcp_hash_function_def TCP_HASH_MASK_def TCP_HASH_SIZE_def)
qed

lemma hash8_bytes_swap: "hash8 (bytes16 (htons x)) = hash8 (bytes16 x)" "hash8 (bytes32 (htonl y)) = hash8 (bytes32 y)"
  by (simp_all add: bytes16_def bytes32_def htons_def htonl_def hash8_simps ac_simps xor.left_commute xor.commute)

section \<open>Properties\<close>

text \<open>
  C24: The bucket index always lies in the hash tables, both ends of a connection hash to the
  same bucket, and the bucket does not depend on the byte order in which addresses and ports
  are kept.
\<close>

theorem tcp_hash_function_bucket:
  "tcp_hash_function saddr daddr sport dport < TCP_HASH_SIZE \<and>
   tcp_hash_function daddr saddr dport sport = tcp_hash_function saddr daddr sport dport \<and>
   tcp_hash_function (htonl saddr) (htonl daddr) (htons sport) (htons dport) =
     tcp_hash_function saddr daddr sport dport"
  by (simp add: hash_bucket_less)
    (simp add: tcp_hash_function_def hash8_bytes_swap ac_simps xor.left_commute xor.commute)

text \<open>
  The 16-bit hash refines the 8-bit one: the two halves of \<^verbatim>\<open>hash16\<close> combine to
  \<^verbatim>\<open>hash8\<close> of the same block, whatever its length.
\<close>

theorem hash16_folds_to_hash8:
  "byte16 0 (hash16 buf) XOR byte16 1 (hash16 buf) = hash8 buf"
proof -
  have split: "byte16 i (a XOR b) = byte16 i a XOR byte16 i b" for i a b
    by (rule bit_word_eqI) (simp add: byte16_def bit_simps)
  have byte: "byte16 0 (ucast b) = b" "byte16 (Suc 0) (ucast b) = 0" for b :: u8
    by (rule bit_word_eqI; auto simp: byte16_def bit_simps)+
  have "byte16 0 (hash16_loop r bs) XOR byte16 1 (hash16_loop r bs) =
      byte16 0 r XOR byte16 1 r XOR hash8 bs" for r bs
    by (induction r bs rule: hash16_loop.induct)
      (simp_all add: split byte hash8_simps ac_simps xor.left_commute xor.commute)
  then show ?thesis by (simp add: hash16_def byte16_def)
qed

end
