(* ===== verification/Seq_Arith.thy ===== *)
theory Seq_Arith
  imports Prelude
begin

text \<open>
  The comparisons of 32-bit sequence numbers of \<^verbatim>\<open>include/tcp.h\<close>. The macros
  subtract two \<^verbatim>\<open>int32_t\<close> values and test the sign of the difference. The program is
  built without optimisation, so the subtraction wraps as the machine's does; the last
  theorem states where a compiler that relies on the absence of signed overflow would
  answer differently.
\<close>

definition less_or_equal_32b :: "u32 \<Rightarrow> u32 \<Rightarrow> bool" where
  "less_or_equal_32b a b \<longleftrightarrow> sint (a - b) \<le> 0"

definition less_than_32b :: "u32 \<Rightarrow> u32 \<Rightarrow> bool" where
  "less_than_32b a b \<longleftrightarrow> sint (a - b) < 0"

definition greater_or_equal_32b :: "u32 \<Rightarrow> u32 \<Rightarrow> bool" where
  "greater_or_equal_32b a b \<longleftrightarrow> sint (a - b) \<ge> 0"

definition greater_than_32b :: "u32 \<Rightarrow> u32 \<Rightarrow> bool" where
  "greater_than_32b a b \<longleftrightarrow> sint (a - b) > 0"

section \<open>The order inside a window\<close>

text \<open>
  What the protocol needs of the comparisons: read relative to a base, they order the
  offsets of any window of \<open>2 ^ 31\<close> sequence numbers.
\<close>

locale window_order =
  fixes less :: "u32 \<Rightarrow> u32 \<Rightarrow> bool" and less_eq :: "u32 \<Rightarrow> u32 \<Rightarrow> bool"
  assumes less_offsets: "i < 2 ^ 31 \<Longrightarrow> j < 2 ^ 31 \<Longrightarrow>
      less (base + word_of_nat i) (base + word_of_nat j) = (i < j)"
    and less_eq_offsets: "i < 2 ^ 31 \<Longrightarrow> j < 2 ^ 31 \<Longrightarrow>
      less_eq (base + word_of_nat i) (base + word_of_nat j) = (i \<le> j)"
begin

text \<open>A segment overlaps a window exactly if it starts before the window's end and does not
  end before the window's start.\<close>

lemma between:
  assumes "i < 2 ^ 31" "j < 2 ^ 31" "k < 2 ^ 31"
  shows "less_eq (base + word_of_nat i) (base + word_of_nat j) \<and>
      less (base + word_of_nat j) (base + word_of_nat k) \<longleftrightarrow> i \<le> j \<and> j < k"
  using assms by (simp add: less_offsets less_eq_offsets)

lemma trans_in_window:
  assumes "i < 2 ^ 31" "j < 2 ^ 31" "k < 2 ^ 31"
    and "less (base + word_of_nat i) (base + word_of_nat j)"
    and "less (base + word_of_nat j) (base + word_of_nat k)"
  shows "less (base + word_of_nat i) (base + word_of_nat k)"
  using assms by (simp add: less_offsets)

end

lemma sint_offsets:
  assumes "i < 2 ^ 31" "j < 2 ^ 31"
  shows "sint ((base + word_of_nat i) - (base + word_of_nat j) :: u32) = int i - int j"
proof -
  have "(base + word_of_nat i) - (base + word_of_nat j) = (word_of_int (int i - int j) :: u32)"
    by simp
  moreover have "sint (word_of_int (int i - int j) :: u32) = int i - int j"
    using to_int32_id [of "int i - int j"] assms by (simp add: to_int32_def)
  ultimately show ?thesis by metis
qed

interpretation seq: window_order less_than_32b less_or_equal_32b
  by unfold_locales (simp_all only: less_than_32b_def less_or_equal_32b_def sint_offsets, auto)

interpretation seq_rev: window_order "\<lambda>a b. greater_than_32b b a" "\<lambda>a b. greater_or_equal_32b b a"
  by unfold_locales (simp_all only: greater_than_32b_def greater_or_equal_32b_def sint_offsets, auto)

text \<open>
  The comparison of any two numbers: \<open>a\<close> is not after \<open>b\<close> exactly if \<open>b\<close> is at most
  \<open>2 ^ 31\<close> ahead of it.
\<close>

lemma sint_nonpos_iff: "sint (- (d :: u32)) \<le> 0 \<longleftrightarrow> unat d \<le> 2 ^ 31"
proof -
  have u: "uint d < 2 ^ 32" "0 \<le> uint d" using uint_bounded [of d] by simp_all
  have s: "sint w = (if uint w < 2 ^ 31 then uint w else uint w - 2 ^ 32)" for w :: u32
  proof -
    have "uint w < 2 ^ 32" "0 \<le> uint w" using uint_bounded [of w] by simp_all
    moreover have "sint w = signed_take_bit 31 (uint w)" by (simp add: sint_uint)
    ultimately show ?thesis
      using mod_pos_pos_trivial [of "uint w - 2147483648" 4294967296] minus_mod_self2 [of "uint w + 2147483648" 4294967296]
      by (auto simp: signed_take_bit_eq_take_bit_shift take_bit_eq_mod)
  qed
  have "uint (- d) = (if uint d = 0 then 0 else 2 ^ 32 - uint d)"
    using u by (auto simp: uint_word_ariths mod_if zmod_zminus1_eq_if)
  then have "sint (- d) \<le> 0 \<longleftrightarrow> uint d \<le> 2 ^ 31" using u s [of "- d"] by auto
  also have "\<dots> \<longleftrightarrow> nat (uint d) \<le> 2 ^ 31" by (simp only: nat_le_iff of_nat_power of_nat_numeral)
  finally show ?thesis by (simp only: unat_eq_nat_uint)
qed

lemma less_or_equal_32b_offset: "less_or_equal_32b a b \<longleftrightarrow> unat (b - a) \<le> 2 ^ 31"
  using sint_nonpos_iff [of "b - a"] by (simp add: less_or_equal_32b_def)

lemma flight_window:
  fixes i w :: u32
  assumes "n < 2 ^ 31" "unat w = n"
  shows "unat i \<le> 2 ^ 31 \<and> unat (w - i) \<le> 2 ^ 31 \<longleftrightarrow> unat i \<le> n \<or> n = 0 \<and> unat i = 2 ^ 31"
proof -
  have "unat (w - i) = (if unat i \<le> unat w then unat w - unat i else unat w + 2 ^ 32 - unat i)"
    by (simp add: unat_sub_if')
  moreover have "unat i < 2 ^ 32" using unsigned_less [of i, where ?'a = nat] by simp
  ultimately show ?thesis using assms by auto
qed

section \<open>Properties\<close>

text \<open>
  C15: The sequence comparisons are correct across the wrap from \<open>2 ^ 32 - 1\<close> to \<open>0\<close>: for any
  base and any two offsets below \<open>2 ^ 31\<close>, all four macros compare the offsets.
\<close>

theorem seq_compare_window:
  assumes "i < 2 ^ 31" and "j < 2 ^ 31"
  shows "less_than_32b (base + word_of_nat i) (base + word_of_nat j) = (i < j) \<and>
    less_or_equal_32b (base + word_of_nat i) (base + word_of_nat j) = (i \<le> j) \<and>
    greater_than_32b (base + word_of_nat i) (base + word_of_nat j) = (i > j) \<and>
    greater_or_equal_32b (base + word_of_nat i) (base + word_of_nat j) = (i \<ge> j)"
  using assms seq.less_offsets seq.less_eq_offsets seq_rev.less_offsets seq_rev.less_eq_offsets by blast

theorem seq_compare_window_witness:
  "less_than_32b (0xfffffff0 + word_of_nat 1) (0xfffffff0 + word_of_nat 100) \<and>
   greater_than_32b (0xfffffff0 + word_of_nat 100) (0xfffffff0 + word_of_nat 1)"
  using seq_compare_window [of 1 100 "0xfffffff0"] seq_compare_window [of 100 1 "0xfffffff0"] by simp

text \<open>
  Where the C subtraction does not overflow, the macro is the plain comparison of the two
  signed values; the two differ as soon as it does overflow. A compiler that takes signed
  overflow as impossible may therefore replace the macro by that comparison and break it:
  \<open>0x80000000\<close> comes after \<open>1\<close> in sequence order, but before it as a signed number.
\<close>

theorem seq_compare_signed_overflow:
  "(\<forall>a b. sint a - sint b \<in> {- (2 ^ 31)..<2 ^ 31} \<longrightarrow> less_than_32b a b = (sint a < sint b)) \<and>
   \<not> less_than_32b 0x80000000 1 \<and> sint (0x80000000 :: u32) < sint (1 :: u32) \<and>
   sint (0x80000000 :: u32) - sint (1 :: u32) \<notin> {- (2 ^ 31)..<2 ^ 31}"
proof (intro conjI allI impI)
  fix a b :: u32
  assume "sint a - sint b \<in> {- (2 ^ 31)..<2 ^ 31}"
  then have "to_int32 (sint a - sint b) = sint a - sint b" by (intro to_int32_id) auto
  then have "sint (a - b) = sint a - sint b" by (simp add: to_int32_def)
  then show "less_than_32b a b = (sint a < sint b)" by (simp add: less_than_32b_def)
qed (simp_all add: less_than_32b_def)

theorem seq_compare_signed_overflow_witness:
  "less_than_32b 5 9"
proof -
  have "sint (5 :: u32) - sint (9 :: u32) \<in> {- (2 ^ 31)..<2 ^ 31}" by simp
  with seq_compare_signed_overflow have "less_than_32b 5 9 = (sint (5 :: u32) < sint (9 :: u32))" by blast
  then show ?thesis by simp
qed

end
