(* ===== verification/Sock_Memory.thy ===== *)
theory Sock_Memory
  imports Linked_List Ring_Buffer Synch_Wait Packets Hash Seq_Arith
begin

text \<open>
  The socket structure of \<^verbatim>\<open>include/tcp_sock.h\<close> and the memory it lives in: the
  objects the TCP code reaches through pointers, \<^verbatim>\<open>malloc\<close>, and the allocation and
  release of sockets (\<^verbatim>\<open>alloc_tcp_sock\<close>, \<^verbatim>\<open>free_tcp_sock\<close>).

  A socket at address \<open>p\<close> is one record in the socket store; its embedded
  \<^verbatim>\<open>struct list_head\<close> members are nodes of the node heap at \<open>p\<close> plus their offset in
  the LP64 layout of the structure. The wait structures and the receive buffer are owned by
  their socket alone and are part of its record. The global list heads lie in zeroed static
  memory below all heap objects.
\<close>

section \<open>Data\<close>

datatype tcp_state =
    TCP_CLOSED | TCP_LISTEN | TCP_SYN_RECV | TCP_SYN_SENT | TCP_ESTABLISHED | TCP_CLOSE_WAIT
  | TCP_LAST_ACK | TCP_FIN_WAIT_1 | TCP_FIN_WAIT_2 | TCP_CLOSING | TCP_TIME_WAIT

fun tcp_state_str :: "tcp_state \<Rightarrow> string" where
  "tcp_state_str TCP_CLOSED = ''CLOSED''"
| "tcp_state_str TCP_LISTEN = ''LISTEN''"
| "tcp_state_str TCP_SYN_RECV = ''SYN_RECV''"
| "tcp_state_str TCP_SYN_SENT = ''SYN_SENT''"
| "tcp_state_str TCP_ESTABLISHED = ''ESTABLISHED''"
| "tcp_state_str TCP_CLOSE_WAIT = ''CLOSE_WAIT''"
| "tcp_state_str TCP_LAST_ACK = ''LAST_ACK''"
| "tcp_state_str TCP_FIN_WAIT_1 = ''FIN_WAIT-1''"
| "tcp_state_str TCP_FIN_WAIT_2 = ''FIN_WAIT-2''"
| "tcp_state_str TCP_CLOSING = ''CLOSING''"
| "tcp_state_str TCP_TIME_WAIT = ''TIME_WAIT''"

definition tcp_state_to_str :: "tcp_state \<Rightarrow> string" where
  "tcp_state_to_str st = tcp_state_str st"

record tcp_timer =
  tm_type :: int
  tm_timeout :: int
  tm_enable :: int

record sock_addr =
  sa_ip :: u32
  sa_port :: u16

record tcp_sock =
  sk_sip :: u32
  sk_sport :: u16
  sk_dip :: u32
  sk_dport :: u16
  sk_parent :: addr
  ref_cnt :: int
  accept_backlog :: int
  backlog :: int
  timewait :: tcp_timer
  retrans_timer :: tcp_timer
  wait_connect :: synch_wait
  wait_accept :: synch_wait
  wait_recv :: synch_wait
  wait_send :: synch_wait
  rcv_buf :: ring_buffer
  sk_state :: tcp_state
  iss :: u32
  snd_una :: u32
  snd_nxt :: u32
  rcv_nxt :: u32
  recovery_point :: u32
  snd_wnd :: u32
  adv_wnd :: u16
  rcv_wnd :: u16
  cwnd :: u32
  ssthresh :: u32

text \<open>Offsets of the embedded list nodes and timers, and of the list node inside a timer.\<close>

definition OFF_hash_list :: int where "OFF_hash_list = 32"
definition OFF_bind_hash_list :: int where "OFF_bind_hash_list = 48"
definition OFF_listen_queue :: int where "OFF_listen_queue = 64"
definition OFF_accept_queue :: int where "OFF_accept_queue = 80"
definition OFF_list :: int where "OFF_list = 104"
definition OFF_timewait :: int where "OFF_timewait = 120"
definition OFF_retrans_timer :: int where "OFF_retrans_timer = 152"
definition OFF_send_buf :: int where "OFF_send_buf = 224"
definition OFF_rcv_ofo_buf :: int where "OFF_rcv_ofo_buf = 240"
definition OFF_timer_list :: int where "OFF_timer_list = 8"
definition SOCK_SIZE :: int where "SOCK_SIZE = 296"

lemmas offsets = OFF_hash_list_def OFF_bind_hash_list_def OFF_listen_queue_def OFF_accept_queue_def
  OFF_list_def OFF_timewait_def OFF_retrans_timer_def OFF_send_buf_def OFF_rcv_ofo_buf_def
  OFF_timer_list_def SOCK_SIZE_def

definition sock_nodes :: "addr \<Rightarrow> addr list" where
  "sock_nodes p = [p + OFF_hash_list, p + OFF_bind_hash_list, p + OFF_listen_queue,
     p + OFF_accept_queue, p + OFF_list, p + OFF_timewait + OFF_timer_list,
     p + OFF_retrans_timer + OFF_timer_list, p + OFF_send_buf, p + OFF_rcv_ofo_buf]"

text \<open>
  The memory of the stack. \<open>mallocs\<close> are the results the coming \<^verbatim>\<open>malloc\<close> calls will
  return, each an address (\<open>0\<close> for failure) and the bytes found in the fresh block;
  \<open>sent\<close> are the packets handed to \<^verbatim>\<open>ip_send_packet\<close>, oldest first.
\<close>

record stack =
  nodes :: node_heap
  socks :: "addr \<Rightarrow> tcp_sock option"
  mallocs :: "(addr \<times> (nat \<Rightarrow> u8)) list"
  sent :: "u8 list list"

definition malloc :: "stack \<Rightarrow> addr \<times> (nat \<Rightarrow> u8) \<times> stack" where
  "malloc st = (case mallocs st of
      [] \<Rightarrow> (0, (\<lambda>_. 0), st)
    | (p, junk) # ms \<Rightarrow> (p, junk, st\<lparr>mallocs := ms\<rparr>))"

definition rd_sock :: "stack \<Rightarrow> addr \<Rightarrow> tcp_sock res" where
  "rd_sock st p = (case socks st p of None \<Rightarrow> Inl Wild_Pointer | Some sk \<Rightarrow> Inr sk)"

definition upd_sock :: "stack \<Rightarrow> addr \<Rightarrow> (tcp_sock \<Rightarrow> tcp_sock) \<Rightarrow> stack res" where
  "upd_sock st p f = rbind (rd_sock st p) (\<lambda>sk. Inr (st\<lparr>socks := (socks st)(p \<mapsto> f sk)\<rparr>))"

definition on_nodes :: "stack \<Rightarrow> (node_heap \<Rightarrow> node_heap res) \<Rightarrow> stack res" where
  "on_nodes st f = rbind (f (nodes st)) (\<lambda>h. Inr (st\<lparr>nodes := h\<rparr>))"

section \<open>Sockets: allocation, release, state\<close>

definition TCP_DEFAULT_WINDOW :: int where
  "TCP_DEFAULT_WINDOW = 65535"

definition zero_timer :: tcp_timer where
  "zero_timer = \<lparr>tm_type = 0, tm_timeout = 0, tm_enable = 0\<rparr>"

text \<open>The record after \<^verbatim>\<open>memset\<close> and the assignments of \<^verbatim>\<open>alloc_tcp_sock\<close>.\<close>

definition fresh_sock :: tcp_sock where
  "fresh_sock = \<lparr>sk_sip = 0, sk_sport = 0, sk_dip = 0, sk_dport = 0, sk_parent = 0, ref_cnt = 0,
     accept_backlog = 0, backlog = 0, timewait = zero_timer, retrans_timer = zero_timer,
     wait_connect = alloc_wait_struct, wait_accept = alloc_wait_struct,
     wait_recv = alloc_wait_struct, wait_send = alloc_wait_struct,
     rcv_buf = alloc_ring_buffer TCP_DEFAULT_WINDOW, sk_state = TCP_CLOSED, iss = 0, snd_una = 0,
     snd_nxt = 0, rcv_nxt = 0, recovery_point = 0, snd_wnd = 0, adv_wnd = 0,
     rcv_wnd = word_of_int TCP_DEFAULT_WINDOW, cwnd = 0, ssthresh = 0\<rparr>"

fun set_nodes :: "addr list \<Rightarrow> list_head option \<Rightarrow> node_heap \<Rightarrow> node_heap" where
  "set_nodes [] v h = h"
| "set_nodes (a # as) v h = set_nodes as v (h(a := v))"

text \<open>
  The block of the receive buffer or of a wait structure: it is written right after
  \<^verbatim>\<open>malloc\<close> without a test, and what is stored in it is part of the socket's record.
\<close>

definition malloc_part :: "stack \<Rightarrow> stack res" where
  "malloc_part st = (case malloc st of (p, junk, st) \<Rightarrow> if p = 0 then Inl Wild_Pointer else Inr st)"

text \<open>
  \<^verbatim>\<open>memset\<close> through \<^verbatim>\<open>NULL\<close> is a fault. Only three of the embedded nodes
  are initialised; the others keep the zero pointers of the cleared memory.
\<close>

definition alloc_tcp_sock :: "stack \<Rightarrow> (addr \<times> stack) res" where
  "alloc_tcp_sock st =
     (case malloc st of (p, junk, st) \<Rightarrow>
      if p = 0 then Inl Wild_Pointer
      else
        let st = st\<lparr>socks := (socks st)(p \<mapsto> fresh_sock),
                    nodes := set_nodes (sock_nodes p) (Some \<lparr>nxt = 0, prv = 0\<rparr>) (nodes st)\<rparr> in
        rbind (on_nodes st (\<lambda>h. init_list_head h (p + OFF_list))) (\<lambda>st.
        rbind (on_nodes st (\<lambda>h. init_list_head h (p + OFF_listen_queue))) (\<lambda>st.
        rbind (on_nodes st (\<lambda>h. init_list_head h (p + OFF_accept_queue))) (\<lambda>st.
        rbind (malloc_part st) (\<lambda>st. rbind (malloc_part st) (\<lambda>st. rbind (malloc_part st) (\<lambda>st.
        rbind (malloc_part st) (\<lambda>st. rbind (malloc_part st) (\<lambda>st.
        Inr (p, st))))))))))"

definition free_tcp_sock :: "stack \<Rightarrow> addr \<Rightarrow> stack res" where
  "free_tcp_sock st tsk =
     rbind (upd_sock st tsk (\<lambda>sk. sk\<lparr>ref_cnt := ref_cnt sk - 1\<rparr>)) (\<lambda>st.
     rbind (rd_sock st tsk) (\<lambda>sk.
     if ref_cnt sk \<le> 0
     then Inr (st\<lparr>socks := (socks st)(tsk := None),
                  nodes := set_nodes (sock_nodes tsk) None (nodes st)\<rparr>)
     else Inr st))"

definition tcp_set_state :: "stack \<Rightarrow> addr \<Rightarrow> tcp_state \<Rightarrow> stack res" where
  "tcp_set_state st tsk s = upd_sock st tsk (\<lambda>sk. sk\<lparr>sk_state := s\<rparr>)"

definition tcp_sock_inc_ref_cnt :: "stack \<Rightarrow> addr \<Rightarrow> stack res" where
  "tcp_sock_inc_ref_cnt st tsk = upd_sock st tsk (\<lambda>sk. sk\<lparr>ref_cnt := ref_cnt sk + 1\<rparr>)"

section \<open>Static memory\<close>

text \<open>
  \<^verbatim>\<open>tcp_sock_table\<close> (three arrays of 256 list heads, 16 bytes each) followed by
  \<^verbatim>\<open>timer_list\<close>, in zero-initialised memory.
\<close>

definition established_table :: "nat \<Rightarrow> addr" where "established_table i = 4096 + 16 * int i"
definition listen_table :: "nat \<Rightarrow> addr" where "listen_table i = 8192 + 16 * int i"
definition bind_table :: "nat \<Rightarrow> addr" where "bind_table i = 12288 + 16 * int i"
definition timer_list :: addr where "timer_list = 16384"
definition HEAP_BASE :: addr where "HEAP_BASE = 20480"

lemmas statics = established_table_def listen_table_def bind_table_def timer_list_def HEAP_BASE_def

definition bss_nodes :: node_heap where
  "bss_nodes a =
     (if 4096 \<le> a \<and> a \<le> 16384 \<and> a mod 16 = 0 then Some \<lparr>nxt = 0, prv = 0\<rparr> else None)"

definition boot :: "(addr \<times> (nat \<Rightarrow> u8)) list \<Rightarrow> stack" where
  "boot ms = \<lparr>nodes = bss_nodes, socks = Map.empty, mallocs = ms, sent = []\<rparr>"

fun init_heads :: "(nat \<Rightarrow> addr) \<Rightarrow> nat \<Rightarrow> nat \<Rightarrow> node_heap \<Rightarrow> node_heap res" where
  "init_heads tab i 0 h = Inr h"
| "init_heads tab i (Suc n) h = rbind (init_list_head h (tab i)) (\<lambda>h. init_heads tab (Suc i) n h)"

text \<open>The loops of \<^verbatim>\<open>init_tcp_stack\<close>; the timer thread it starts is in \<open>Tcp_Timer\<close>.\<close>

definition init_tcp_stack :: "stack \<Rightarrow> stack res" where
  "init_tcp_stack st =
     rbind (on_nodes st (init_heads established_table 0 TCP_HASH_SIZE)) (\<lambda>st.
     rbind (on_nodes st (init_heads listen_table 0 TCP_HASH_SIZE)) (\<lambda>st.
     on_nodes st (init_heads bind_table 0 TCP_HASH_SIZE)))"

end
