(* ===== verification/Stack_Inv.thy ===== *)
theory Stack_Inv
  imports Sock_Memory
begin

text \<open>
  The invariant of the socket memory. \<open>F\<close> names every list of the memory by its head;
  \<open>D\<close> is the set of the addresses of the live sockets. The lists are disjoint rings, the
  buckets of the three tables are among them, what is linked in a bucket is the node of a live
  socket, and sockets do not overlap. The reference counts say in how many tables a socket is.
\<close>

section \<open>Access to live sockets\<close>

lemma rd_sock_Some [simp]: "socks st p = Some sk \<Longrightarrow> rd_sock st p = Inr sk"
  by (simp add: rd_sock_def)

lemma rd_sock_None [simp]: "socks st p = None \<Longrightarrow> rd_sock st p = Inl Wild_Pointer"
  by (simp add: rd_sock_def)

lemma upd_sock_Some [simp]:
  "socks st p = Some sk \<Longrightarrow> upd_sock st p f = Inr (st\<lparr>socks := (socks st)(p \<mapsto> f sk)\<rparr>)"
  by (simp add: upd_sock_def)

lemma upd_sock_None [simp]: "socks st p = None \<Longrightarrow> upd_sock st p f = Inl Wild_Pointer"
  by (simp add: upd_sock_def)

section \<open>Buckets\<close>

definition hash_heads :: "addr set" where
  "hash_heads = established_table ` {..<TCP_HASH_SIZE} \<union> listen_table ` {..<TCP_HASH_SIZE}"

definition bind_heads :: "addr set" where
  "bind_heads = bind_table ` {..<TCP_HASH_SIZE}"

definition linked :: "(addr \<Rightarrow> addr list option) \<Rightarrow> addr set \<Rightarrow> addr \<Rightarrow> bool" where
  "linked F H n \<longleftrightarrow> (\<exists>l\<in>H. \<exists>xs. F l = Some xs \<and> n \<in> set xs)"

lemma head_in_heads [simp, intro]:
  "established_table (tcp_hash_function a b c d) \<in> hash_heads"
  "listen_table (tcp_hash_function a b c d) \<in> hash_heads"
  "bind_table (tcp_hash_function a b c d) \<in> bind_heads"
  by (auto simp: hash_heads_def bind_heads_def hash_bucket_less)

lemma heads_disjoint: "hash_heads \<inter> bind_heads = {}"
  by (auto simp: hash_heads_def bind_heads_def statics TCP_HASH_SIZE_def)

lemma heads_low: "l \<in> hash_heads \<union> bind_heads \<Longrightarrow> 4096 \<le> l \<and> l < timer_list"
  by (auto simp: hash_heads_def bind_heads_def statics TCP_HASH_SIZE_def)

lemma est_listen_disjoint: "i < TCP_HASH_SIZE \<Longrightarrow> established_table i \<noteq> listen_table j"
  by (auto simp: statics TCP_HASH_SIZE_def)

section \<open>The invariant\<close>

text \<open>Sockets lie in the heap, own their list nodes and do not overlap.\<close>

definition socks_apart :: "node_heap \<Rightarrow> addr set \<Rightarrow> bool" where
  "socks_apart h D \<longleftrightarrow>
     (\<forall>p\<in>D. HEAP_BASE \<le> p \<and> set (sock_nodes p) \<subseteq> dom h) \<and>
     (\<forall>p\<in>D. \<forall>q\<in>D. p \<noteq> q \<longrightarrow> SOCK_SIZE \<le> \<bar>p - q\<bar>)"

text \<open>
  A table with the buckets \<open>H\<close>, which links sockets by their node at offset \<open>off\<close>: this node
  is linked in the table or nowhere.
\<close>

definition table_ok :: "addr set \<Rightarrow> (addr \<Rightarrow> addr list option) \<Rightarrow> addr set \<Rightarrow> int \<Rightarrow> bool" where
  "table_ok D F H off \<longleftrightarrow>
     H \<subseteq> dom F \<and> (\<forall>n. linked F H n \<longrightarrow> n - off \<in> D) \<and>
     (\<forall>p\<in>D. p + off \<in> footprint F \<longrightarrow> linked F H (p + off))"

definition mem_ok :: "node_heap \<Rightarrow> addr set \<Rightarrow> (addr \<Rightarrow> addr list option) \<Rightarrow> bool" where
  "mem_ok h D F \<longleftrightarrow>
     family dll h F \<and> socks_apart h D \<and>
     table_ok D F hash_heads OFF_hash_list \<and> table_ok D F bind_heads OFF_bind_hash_list"

definition hashed :: "(addr \<Rightarrow> addr list option) \<Rightarrow> addr \<Rightarrow> bool" where
  "hashed F p = linked F hash_heads (p + OFF_hash_list)"

definition bound :: "(addr \<Rightarrow> addr list option) \<Rightarrow> addr \<Rightarrow> bool" where
  "bound F p = linked F bind_heads (p + OFF_bind_hash_list)"

lemma mem_ok_family: "mem_ok h D F \<Longrightarrow> family dll h F"
  by (simp add: mem_ok_def)

lemma mem_ok_node: "mem_ok h D F \<Longrightarrow> p \<in> D \<Longrightarrow> n \<in> set (sock_nodes p) \<Longrightarrow> \<exists>x. h n = Some x"
  unfolding mem_ok_def socks_apart_def by blast

lemma mem_ok_low: "mem_ok h D F \<Longrightarrow> p \<in> D \<Longrightarrow> HEAP_BASE \<le> p"
  unfolding mem_ok_def socks_apart_def by blast

lemma mem_ok_bucket: "mem_ok h D F \<Longrightarrow> l \<in> hash_heads \<union> bind_heads \<Longrightarrow> \<exists>xs. F l = Some xs"
  unfolding mem_ok_def table_ok_def by blast

text \<open>A node of one socket is not a node of another.\<close>

lemma same_owner:
  "socks_apart h D \<Longrightarrow> p \<in> D \<Longrightarrow> q \<in> D \<Longrightarrow> \<bar>p - q\<bar> < SOCK_SIZE \<Longrightarrow> p = q"
  unfolding socks_apart_def by fastforce

lemma bucket_member:
  "table_ok D F H off \<Longrightarrow> l \<in> H \<Longrightarrow> F l = Some xs \<Longrightarrow> n \<in> set xs \<Longrightarrow> n - off \<in> D"
  unfolding table_ok_def linked_def by blast

lemma dll_in_dom: "dll h l xs \<Longrightarrow> set (l # xs) \<subseteq> dom h"
proof -
  assume "dll h l xs"
  moreover have "successively (edge h) (ys @ [b]) \<Longrightarrow> set ys \<subseteq> dom h" for ys b
    by (induction ys) (auto simp: successively_Cons edge_def successively_append_iff
      elim!: nx_SomeE split: list.splits)
  ultimately show ?thesis by (metis append_Cons dll_def)
qed

lemma footprint_in_dom: "family dll h F \<Longrightarrow> footprint F \<subseteq> dom h"
  using dll_in_dom unfolding family_def footprint_def by blast

section \<open>Linking and unlinking\<close>

lemma linked_upd:
  "linked (F(l \<mapsto> ys)) H m \<longleftrightarrow> (l \<in> H \<and> m \<in> set ys) \<or> linked F (H - {l}) m"
  by (auto simp: linked_def)

lemma linked_split:
  "F l = Some xs \<Longrightarrow> linked F H m \<longleftrightarrow> (l \<in> H \<and> m \<in> set xs) \<or> linked F (H - {l}) m"
  by (auto simp: linked_def)

lemma linked_cons:
  "F l = Some xs \<Longrightarrow> linked (F(l \<mapsto> n # xs)) H m \<longleftrightarrow> (l \<in> H \<and> m = n) \<or> linked F H m"
  by (auto simp: linked_upd linked_split [of F l xs H])

lemma footprint_linked: "footprint F = {a. a \<in> dom F \<or> linked F UNIV a}"
  by (auto simp: footprint_def linked_def)

lemma footprint_cons:
  "F l = Some xs \<Longrightarrow> footprint (F(l \<mapsto> n # xs)) = insert n (footprint F)"
  by (auto simp: footprint_linked linked_cons)

text \<open>A node is linked in one list only, so removing it there unlinks it everywhere.\<close>

lemma linked_once:
  assumes "family dll h F" "F l = Some (xs @ n # ys)"
  shows "\<not> linked F (H - {l}) n" "n \<notin> set (xs @ ys)" "n \<notin> dom F"
proof -
  show "\<not> linked F (H - {l}) n"
    using assms unfolding family_def linked_def
    by (metis (no_types, opaque_lifting) DiffD2 Int_iff empty_iff in_set_conv_decomp insert_iff list.set_intros(2))
  from lists.is_list_distinct [OF lists.family_list [OF assms]]
  show "n \<notin> set (xs @ ys)" by auto
  from lists.is_list_distinct [OF lists.family_list [OF assms]] have "n \<noteq> l" by auto
  then show "n \<notin> dom F"
    using assms unfolding family_def by fastforce
qed

lemma linked_removed:
  assumes "family dll h F" "F l = Some (xs @ n # ys)"
  shows "linked (F(l \<mapsto> xs @ ys)) H m \<longleftrightarrow> linked F H m \<and> (l \<in> H \<longrightarrow> m \<noteq> n)"
proof -
  have "linked F H m \<longleftrightarrow> (l \<in> H \<and> m \<in> set (xs @ n # ys)) \<or> linked F (H - {l}) m"
    by (rule linked_split) (rule assms(2))
  with linked_once [OF assms] show ?thesis by (auto simp: linked_upd)
qed

lemma footprint_removed:
  assumes "family dll h F" "F l = Some (xs @ n # ys)"
  shows "footprint (F(l \<mapsto> xs @ ys)) = footprint F - {n}"
  using linked_once(3) [OF assms] by (auto simp: footprint_linked linked_removed [OF assms] assms(2))

text \<open>
  The contract of a table next to another one: it links other nodes of the sockets than the
  second table does, in other buckets.
\<close>

locale socket_table =
  fixes H H' :: "addr set" and off off' :: int
  assumes apart: "H \<inter> H' = {}"
    and offsets_apart: "\<bar>off - off'\<bar> < SOCK_SIZE" "off \<noteq> off'"
    and node_of_sock: "p + off \<in> set (sock_nodes p)"
begin

lemma link:
  assumes fam: "family dll h F" and D: "socks_apart h D"
    and T: "table_ok D F H off" "table_ok D F H' off'"
    and p: "p \<in> D" and new: "\<not> linked F H (p + off)" and l: "l \<in> H" "F l = Some xs"
  shows "\<exists>h'. list_add_head h (p + off) l = Inr h' \<and> family dll h' (F(l \<mapsto> (p + off) # xs)) \<and>
    dom h' = dom h \<and>
    table_ok D (F(l \<mapsto> (p + off) # xs)) H off \<and> table_ok D (F(l \<mapsto> (p + off) # xs)) H' off'"
proof -
  let ?n = "p + off" and ?F = "F(l \<mapsto> (p + off) # xs)"
  have free: "?n \<notin> footprint F" using T(1) p new unfolding table_ok_def by blast
  have "h ?n \<noteq> None" using D p node_of_sock unfolding socks_apart_def by blast
  from lists.family_add_head [OF fam l(2) this free] obtain h' where
    h': "list_add_head h ?n l = Inr h'" "family dll h' ?F" "dom h' = dom h"
    by (auto simp: same_outside_def)
  have L: "linked ?F H m \<longleftrightarrow> m = ?n \<or> linked F H m" "linked ?F H' m = linked F H' m" for m
    using l apart by (auto simp: linked_cons)
  have "q + off' \<noteq> ?n" if "q \<in> D" for q
  proof
    assume "q + off' = ?n"
    then have "p - q = off' - off" by simp
    with same_owner [OF D p that] offsets_apart show False by (auto simp: abs_minus_commute)
  qed
  then have "table_ok D ?F H off \<and> table_ok D ?F H' off'"
    using T p l unfolding table_ok_def by (auto simp: L footprint_cons)
  with h' show ?thesis by blast
qed

lemma unlink:
  assumes fam: "family dll h F"
    and T: "table_ok D F H off" "table_ok D F H' off'"
    and l: "l \<in> H" "F l = Some (xs @ n # ys)"
  shows "\<exists>h'. list_delete_entry h n = Inr h' \<and> family dll h' (F(l \<mapsto> xs @ ys)) \<and> dom h' = dom h \<and>
    table_ok D (F(l \<mapsto> xs @ ys)) H off \<and> table_ok D (F(l \<mapsto> xs @ ys)) H' off'"
proof -
  let ?F = "F(l \<mapsto> xs @ ys)"
  from lists.family_delete [OF fam l(2)] obtain h' where
    h': "list_delete_entry h n = Inr h'" "family dll h' ?F" "dom h' = dom h"
    by (auto simp: same_outside_def)
  have "l \<notin> H'" using l(1) apart by blast
  then have "table_ok D ?F H off \<and> table_ok D ?F H' off'"
    using T l(1) unfolding table_ok_def
    by (auto simp: linked_removed [OF fam l(2)] footprint_removed [OF fam l(2)])
  with h' show ?thesis by blast
qed

lemma member_looks_linked:
  assumes "family dll h F" "l \<in> H" "F l = Some (xs @ n # ys)"
  shows "list_empty h n = Inr False"
proof -
  from lists.family_list [OF assms(1,3)] have d: "dll h l (xs @ n # ys)" .
  then have "edge h n (List.hd (ys @ [l]))"
    by (cases ys) (auto simp: dll_def successively_append_iff successively_Cons)
  moreover have "List.hd (ys @ [l]) \<noteq> n" using d by (cases ys) (auto simp: dll_def)
  ultimately show ?thesis by (auto simp: list_empty_def rd_node_def edge_def elim!: nx_SomeE)
qed

end

interpretation hash_tab: socket_table hash_heads bind_heads OFF_hash_list OFF_bind_hash_list
  by unfold_locales (auto simp: heads_disjoint offsets sock_nodes_def)

interpretation bind_tab: socket_table bind_heads hash_heads OFF_bind_hash_list OFF_hash_list
  using heads_disjoint by unfold_locales (auto simp: offsets sock_nodes_def)

lemma socks_apart_dom: "dom h' = dom h \<Longrightarrow> socks_apart h' D = socks_apart h D"
  by (simp add: socks_apart_def)

lemma mem_ok_link_hash:
  assumes "mem_ok h D F" "p \<in> D" "\<not> hashed F p" "l \<in> hash_heads" "F l = Some xs"
  shows "\<exists>h'. list_add_head h (p + OFF_hash_list) l = Inr h' \<and>
    mem_ok h' D (F(l \<mapsto> (p + OFF_hash_list) # xs)) \<and> dom h' = dom h"
  using hash_tab.link [of h F D p l xs] assms socks_apart_dom unfolding mem_ok_def hashed_def by blast

lemma mem_ok_link_bind:
  assumes "mem_ok h D F" "p \<in> D" "\<not> bound F p" "l \<in> bind_heads" "F l = Some xs"
  shows "\<exists>h'. list_add_head h (p + OFF_bind_hash_list) l = Inr h' \<and>
    mem_ok h' D (F(l \<mapsto> (p + OFF_bind_hash_list) # xs)) \<and> dom h' = dom h"
  using bind_tab.link [of h F D p l xs] assms socks_apart_dom unfolding mem_ok_def bound_def by blast

lemma mem_ok_unlink_hash:
  assumes "mem_ok h D F" "l \<in> hash_heads" "F l = Some (xs @ n # ys)"
  shows "\<exists>h'. list_delete_entry h n = Inr h' \<and> mem_ok h' D (F(l \<mapsto> xs @ ys)) \<and> dom h' = dom h"
  using hash_tab.unlink [of h F D l xs n ys] assms socks_apart_dom unfolding mem_ok_def by blast

lemma mem_ok_unlink_bind:
  assumes "mem_ok h D F" "l \<in> bind_heads" "F l = Some (xs @ n # ys)"
  shows "\<exists>h'. list_delete_entry h n = Inr h' \<and> mem_ok h' D (F(l \<mapsto> xs @ ys)) \<and> dom h' = dom h"
  using bind_tab.unlink [of h F D l xs n ys] assms socks_apart_dom unfolding mem_ok_def by blast

text \<open>What linking and unlinking do to the reference counts the tables call for.\<close>

lemma hashed_link:
  "F l = Some xs \<Longrightarrow> l \<in> hash_heads \<Longrightarrow>
   hashed (F(l \<mapsto> (p + OFF_hash_list) # xs)) q \<longleftrightarrow> q = p \<or> hashed F q"
  "F l = Some xs \<Longrightarrow> l \<in> hash_heads \<Longrightarrow> bound (F(l \<mapsto> (p + OFF_hash_list) # xs)) q = bound F q"
  using heads_disjoint by (auto simp: hashed_def bound_def linked_cons)

lemma bound_link:
  "F l = Some xs \<Longrightarrow> l \<in> bind_heads \<Longrightarrow>
   bound (F(l \<mapsto> (p + OFF_bind_hash_list) # xs)) q \<longleftrightarrow> q = p \<or> bound F q"
  "F l = Some xs \<Longrightarrow> l \<in> bind_heads \<Longrightarrow> hashed (F(l \<mapsto> (p + OFF_bind_hash_list) # xs)) q = hashed F q"
  using heads_disjoint by (auto simp: hashed_def bound_def linked_cons)

section \<open>The start: empty tables\<close>

lemma family_init:
  assumes fam: "family dll h F" and l: "h l \<noteq> None" and new: "l \<in> footprint F \<longrightarrow> F l = Some []"
  shows "\<exists>h'. init_list_head h l = Inr h' \<and> family dll h' (F(l \<mapsto> [])) \<and> dom h' = dom h"
proof -
  from l obtain n where "h l = Some n" by blast
  from init_list_head_dll [of h l n, OF this] obtain h' where
    h': "init_list_head h l = Inr h'" "dll h' l []" "same_outside {l} h h'" by blast
  have out: "l \<notin> set (l' # xs')" if "F l' = Some xs'" "l' \<noteq> l" for l' xs'
  proof (cases "l \<in> footprint F")
    case True
    with new fam that show ?thesis unfolding family_def by fastforce
  next
    case False
    with that(1) show ?thesis unfolding footprint_def by blast
  qed
  have "dll h' l' xs'" if "F l' = Some xs'" "l' \<noteq> l" for l' xs'
    using lists.frame_is_list [OF h'(3), of l' xs'] out [OF that] lists.family_list [OF fam that(1)] by auto
  moreover have "set (l' # xs') \<inter> set (l'' # xs'') = {}"
    if "F l' = Some xs'" "F l'' = Some xs''" "l' \<noteq> l''" for l' xs' l'' xs''
    using fam that unfolding family_def by blast
  ultimately have "family dll h' (F(l \<mapsto> []))"
    using h'(2) out unfolding family_def by (auto split: if_splits)
  with h' show ?thesis by (auto simp: same_outside_def)
qed

text \<open>The lists \<open>G\<close>, with empty lists at the heads \<open>A\<close>.\<close>

definition with_empty :: "addr set \<Rightarrow> (addr \<Rightarrow> addr list option) \<Rightarrow> addr \<Rightarrow> addr list option" where
  "with_empty A G l = (if l \<in> A then Some [] else G l)"

lemma footprint_with_empty: "footprint (with_empty A G) \<subseteq> A \<union> footprint G"
  by (auto simp: footprint_def with_empty_def split: if_splits)

lemma with_empty_insert: "(with_empty A G)(l \<mapsto> []) = with_empty (insert l A) G"
  by (rule ext) (simp add: with_empty_def)

lemma init_heads_family:
  assumes "family dll h (with_empty A G)" "tab ` {i..<i + n} \<subseteq> dom h" "tab ` {i..<i + n} \<inter> footprint G = {}"
  shows "\<exists>h'. init_heads tab i n h = Inr h' \<and> dom h' = dom h \<and>
    family dll h' (with_empty (A \<union> tab ` {i..<i + n}) G)"
  using assms
proof (induction n arbitrary: i h A)
  case (Suc n)
  have step: "{i..<i + Suc n} = insert i {Suc i..<Suc i + n}" by auto
  have new: "h (tab i) \<noteq> None" "tab i \<notin> footprint G" using Suc.prems(2,3) unfolding step by auto
  have "tab i \<in> footprint (with_empty A G) \<longrightarrow> with_empty A G (tab i) = Some []"
    using footprint_with_empty [of A G] new(2) by (auto simp: with_empty_def)
  then obtain h1 where
    h1: "init_list_head h (tab i) = Inr h1" "family dll h1 (with_empty (insert (tab i) A) G)" "dom h1 = dom h"
    using family_init [OF Suc.prems(1) new(1)] by (auto simp: with_empty_insert)
  have "tab ` {Suc i..<Suc i + n} \<subseteq> dom h1" "tab ` {Suc i..<Suc i + n} \<inter> footprint G = {}"
    using Suc.prems(2,3) unfolding h1(3) step by auto
  from Suc.IH [OF h1(2) this] obtain h2 where h2: "init_heads tab (Suc i) n h1 = Inr h2" "dom h2 = dom h1"
    "family dll h2 (with_empty (insert (tab i) A \<union> tab ` {Suc i..<Suc i + n}) G)" by blast
  have "insert (tab i) A \<union> tab ` {Suc i..<Suc i + n} = A \<union> tab ` {i..<i + Suc n}" unfolding step by auto
  with h1 h2 show ?case by auto
qed auto

lemma bss_heads: "l \<in> hash_heads \<union> bind_heads \<Longrightarrow> bss_nodes l \<noteq> None"
  by (auto simp: hash_heads_def bind_heads_def bss_nodes_def statics TCP_HASH_SIZE_def mod_add_right_eq)

definition empty_tables :: "(addr \<Rightarrow> addr list option) \<Rightarrow> addr \<Rightarrow> addr list option" where
  "empty_tables G = with_empty (hash_heads \<union> bind_heads) G"

lemma empty_tables_unlinked: "H \<subseteq> hash_heads \<union> bind_heads \<Longrightarrow> \<not> linked (empty_tables G) H n"
  by (auto simp: linked_def empty_tables_def with_empty_def split: if_splits)

text \<open>\<^verbatim>\<open>init_tcp_stack\<close> empties the three tables and leaves all other lists alone.\<close>

lemma init_tcp_stack_ok:
  assumes fam: "family dll (nodes st) G" and new: "(hash_heads \<union> bind_heads) \<inter> footprint G = {}"
    and room: "hash_heads \<union> bind_heads \<subseteq> dom (nodes st)"
  shows "\<exists>h. init_tcp_stack st = Inr (st\<lparr>nodes := h\<rparr>) \<and> dom h = dom (nodes st) \<and> mem_ok h {} (empty_tables G)"
proof -
  let ?E = "established_table ` {0..<0 + TCP_HASH_SIZE}" and ?L = "listen_table ` {0..<0 + TCP_HASH_SIZE}"
    and ?B = "bind_table ` {0..<0 + TCP_HASH_SIZE}"
  have sub: "?E \<subseteq> hash_heads \<union> bind_heads" "?L \<subseteq> hash_heads \<union> bind_heads" "?B \<subseteq> hash_heads \<union> bind_heads"
    by (auto simp: hash_heads_def bind_heads_def)
  have "family dll (nodes st) (with_empty {} G)" using fam by (simp add: with_empty_def [abs_def])
  moreover have "?E \<subseteq> dom (nodes st)" "?E \<inter> footprint G = {}" using sub(1) room new by blast+
  ultimately have "\<exists>h'. init_heads established_table 0 TCP_HASH_SIZE (nodes st) = Inr h' \<and> dom h' = dom (nodes st) \<and>
      family dll h' (with_empty ({} \<union> ?E) G)" by (rule init_heads_family)
  then obtain h1 where
    h1: "init_heads established_table 0 TCP_HASH_SIZE (nodes st) = Inr h1" "dom h1 = dom (nodes st)"
      "family dll h1 (with_empty ({} \<union> ?E) G)" by blast
  have "?L \<subseteq> dom h1" "?L \<inter> footprint G = {}" using sub(2) room new unfolding h1(2) by blast+
  from init_heads_family [OF h1(3) this] obtain h2 where
    h2: "init_heads listen_table 0 TCP_HASH_SIZE h1 = Inr h2" "dom h2 = dom (nodes st)"
      "family dll h2 (with_empty ({} \<union> ?E \<union> ?L) G)" unfolding h1(2) by blast
  have "?B \<subseteq> dom h2" "?B \<inter> footprint G = {}" using sub(3) room new unfolding h2(2) by blast+
  from init_heads_family [OF h2(3) this] obtain h3 where
    h3: "init_heads bind_table 0 TCP_HASH_SIZE h2 = Inr h3" "dom h3 = dom (nodes st)"
      "family dll h3 (with_empty ({} \<union> ?E \<union> ?L \<union> ?B) G)" unfolding h2(2) by blast
  have "{} \<union> ?E \<union> ?L \<union> ?B = hash_heads \<union> bind_heads"
    by (auto simp: hash_heads_def bind_heads_def)
  with h3(3) have "family dll h3 (empty_tables G)" by (simp add: empty_tables_def)
  moreover have "hash_heads \<subseteq> dom (empty_tables G)" "bind_heads \<subseteq> dom (empty_tables G)"
    by (auto simp: empty_tables_def with_empty_def)
  ultimately have "mem_ok h3 {} (empty_tables G)"
    by (simp add: mem_ok_def socks_apart_def table_ok_def empty_tables_unlinked)
  with h1(1) h2(1) h3(1,2) show ?thesis
    by (intro exI [of _ h3]) (simp add: init_tcp_stack_def on_nodes_def)
qed

section \<open>A new socket\<close>

text \<open>
  What \<^verbatim>\<open>malloc\<close> promises of a block for a socket: it overlaps no live object.
  \<open>alloc_ready\<close> says that the coming six calls succeed, the first with such a block at \<open>p\<close>.
\<close>

definition fresh_block :: "stack \<Rightarrow> addr \<Rightarrow> bool" where
  "fresh_block st p \<longleftrightarrow> HEAP_BASE \<le> p \<and> (\<forall>q\<in>dom (socks st). SOCK_SIZE \<le> \<bar>p - q\<bar>) \<and>
     set (sock_nodes p) \<inter> dom (nodes st) = {}"

definition alloc_ready :: "stack \<Rightarrow> addr \<Rightarrow> bool" where
  "alloc_ready st p \<longleftrightarrow> fresh_block st p \<and> 6 \<le> length (mallocs st) \<and> fst (mallocs st ! 0) = p \<and>
     (\<forall>m\<in>set (take 6 (mallocs st)). fst m \<noteq> 0)"

definition own_lists :: "addr \<Rightarrow> (addr \<Rightarrow> addr list option) \<Rightarrow> addr \<Rightarrow> addr list option" where
  "own_lists p F = F(p + OFF_list \<mapsto> [], p + OFF_listen_queue \<mapsto> [], p + OFF_accept_queue \<mapsto> [])"

lemma set_nodes_apply: "set_nodes as v h a = (if a \<in> set as then v else h a)"
  by (induction as arbitrary: h) auto

lemma family_frame:
  assumes "family dll h F" "\<And>a. a \<in> footprint F \<Longrightarrow> h' a = h a"
  shows "family dll h' F"
proof -
  have "dll h' l xs" if "F l = Some xs" for l xs
  proof -
    have "set (l # xs) \<subseteq> footprint F" using that by (auto simp: footprint_def)
    then have "dll h' l xs = dll h l xs" using assms(2) by (intro dll_frame) blast
    with lists.family_list [OF assms(1) that] show ?thesis by simp
  qed
  with assms(1) show ?thesis unfolding family_def by blast
qed

text \<open>The new socket is in no table; its own three lists are empty.\<close>

lemma family_new:
  "family dll h F \<Longrightarrow> l \<in> dom h \<Longrightarrow> l \<notin> footprint F \<Longrightarrow>
   \<exists>h'. init_list_head h l = Inr h' \<and> family dll h' (F(l \<mapsto> [])) \<and> dom h' = dom h"
  using family_init [of h F l] by blast

lemma footprint_new: "footprint (F(l \<mapsto> [])) \<subseteq> insert l (footprint F)"
  by (auto simp: footprint_linked linked_def split: if_splits)

lemma linked_new: "l \<notin> dom F \<Longrightarrow> linked (F(l \<mapsto> [])) H n = linked F H n"
  by (auto simp: linked_def)

lemma own_lists_family:
  assumes fam: "family dll h F" and new: "set (sock_nodes p) \<inter> footprint F = {}"
    and node: "set (sock_nodes p) \<subseteq> dom h"
  shows "\<exists>h'. rbind (init_list_head h (p + OFF_list)) (\<lambda>h.
      rbind (init_list_head h (p + OFF_listen_queue)) (\<lambda>h. init_list_head h (p + OFF_accept_queue))) =
      Inr h' \<and> family dll h' (own_lists p F) \<and> dom h' = dom h"
proof -
  let ?a = "p + OFF_list" and ?b = "p + OFF_listen_queue" and ?c = "p + OFF_accept_queue"
  have n: "?a \<in> dom h" "?b \<in> dom h" "?c \<in> dom h" "?a \<notin> footprint F" "?b \<notin> footprint F" "?c \<notin> footprint F"
    using new node by (auto simp: sock_nodes_def)
  obtain h1 where h1: "init_list_head h ?a = Inr h1" "family dll h1 (F(?a \<mapsto> []))" "dom h1 = dom h"
    using family_new [OF fam n(1,4)] by blast
  have "?b \<in> dom h1" "?b \<notin> footprint (F(?a \<mapsto> []))"
    using footprint_new [of F ?a] n h1(3) by (auto simp: offsets)
  with family_new [OF h1(2)] obtain h2 where h2: "init_list_head h1 ?b = Inr h2"
    "family dll h2 (F(?a \<mapsto> [], ?b \<mapsto> []))" "dom h2 = dom h1" by blast
  have "?c \<in> dom h2" "?c \<notin> footprint (F(?a \<mapsto> [], ?b \<mapsto> []))"
    using subset_trans [OF footprint_new [of "F(?a \<mapsto> [])" ?b] insert_mono [OF footprint_new [of F ?a]]]
      n h1(3) h2(3) by (auto simp: offsets)
  with family_new [OF h2(2)] obtain h3 where h3: "init_list_head h2 ?c = Inr h3"
    "family dll h3 (F(?a \<mapsto> [], ?b \<mapsto> [], ?c \<mapsto> []))" "dom h3 = dom h2" by blast
  from h1(1,3) h2(1,3) h3 show ?thesis by (simp add: own_lists_def)
qed

lemma own_lists_linked:
  assumes "set (sock_nodes p) \<inter> footprint F = {}"
  shows "linked (own_lists p F) H n = linked F H n"
proof -
  have "p + OFF_list \<notin> dom F" "p + OFF_listen_queue \<notin> dom F" "p + OFF_accept_queue \<notin> dom F"
    using assms by (auto simp: sock_nodes_def footprint_linked)
  then show ?thesis by (simp add: own_lists_def linked_new offsets)
qed

lemma own_lists_footprint:
  assumes "set (sock_nodes p) \<inter> footprint F = {}"
  shows "footprint (own_lists p F) = {p + OFF_list, p + OFF_listen_queue, p + OFF_accept_queue} \<union> footprint F"
  using own_lists_linked [OF assms, of UNIV] by (auto simp: footprint_linked own_lists_def)

lemma mem_ok_alloc:
  assumes ok: "mem_ok h D F" and new: "set (sock_nodes p) \<inter> dom h = {}"
    and p: "HEAP_BASE \<le> p" "\<forall>q\<in>D. SOCK_SIZE \<le> \<bar>p - q\<bar>"
  shows "\<exists>h'. rbind (init_list_head (set_nodes (sock_nodes p) (Some v) h) (p + OFF_list)) (\<lambda>h.
      rbind (init_list_head h (p + OFF_listen_queue)) (\<lambda>h. init_list_head h (p + OFF_accept_queue))) =
      Inr h' \<and> mem_ok h' (insert p D) (own_lists p F) \<and> dom h' = set (sock_nodes p) \<union> dom h"
proof -
  let ?h = "set_nodes (sock_nodes p) (Some v) h" and ?F = "own_lists p F"
  have fam: "family dll h F" using ok by (rule mem_ok_family)
  have disj: "set (sock_nodes p) \<inter> footprint F = {}" using footprint_in_dom [OF fam] new by blast
  have dom: "dom ?h = set (sock_nodes p) \<union> dom h"
    by (auto simp: set_nodes_apply dom_def split: if_splits)
  have "family dll ?h F" using fam
    by (rule family_frame) (use disj in \<open>auto simp: set_nodes_apply\<close>)
  from own_lists_family [OF this disj] dom obtain h' where
    h': "rbind (init_list_head ?h (p + OFF_list)) (\<lambda>h.
      rbind (init_list_head h (p + OFF_listen_queue)) (\<lambda>h. init_list_head h (p + OFF_accept_queue))) = Inr h'"
    "family dll h' ?F" "dom h' = set (sock_nodes p) \<union> dom h" by auto
  have "socks_apart h' (insert p D)"
    using ok p h'(3) unfolding mem_ok_def socks_apart_def by (auto simp: abs_minus_commute)
  moreover have "table_ok (insert p D) ?F H off"
    if "table_ok D F H off" "p + off \<in> set (sock_nodes p)" "off \<in> {OFF_hash_list, OFF_bind_hash_list}" for H off
  proof -
    have sep: "q + off \<notin> {p + OFF_list, p + OFF_listen_queue, p + OFF_accept_queue}" if "q \<in> insert p D" for q
      using that p(2) \<open>off \<in> _\<close> by (auto simp: offsets)
    have "p + off \<notin> footprint F" using that(2) disj by blast
    with that(1) sep show ?thesis unfolding table_ok_def
      by (auto simp: own_lists_linked [OF disj] own_lists_footprint [OF disj]) (auto simp: own_lists_def)
  qed
  ultimately have "mem_ok h' (insert p D) ?F"
    using ok h'(2) hash_tab.node_of_sock bind_tab.node_of_sock unfolding mem_ok_def by blast
  with h' show ?thesis by blast
qed

lemma alloc_tcp_sock_ok:
  assumes ok: "mem_ok (nodes st) (dom (socks st)) F" and ready: "alloc_ready st p"
  shows "\<exists>h. alloc_tcp_sock st = Inr (p, st\<lparr>socks := (socks st)(p \<mapsto> fresh_sock), nodes := h,
      mallocs := drop 6 (mallocs st)\<rparr>) \<and>
    mem_ok h (insert p (dom (socks st))) (own_lists p F) \<and> dom h = set (sock_nodes p) \<union> dom (nodes st)"
proof -
  obtain m0 m1 m2 m3 m4 m5 ms where m: "mallocs st = m0 # m1 # m2 # m3 # m4 # m5 # ms"
    using ready by (auto simp: alloc_ready_def numeral_eq_Suc Suc_le_length_iff)
  with ready have nz: "fst m0 = p" "p \<noteq> 0" "fst m1 \<noteq> 0" "fst m2 \<noteq> 0" "fst m3 \<noteq> 0" "fst m4 \<noteq> 0" "fst m5 \<noteq> 0"
    by (auto simp: alloc_ready_def)
  have "set (sock_nodes p) \<inter> dom (nodes st) = {}" "HEAP_BASE \<le> p" "\<forall>q\<in>dom (socks st). SOCK_SIZE \<le> \<bar>p - q\<bar>"
    using ready by (auto simp: alloc_ready_def fresh_block_def)
  from mem_ok_alloc [OF ok this] obtain h where
    h: "rbind (init_list_head (set_nodes (sock_nodes p) (Some \<lparr>nxt = 0, prv = 0\<rparr>) (nodes st)) (p + OFF_list)) (\<lambda>h.
      rbind (init_list_head h (p + OFF_listen_queue)) (\<lambda>h. init_list_head h (p + OFF_accept_queue))) = Inr h"
    "mem_ok h (insert p (dom (socks st))) (own_lists p F)" "dom h = set (sock_nodes p) \<union> dom (nodes st)"
    by blast
  from h(1) have "alloc_tcp_sock st = Inr (p, st\<lparr>socks := (socks st)(p \<mapsto> fresh_sock), nodes := h,
      mallocs := ms\<rparr>)"
    using m nz by (cases m0; cases m1; cases m2; cases m3; cases m4; cases m5)
      (auto simp: alloc_tcp_sock_def malloc_def on_nodes_def malloc_part_def rbind_Inr_iff)
  with h m show ?thesis by auto
qed

end
