(* ===== verification/Tcp_Tables.thy ===== *)
theory Tcp_Tables
  imports Stack_Inv
begin

text \<open>
  The socket tables of \<^verbatim>\<open>tcp_sock.c\<close>: lookup in the established and the listen
  table, the bind table and the choice of ports, hashing and unhashing.
\<close>

section \<open>Lookup\<close>

text \<open>The socket a node of a table belongs to, when the loop names the right member.\<close>

definition hash_entry :: "addr \<Rightarrow> addr" where
  "hash_entry n = list_entry n OFF_hash_list"

definition found_sock :: "addr option \<Rightarrow> addr" where
  "found_sock r = (case r of None \<Rightarrow> 0 | Some n \<Rightarrow> hash_entry n)"

definition tcp_sock_lookup_established :: "stack \<Rightarrow> u32 \<Rightarrow> u32 \<Rightarrow> u16 \<Rightarrow> u16 \<Rightarrow> addr res" where
  "tcp_sock_lookup_established st saddr daddr sport dport =
     (let hash = tcp_hash_function saddr daddr sport dport in
      rbind (list_find (nodes st) (established_table hash) (\<lambda>n.
        rbind (rd_sock st (hash_entry n)) (\<lambda>tmp.
        Inr (sk_sip tmp = saddr \<and> sk_sport tmp = sport \<and> sk_dip tmp = daddr \<and> sk_dport tmp = dport))))
      (\<lambda>r. Inr (found_sock r)))"

definition tcp_sock_lookup_listen :: "stack \<Rightarrow> u32 \<Rightarrow> u16 \<Rightarrow> addr res" where
  "tcp_sock_lookup_listen st saddr sport =
     (let hash = tcp_hash_function 0 0 sport 0 in
      rbind (list_find (nodes st) (listen_table hash) (\<lambda>n.
        rbind (rd_sock st (hash_entry n)) (\<lambda>tmp. Inr (sk_sport tmp = sport))))
      (\<lambda>r. Inr (found_sock r)))"

definition tcp_sock_lookup :: "stack \<Rightarrow> tcp_cb \<Rightarrow> addr res" where
  "tcp_sock_lookup st cb =
     (let saddr = cb_daddr cb; daddr = cb_saddr cb; sport = cb_dport cb; dport = cb_sport cb in
      rbind (tcp_sock_lookup_established st saddr daddr sport dport) (\<lambda>tsk.
      if tsk = 0 then tcp_sock_lookup_listen st saddr sport else Inr tsk))"

section \<open>The bind table\<close>

definition tcp_bind_hash :: "stack \<Rightarrow> addr \<Rightarrow> (int \<times> stack) res" where
  "tcp_bind_hash st tsk =
     rbind (rd_sock st tsk) (\<lambda>sk.
     let bind_hash_value = tcp_hash_function 0 0 (sk_sport sk) 0 in
     rbind (on_nodes st (\<lambda>h. list_add_head h (tsk + OFF_bind_hash_list) (bind_table bind_hash_value))) (\<lambda>st.
     rbind (tcp_sock_inc_ref_cnt st tsk) (\<lambda>st. Inr (0, st))))"

definition tcp_bind_unhash :: "stack \<Rightarrow> addr \<Rightarrow> stack res" where
  "tcp_bind_unhash st tsk =
     rbind (list_empty (nodes st) (tsk + OFF_bind_hash_list)) (\<lambda>empty.
     if \<not> empty
     then rbind (on_nodes st (\<lambda>h. list_delete_entry h (tsk + OFF_bind_hash_list))) (\<lambda>st.
          free_tcp_sock st tsk)
     else Inr st)"

text \<open>
  \<^verbatim>\<open>p->sk_sport\<close> for a pointer that need not point to the start of a socket. The two
  bytes at offset 4 of a pointer 16 bytes into a socket are bytes 4 and 5 of that socket's
  \<^verbatim>\<open>parent\<close> pointer.
\<close>

definition sport_through :: "stack \<Rightarrow> addr \<Rightarrow> u16 res" where
  "sport_through st p =
     (case socks st p of
        Some sk \<Rightarrow> Inr (sk_sport sk)
      | None \<Rightarrow>
          (case socks st (p - 16) of
             Some sk \<Rightarrow> Inr (word_of_int (sk_parent sk div 2 ^ 32))
           | None \<Rightarrow> Inl Wild_Pointer))"

text \<open>
  The loop runs over the bind table, whose nodes are \<^verbatim>\<open>bind_hash_list\<close> members, but
  names the member \<^verbatim>\<open>hash_list\<close>: every node is taken for a socket 16 bytes too high.
\<close>

definition tcp_port_in_use :: "stack \<Rightarrow> u16 \<Rightarrow> bool res" where
  "tcp_port_in_use st sport =
     (let v = tcp_hash_function 0 0 sport 0 in
      rbind (list_find (nodes st) (bind_table v) (\<lambda>n.
        rbind (sport_through st (list_entry n OFF_hash_list)) (\<lambda>p. Inr (p = sport))))
      (\<lambda>r. Inr (r \<noteq> None)))"

definition PORT_MIN :: nat where "PORT_MIN = 12345"
definition PORT_MAX :: nat where "PORT_MAX = 23456"

function tcp_get_port_from :: "stack \<Rightarrow> nat \<Rightarrow> u16 res" where
  "tcp_get_port_from st port =
     (if port < PORT_MAX
      then rbind (tcp_port_in_use st (word_of_nat port)) (\<lambda>used.
           if \<not> used then Inr (word_of_nat port) else tcp_get_port_from st (Suc port))
      else Inr 0)"
  by pat_completeness auto
termination
  by (relation "measure (\<lambda>(st, port). PORT_MAX - port)") auto

declare tcp_get_port_from.simps [simp del]

definition tcp_get_port :: "stack \<Rightarrow> u16 res" where
  "tcp_get_port st = tcp_get_port_from st PORT_MIN"

definition tcp_sock_set_sport :: "stack \<Rightarrow> addr \<Rightarrow> u16 \<Rightarrow> (int \<times> stack) res" where
  "tcp_sock_set_sport st tsk port =
     rbind (if port \<noteq> 0
            then rbind (tcp_port_in_use st port) (\<lambda>used. Inr (if used then None else Some port))
            else rbind (tcp_get_port st) (\<lambda>p. Inr (if p = 0 then None else Some p)))
       (\<lambda>choice. case choice of
          None \<Rightarrow> Inr (- 1, st)
        | Some port \<Rightarrow>
            rbind (upd_sock st tsk (\<lambda>sk. sk\<lparr>sk_sport := port\<rparr>)) (\<lambda>st.
            rbind (tcp_bind_hash st tsk) (\<lambda>(_, st). Inr (0, st))))"

section \<open>Hashing and unhashing\<close>

definition tcp_hash :: "stack \<Rightarrow> addr \<Rightarrow> (int \<times> stack) res" where
  "tcp_hash st tsk =
     rbind (rd_sock st tsk) (\<lambda>sk.
     if sk_state sk = TCP_CLOSED then Inr (- 1, st)
     else
       rbind
         (if sk_state sk = TCP_LISTEN
          then Inr (Some (listen_table (tcp_hash_function 0 0 (sk_sport sk) 0)))
          else
            let tab = established_table (tcp_hash_function (sk_sip sk) (sk_dip sk) (sk_sport sk) (sk_dport sk)) in
            rbind (list_find (nodes st) tab (\<lambda>n.
              rbind (rd_sock st (hash_entry n)) (\<lambda>tmp.
              Inr (sk_sip sk = sk_sip tmp \<and> sk_dip sk = sk_dip tmp \<and>
                   sk_sport sk = sk_sport tmp \<and> sk_dport sk = sk_dport tmp))))
            (\<lambda>r. Inr (if r \<noteq> None then None else Some tab)))
         (\<lambda>where_to. case where_to of
            None \<Rightarrow> Inr (- 1, st)
          | Some tab \<Rightarrow>
              rbind (on_nodes st (\<lambda>h. list_add_head h (tsk + OFF_hash_list) tab)) (\<lambda>st.
              rbind (tcp_sock_inc_ref_cnt st tsk) (\<lambda>st. Inr (0, st)))))"

definition tcp_unhash :: "stack \<Rightarrow> addr \<Rightarrow> stack res" where
  "tcp_unhash st tsk =
     rbind (list_empty (nodes st) (tsk + OFF_hash_list)) (\<lambda>empty.
     if \<not> empty
     then rbind (on_nodes st (\<lambda>h. list_delete_entry h (tsk + OFF_hash_list))) (\<lambda>st.
          free_tcp_sock st tsk)
     else Inr st)"

section \<open>The invariant of the stack\<close>

text \<open>
  Keys. A socket in the established table lies in the bucket of its four key values and no
  other socket of the bucket has the same; a listening socket lies in the bucket of its port.
\<close>

type_synonym key = "u32 \<times> u32 \<times> u16 \<times> u16"

definition sock_key :: "tcp_sock \<Rightarrow> key" where
  "sock_key sk = (sk_sip sk, sk_dip sk, sk_sport sk, sk_dport sk)"

fun key_bucket :: "key \<Rightarrow> nat" where
  "key_bucket (sip, dip, sport, dport) = tcp_hash_function sip dip sport dport"

definition est_heads :: "addr set" where
  "est_heads = established_table ` {..<TCP_HASH_SIZE}"

definition listen_heads :: "addr set" where
  "listen_heads = listen_table ` {..<TCP_HASH_SIZE}"

definition keys_ok :: "(addr \<Rightarrow> tcp_sock option) \<Rightarrow> (addr \<Rightarrow> addr list option) \<Rightarrow> bool" where
  "keys_ok S F \<longleftrightarrow>
     (\<forall>i<TCP_HASH_SIZE. \<forall>ns. F (established_table i) = Some ns \<longrightarrow>
        (\<forall>n\<in>set ns. \<forall>sk. S (hash_entry n) = Some sk \<longrightarrow> key_bucket (sock_key sk) = i) \<and>
        inj_on (\<lambda>n. map_option sock_key (S (hash_entry n))) (set ns)) \<and>
     (\<forall>i<TCP_HASH_SIZE. \<forall>ns. F (listen_table i) = Some ns \<longrightarrow>
        (\<forall>n\<in>set ns. \<forall>sk. S (hash_entry n) = Some sk \<longrightarrow> tcp_hash_function 0 0 (sk_sport sk) 0 = i))"

text \<open>
  The reference count of a socket is the number of tables it is in, less one when the
  application has closed the connection: \<^verbatim>\<open>tcp_sock_close\<close> drops a reference and leaves
  the socket in both tables. A bound socket has a port and was not created for an incoming
  connection; a closed one is not hashed.
\<close>

definition gave_up :: "tcp_sock \<Rightarrow> bool" where
  "gave_up sk \<longleftrightarrow> sk_state sk \<in> {TCP_FIN_WAIT_1, TCP_LAST_ACK}"

definition sock_ok :: "(addr \<Rightarrow> addr list option) \<Rightarrow> addr \<Rightarrow> tcp_sock \<Rightarrow> bool" where
  "sock_ok F p sk \<longleftrightarrow>
     (if gave_up sk then hashed F p \<and> bound F p \<and> ref_cnt sk = 1
      else ref_cnt sk = of_bool (hashed F p) + of_bool (bound F p)) \<and>
     (bound F p \<longrightarrow> sk_parent sk = 0 \<and> sk_sport sk \<noteq> 0) \<and>
     (hashed F p \<longrightarrow> sk_state sk \<noteq> TCP_CLOSED)"

definition stack_ok :: "stack \<Rightarrow> (addr \<Rightarrow> addr list option) \<Rightarrow> bool" where
  "stack_ok st F \<longleftrightarrow>
     mem_ok (nodes st) (dom (socks st)) F \<and> keys_ok (socks st) F \<and>
     (\<forall>p sk. socks st p = Some sk \<longrightarrow> sock_ok F p sk)"

lemma gave_up_upd [simp]:
  "gave_up (sk\<lparr>ref_cnt := n\<rparr>) = gave_up sk" "gave_up (sk\<lparr>snd_nxt := m\<rparr>) = gave_up sk"
  "gave_up (sk\<lparr>sk_sport := port\<rparr>) = gave_up sk" "gave_up (sk\<lparr>wait_connect := w\<rparr>) = gave_up sk"
  "gave_up (sk\<lparr>sk_dip := ip\<rparr>) = gave_up sk" "gave_up (sk\<lparr>sk_sip := ip\<rparr>) = gave_up sk"
  "gave_up (sk\<lparr>sk_dport := port\<rparr>) = gave_up sk"
  by (simp_all add: gave_up_def)

section \<open>Lookup in a sound stack\<close>

lemma stack_okD:
  assumes "stack_ok st F"
  shows "mem_ok (nodes st) (dom (socks st)) F" "keys_ok (socks st) F"
    "socks st p = Some sk \<Longrightarrow> sock_ok F p sk"
  using assms by (auto simp: stack_ok_def)

lemma key_bucket_less: "key_bucket k < TCP_HASH_SIZE"
  by (cases k) (simp add: hash_bucket_less)

lemma keys_ok_inj:
  "keys_ok S F \<Longrightarrow> i < TCP_HASH_SIZE \<Longrightarrow> F (established_table i) = Some ns \<Longrightarrow>
   inj_on (\<lambda>n. map_option sock_key (S (hash_entry n))) (set ns)"
  by (simp add: keys_ok_def)

lemma hash_heads_split: "hash_heads = est_heads \<union> listen_heads"
  by (simp add: hash_heads_def est_heads_def listen_heads_def)

lemma bucket_sock:
  assumes "stack_ok st F" "l \<in> hash_heads" "F l = Some ns" "n \<in> set ns"
  shows "\<exists>sk. socks st (hash_entry n) = Some sk"
  using assms bucket_member [of "dom (socks st)" F hash_heads OFF_hash_list l ns n]
  by (auto simp: stack_ok_def mem_ok_def hash_entry_def list_entry_def)

text \<open>A search of a bucket by a test of the socket that a node belongs to.\<close>

lemma bucket_find:
  assumes ok: "stack_ok st F" and l: "l \<in> hash_heads" "F l = Some ns"
  shows "list_find (nodes st) l (\<lambda>n. rbind (rd_sock st (hash_entry n)) (\<lambda>sk. Inr (P sk))) =
    Inr (find (\<lambda>n. P (the (socks st (hash_entry n)))) ns)"
proof (rule lists.search_law)
  show "dll (nodes st) l ns"
    using lists.family_list mem_ok_family [OF stack_okD(1) [OF ok]] l(2) by blast
  show "rbind (rd_sock st (hash_entry n)) (\<lambda>sk. Inr (P sk)) = Inr (P (the (socks st (hash_entry n))))"
    if "n \<in> set ns" for n
    using bucket_sock [OF ok l that] by (auto simp: rd_sock_def)
qed

lemma hash_bucket_list:
  assumes "stack_ok st F"
  shows "\<exists>ns. F (established_table (tcp_hash_function a b c d)) = Some ns"
    "\<exists>ns. F (listen_table (tcp_hash_function a b c d)) = Some ns"
    "\<exists>ns. F (bind_table (tcp_hash_function a b c d)) = Some ns"
  using mem_ok_bucket [OF stack_okD(1) [OF assms]] by auto

lemma hash_entry_off [simp]: "hash_entry (p + OFF_hash_list) = p"
  by (simp add: hash_entry_def list_entry_def)

lemma hash_entry_inv: "hash_entry n = p \<longleftrightarrow> n = p + OFF_hash_list"
  by (auto simp: hash_entry_def list_entry_def)

lemma sock_nonzero: "stack_ok st F \<Longrightarrow> socks st p = Some sk \<Longrightarrow> p \<noteq> 0"
  using mem_ok_low [OF stack_okD(1) domI, of st F p sk] by (auto simp: HEAP_BASE_def)

text \<open>Being in the established table is being in the one bucket the key selects.\<close>

lemma established_iff:
  assumes ok: "stack_ok st F" and sk: "socks st p = Some sk"
  shows "linked F est_heads (p + OFF_hash_list) \<longleftrightarrow>
    (\<exists>ns. F (established_table (key_bucket (sock_key sk))) = Some ns \<and> p + OFF_hash_list \<in> set ns)"
proof
  assume "linked F est_heads (p + OFF_hash_list)"
  then obtain i ns where i: "i < TCP_HASH_SIZE" "F (established_table i) = Some ns" "p + OFF_hash_list \<in> set ns"
    by (auto simp: linked_def est_heads_def)
  with stack_okD(2) [OF ok] sk have "key_bucket (sock_key sk) = i"
    unfolding keys_ok_def by (metis hash_entry_off)
  with i show "\<exists>ns. F (established_table (key_bucket (sock_key sk))) = Some ns \<and> p + OFF_hash_list \<in> set ns"
    by blast
next
  assume "\<exists>ns. F (established_table (key_bucket (sock_key sk))) = Some ns \<and> p + OFF_hash_list \<in> set ns"
  moreover have "established_table (key_bucket (sock_key sk)) \<in> est_heads"
    by (simp add: est_heads_def sock_key_def hash_bucket_less)
  ultimately show "linked F est_heads (p + OFF_hash_list)" by (auto simp: linked_def)
qed

lemma listen_iff:
  assumes ok: "stack_ok st F" and sk: "socks st p = Some sk"
  shows "linked F listen_heads (p + OFF_hash_list) \<longleftrightarrow>
    (\<exists>ns. F (listen_table (tcp_hash_function 0 0 (sk_sport sk) 0)) = Some ns \<and> p + OFF_hash_list \<in> set ns)"
proof
  assume "linked F listen_heads (p + OFF_hash_list)"
  then obtain i ns where i: "i < TCP_HASH_SIZE" "F (listen_table i) = Some ns" "p + OFF_hash_list \<in> set ns"
    by (auto simp: linked_def listen_heads_def)
  with stack_okD(2) [OF ok] sk have "tcp_hash_function 0 0 (sk_sport sk) 0 = i"
    unfolding keys_ok_def by (metis hash_entry_off)
  with i show "\<exists>ns. F (listen_table (tcp_hash_function 0 0 (sk_sport sk) 0)) = Some ns \<and> p + OFF_hash_list \<in> set ns"
    by blast
next
  assume "\<exists>ns. F (listen_table (tcp_hash_function 0 0 (sk_sport sk) 0)) = Some ns \<and> p + OFF_hash_list \<in> set ns"
  moreover have "listen_table (tcp_hash_function 0 0 (sk_sport sk) 0) \<in> listen_heads"
    by (simp add: listen_heads_def hash_bucket_less)
  ultimately show "linked F listen_heads (p + OFF_hash_list)" by (auto simp: linked_def)
qed

definition connected :: "stack \<Rightarrow> (addr \<Rightarrow> addr list option) \<Rightarrow> key \<Rightarrow> addr \<Rightarrow> bool" where
  "connected st F k p \<longleftrightarrow>
     (\<exists>sk. socks st p = Some sk \<and> sock_key sk = k \<and> linked F est_heads (p + OFF_hash_list))"

definition listening :: "stack \<Rightarrow> (addr \<Rightarrow> addr list option) \<Rightarrow> u16 \<Rightarrow> addr \<Rightarrow> bool" where
  "listening st F port p \<longleftrightarrow>
     (\<exists>sk. socks st p = Some sk \<and> sk_sport sk = port \<and> linked F listen_heads (p + OFF_hash_list))"

lemma find_connected:
  assumes ok: "stack_ok st F" and ns: "F (established_table (key_bucket k)) = Some ns"
  shows "connected st F k q \<longleftrightarrow>
    find (\<lambda>n. sock_key (the (socks st (hash_entry n))) = k) ns = Some (q + OFF_hash_list)"
    (is "_ \<longleftrightarrow> find ?P ns = _")
proof
  assume "connected st F k q"
  then obtain sk where q: "socks st q = Some sk" "sock_key sk = k" "q + OFF_hash_list \<in> set ns"
    using established_iff [OF ok] ns unfolding connected_def by fastforce
  then have "find ?P ns \<noteq> None" by (auto simp: find_None_iff)
  then obtain n where n: "find ?P ns = Some n" by blast
  then have n': "n \<in> set ns" "?P n" by (auto simp: find_Some_iff)
  have l: "established_table (key_bucket k) \<in> hash_heads" by (cases k) simp
  have inj: "inj_on (\<lambda>n. map_option sock_key (socks st (hash_entry n))) (set ns)"
    using keys_ok_inj [OF stack_okD(2) [OF ok] key_bucket_less ns] .
  obtain sk' where "socks st (hash_entry n) = Some sk'"
    using bucket_sock [OF ok l ns n'(1)] by blast
  with n'(2) q(1,2) have "n = q + OFF_hash_list" by (intro inj_onD [OF inj _ n'(1) q(3)]) simp
  with n show "find ?P ns = Some (q + OFF_hash_list)" by simp
next
  assume f: "find ?P ns = Some (q + OFF_hash_list)"
  then have m: "q + OFF_hash_list \<in> set ns" "sock_key (the (socks st q)) = k"
    using find_SomeD [OF f] by auto
  have l: "established_table (key_bucket k) \<in> hash_heads" by (cases k) simp
  from bucket_sock [OF ok l ns m(1)] obtain sk where "socks st q = Some sk" by auto
  with m ns established_iff [OF ok this] show "connected st F k q" by (auto simp: connected_def)
qed

lemma lookup_established_find:
  assumes ok: "stack_ok st F" and ns: "F (established_table (tcp_hash_function sip dip sport dport)) = Some ns"
  shows "tcp_sock_lookup_established st sip dip sport dport = Inr (found_sock
    (find (\<lambda>n. sock_key (the (socks st (hash_entry n))) = (sip, dip, sport, dport)) ns))"
proof -
  have eq: "(sk_sip sk = sip \<and> sk_sport sk = sport \<and> sk_dip sk = dip \<and> sk_dport sk = dport) =
      (sock_key sk = (sip, dip, sport, dport))" for sk
    by (auto simp: sock_key_def)
  from bucket_find [OF ok _ ns, of "\<lambda>sk. sock_key sk = (sip, dip, sport, dport)"]
  show ?thesis unfolding tcp_sock_lookup_established_def Let_def eq by simp
qed

lemma lookup_listen_find:
  assumes ok: "stack_ok st F" and ns: "F (listen_table (tcp_hash_function 0 0 sport 0)) = Some ns"
  shows "tcp_sock_lookup_listen st sip sport = Inr (found_sock
    (find (\<lambda>n. sk_sport (the (socks st (hash_entry n))) = sport) ns))"
  using bucket_find [OF ok _ ns, of "\<lambda>sk. sk_sport sk = sport"]
  by (simp add: tcp_sock_lookup_listen_def)

lemma found_sock_eq: "found_sock r = p \<Longrightarrow> p \<noteq> 0 \<Longrightarrow> r = Some (p + OFF_hash_list)"
  by (auto simp: found_sock_def hash_entry_def list_entry_def split: option.splits)

lemma lookup_established_iff:
  assumes "stack_ok st F"
  shows "\<exists>p. tcp_sock_lookup_established st sip dip sport dport = Inr p \<and>
    (\<forall>q. connected st F (sip, dip, sport, dport) q \<longleftrightarrow> q = p \<and> p \<noteq> 0)"
proof -
  obtain ns where ns: "F (established_table (tcp_hash_function sip dip sport dport)) = Some ns"
    using hash_bucket_list(1) [OF assms] by blast
  let ?r = "find (\<lambda>n. sock_key (the (socks st (hash_entry n))) = (sip, dip, sport, dport)) ns"
  have C: "connected st F (sip, dip, sport, dport) q \<longleftrightarrow> ?r = Some (q + OFF_hash_list)" for q
    using find_connected [OF assms, of "(sip, dip, sport, dport)"] ns by simp
  have nz: "q \<noteq> 0" if "connected st F (sip, dip, sport, dport) q" for q
    using that sock_nonzero [OF assms] unfolding connected_def by blast
  have "connected st F (sip, dip, sport, dport) q \<longleftrightarrow> q = found_sock ?r \<and> found_sock ?r \<noteq> 0" for q
  proof
    assume c: "connected st F (sip, dip, sport, dport) q"
    with C nz show "q = found_sock ?r \<and> found_sock ?r \<noteq> 0" by (simp add: found_sock_def)
  next
    assume "q = found_sock ?r \<and> found_sock ?r \<noteq> 0"
    then have "?r = Some (q + OFF_hash_list)" by (intro found_sock_eq) simp_all
    then show "connected st F (sip, dip, sport, dport) q" by (simp only: C)
  qed
  with lookup_established_find [OF assms ns] show ?thesis by (intro exI conjI) blast+
qed

lemma lookup_listen_iff:
  assumes ok: "stack_ok st F"
  shows "\<exists>p. tcp_sock_lookup_listen st sip sport = Inr p \<and>
    (p = 0 \<longrightarrow> (\<forall>q. \<not> listening st F sport q)) \<and> (p \<noteq> 0 \<longrightarrow> listening st F sport p)"
proof -
  obtain ns where ns: "F (listen_table (tcp_hash_function 0 0 sport 0)) = Some ns"
    using hash_bucket_list(2) [OF assms] by blast
  let ?P = "\<lambda>n. sk_sport (the (socks st (hash_entry n))) = sport"
  let ?p = "found_sock (find ?P ns)"
  have sound: "listening st F sport ?p" if "?p \<noteq> 0"
  proof -
    from found_sock_eq [OF refl that] have f: "find ?P ns = Some (?p + OFF_hash_list)" .
    from find_SomeD [OF f] have m: "?p + OFF_hash_list \<in> set ns" "sk_sport (the (socks st ?p)) = sport"
      by (metis hash_entry_off)+
    from bucket_sock [OF ok head_in_heads(2) ns m(1)] obtain sk where "socks st ?p = Some sk" by auto
    with m ns listen_iff [OF ok this] show ?thesis by (auto simp: listening_def)
  qed
  have complete: "?p \<noteq> 0" if l: "listening st F sport q" for q
  proof -
    from l obtain sk where q: "socks st q = Some sk" "sk_sport sk = sport" "q + OFF_hash_list \<in> set ns"
      using listen_iff [OF ok] ns unfolding listening_def by fastforce
    then have "?P (q + OFF_hash_list)" by simp
    with find_hit [OF q(3), of ?P] obtain n where n: "find ?P ns = Some n" "n \<in> set ns" by blast
    from bucket_sock [OF ok head_in_heads(2) ns n(2)] sock_nonzero [OF ok] n(1) show ?thesis
      by (auto simp: found_sock_def)
  qed
  from lookup_listen_find [OF ok ns] sound complete show ?thesis by blast
qed

lemma tcp_sock_lookup_hashed:
  assumes ok: "stack_ok st F" and found: "tcp_sock_lookup st cb = Inr p" and p: "socks st p = Some sk"
  shows "hashed F p"
proof -
  let ?k = "(cb_daddr cb, cb_saddr cb, cb_dport cb, cb_sport cb)"
  obtain e where e: "tcp_sock_lookup_established st (cb_daddr cb) (cb_saddr cb) (cb_dport cb) (cb_sport cb) = Inr e"
    "\<forall>q. connected st F ?k q \<longleftrightarrow> q = e \<and> e \<noteq> 0" using lookup_established_iff [OF ok] by blast
  obtain l where l: "tcp_sock_lookup_listen st (cb_daddr cb) (cb_dport cb) = Inr l" "l \<noteq> 0 \<longrightarrow> listening st F (cb_dport cb) l"
    using lookup_listen_iff [OF ok] by blast
  have "connected st F ?k p \<or> listening st F (cb_dport cb) p"
    using found e l sock_nonzero [OF ok p] by (auto simp: tcp_sock_lookup_def Let_def split: if_splits)
  then show ?thesis by (auto simp: connected_def listening_def hashed_def hash_heads_split linked_def)
qed

lemma lookup_nothing:
  assumes ok: "stack_ok st F" and none: "tcp_sock_lookup st cb = Inr 0"
  shows "\<not> connected st F (cb_daddr cb, cb_saddr cb, cb_dport cb, cb_sport cb) q" "\<not> listening st F (cb_dport cb) q"
proof -
  obtain p where p: "tcp_sock_lookup_established st (cb_daddr cb) (cb_saddr cb) (cb_dport cb) (cb_sport cb) = Inr p"
    "\<forall>q. connected st F (cb_daddr cb, cb_saddr cb, cb_dport cb, cb_sport cb) q \<longleftrightarrow> q = p \<and> p \<noteq> 0"
    using lookup_established_iff [OF ok] by blast
  obtain r where r: "tcp_sock_lookup_listen st (cb_daddr cb) (cb_dport cb) = Inr r"
    "r = 0 \<longrightarrow> (\<forall>q. \<not> listening st F (cb_dport cb) q)"
    using lookup_listen_iff [OF ok] by blast
  have "p = 0" "r = 0" using none p(1) r(1) by (auto simp: tcp_sock_lookup_def split: if_splits)
  with p(2) r(2) show "\<not> connected st F (cb_daddr cb, cb_saddr cb, cb_dport cb, cb_sport cb) q" "\<not> listening st F (cb_dport cb) q"
    by simp_all
qed

section \<open>Changing a sound stack\<close>

text \<open>The keys are sound as long as the buckets and the keys of what they link stay.\<close>

lemma keys_ok_cong:
  assumes K: "keys_ok S F" and F: "\<And>l. l \<in> hash_heads \<Longrightarrow> F' l = F l"
    and key: "\<And>n. linked F hash_heads n \<Longrightarrow>
      map_option sock_key (S' (hash_entry n)) = map_option sock_key (S (hash_entry n))"
  shows "keys_ok S' F'"
  unfolding keys_ok_def
proof (intro conjI allI impI ballI)
  fix i ns assume i: "i < TCP_HASH_SIZE" and "F' (established_table i) = Some ns"
  have l: "established_table i \<in> hash_heads" using i by (auto simp: hash_heads_def)
  with \<open>F' (established_table i) = Some ns\<close> F have ns: "F (established_table i) = Some ns" by simp
  have key': "map_option sock_key (S' (hash_entry n)) = map_option sock_key (S (hash_entry n))"
    if "n \<in> set ns" for n
    using l ns that by (intro key) (auto simp: linked_def)
  then show "inj_on (\<lambda>n. map_option sock_key (S' (hash_entry n))) (set ns)"
    using keys_ok_inj [OF K i ns] by (simp cong: inj_on_cong)
  fix n sk1 assume n: "n \<in> set ns" and "S' (hash_entry n) = Some sk1"
  then obtain sk0 where "S (hash_entry n) = Some sk0" "sock_key sk0 = sock_key sk1"
    using key' [OF n] by (cases "S (hash_entry n)") auto
  with K i ns n show "key_bucket (sock_key sk1) = i" unfolding keys_ok_def by metis
next
  fix i ns n sk1 assume i: "i < TCP_HASH_SIZE" and "F' (listen_table i) = Some ns"
    and n: "n \<in> set ns" and "S' (hash_entry n) = Some sk1"
  have l: "listen_table i \<in> hash_heads" using i by (auto simp: hash_heads_def)
  with \<open>F' (listen_table i) = Some ns\<close> F have ns: "F (listen_table i) = Some ns" by simp
  have "linked F hash_heads n" using l ns n by (auto simp: linked_def)
  from key [OF this] \<open>S' (hash_entry n) = Some sk1\<close> obtain sk0 where
    "S (hash_entry n) = Some sk0" "sock_key sk0 = sock_key sk1" by (cases "S (hash_entry n)") auto
  moreover from this(2) have "sk_sport sk0 = sk_sport sk1" by (simp add: sock_key_def)
  ultimately show "tcp_hash_function 0 0 (sk_sport sk1) 0 = i"
    using K i ns n unfolding keys_ok_def by metis
qed

text \<open>A change of a socket that keeps its key while it is hashed.\<close>

lemma keys_ok_upd:
  assumes "keys_ok S F" "S p = Some sk" "linked F hash_heads (p + OFF_hash_list) \<longrightarrow> sock_key sk' = sock_key sk"
  shows "keys_ok (S(p \<mapsto> sk')) F"
  using assms(1)
proof (rule keys_ok_cong)
  show "map_option sock_key ((S(p \<mapsto> sk')) (hash_entry n)) = map_option sock_key (S (hash_entry n))"
    if "linked F hash_heads n" for n
    using that assms(2,3) by (cases "hash_entry n = p") (auto simp: hash_entry_inv)
qed simp

text \<open>One socket is replaced while the tables change for it alone.\<close>

lemma sock_ok_moved:
  assumes "\<And>q sk. S q = Some sk \<Longrightarrow> sock_ok F q sk" "sock_ok F' p sk'" "(S(p \<mapsto> sk')) q = Some sk"
    "\<And>q. q \<noteq> p \<Longrightarrow> hashed F' q = hashed F q" "\<And>q. q \<noteq> p \<Longrightarrow> bound F' q = bound F q"
  shows "sock_ok F' q sk"
proof (cases "q = p")
  case True
  with assms(2,3) show ?thesis by simp
next
  case False
  with assms(1) [of q sk] assms(3-5) show ?thesis by (simp add: sock_ok_def)
qed

lemma stack_ok_upd:
  assumes ok: "stack_ok st F" and sk: "socks st p = Some sk"
    and key: "hashed F p \<longrightarrow> sock_key sk' = sock_key sk" and new: "sock_ok F p sk'"
  shows "stack_ok (st\<lparr>socks := (socks st)(p \<mapsto> sk')\<rparr>) F"
proof -
  have "dom ((socks st)(p \<mapsto> sk')) = dom (socks st)" using sk by auto
  moreover have "keys_ok ((socks st)(p \<mapsto> sk')) F"
    using keys_ok_upd [OF stack_okD(2) [OF ok] sk] key by (simp add: hashed_def)
  ultimately show ?thesis using ok new by (simp add: stack_ok_def)
qed

lemma stack_ok_more [simp]: "stack_ok (st\<lparr>mallocs := ms\<rparr>) F = stack_ok st F"
  "stack_ok (st\<lparr>sent := ps\<rparr>) F = stack_ok st F"
  by (simp_all add: stack_ok_def)

text \<open>A static list head is initialised, or initialised again while the list is empty.\<close>

lemma stack_ok_new_list:
  assumes ok: "stack_ok st F" and l: "nodes st l \<noteq> None" "l \<in> footprint F \<longrightarrow> F l = Some []"
    and low: "l < HEAP_BASE" "l \<notin> hash_heads \<union> bind_heads"
  shows "\<exists>h. init_list_head (nodes st) l = Inr h \<and> stack_ok (st\<lparr>nodes := h\<rparr>) (F(l \<mapsto> []))"
proof -
  let ?F = "F(l \<mapsto> [])"
  have mem: "mem_ok (nodes st) (dom (socks st)) F" using stack_okD(1) [OF ok] .
  obtain h where h: "init_list_head (nodes st) l = Inr h" "family dll h ?F" "dom h = dom (nodes st)"
    using family_init [OF mem_ok_family [OF mem] l] by blast
  have L: "linked ?F H n = linked F H n" if "l \<notin> H" for H n using that by (auto simp: linked_def split: if_splits)
  have "p + off \<in> footprint F" if "p + off \<in> footprint ?F" "p \<in> dom (socks st)" "0 \<le> off" for p off
    using that footprint_new [of F l] mem_ok_low [OF mem, of p] low(1) by fastforce
  then have "table_ok (dom (socks st)) ?F hash_heads OFF_hash_list" "table_ok (dom (socks st)) ?F bind_heads OFF_bind_hash_list"
    using mem low(2) by (auto simp: mem_ok_def table_ok_def L offsets)
  then have "mem_ok h (dom (socks st)) ?F" using mem h(2,3) by (simp add: mem_ok_def socks_apart_dom [OF h(3)])
  moreover have "keys_ok (socks st) ?F" using stack_okD(2) [OF ok] by (rule keys_ok_cong) (use low(2) in auto)
  moreover have "hashed ?F q = hashed F q" "bound ?F q = bound F q" for q
    using low(2) L by (simp_all add: hashed_def bound_def)
  then have "sock_ok ?F q sk = sock_ok F q sk" for q sk by (simp add: sock_ok_def)
  ultimately have "stack_ok (st\<lparr>nodes := h\<rparr>) ?F" using ok by (simp add: stack_ok_def)
  with h(1) show ?thesis by blast
qed

text \<open>Linking a socket into the bind table and counting the reference.\<close>

lemma keys_ok_bind: "l \<in> bind_heads \<Longrightarrow> keys_ok S F \<Longrightarrow> keys_ok S (F(l \<mapsto> ns))"
  by (erule keys_ok_cong) (use heads_disjoint in auto)

lemma tcp_bind_hash_ok:
  assumes ok: "stack_ok st F" and sk: "socks st p = Some sk" and new: "\<not> bound F p"
    and port: "sk_sport sk \<noteq> 0" "sk_parent sk = 0"
  shows "\<exists>h F'. tcp_bind_hash st p = Inr (0, st\<lparr>nodes := h,
      socks := (socks st)(p \<mapsto> sk\<lparr>ref_cnt := ref_cnt sk + 1\<rparr>)\<rparr>) \<and>
    stack_ok (st\<lparr>nodes := h, socks := (socks st)(p \<mapsto> sk\<lparr>ref_cnt := ref_cnt sk + 1\<rparr>)\<rparr>) F' \<and>
    (\<forall>q. hashed F' q = hashed F q) \<and> (\<forall>q. bound F' q \<longleftrightarrow> q = p \<or> bound F q) \<and>
    (\<forall>l. l \<notin> bind_heads \<longrightarrow> F' l = F l) \<and> dom h = dom (nodes st)"
proof -
  let ?l = "bind_table (tcp_hash_function 0 0 (sk_sport sk) 0)"
  let ?sk = "sk\<lparr>ref_cnt := ref_cnt sk + 1\<rparr>"
  obtain ns where ns: "F ?l = Some ns" using hash_bucket_list(3) [OF ok] by blast
  let ?F = "F(?l \<mapsto> (p + OFF_bind_hash_list) # ns)"
  have p: "p \<in> dom (socks st)" using sk by blast
  from mem_ok_link_bind [OF stack_okD(1) [OF ok] p new head_in_heads(3) ns] obtain h where
    h: "list_add_head (nodes st) (p + OFF_bind_hash_list) ?l = Inr h" "mem_ok h (dom (socks st)) ?F"
      "dom h = dom (nodes st)"
    by blast
  have B: "bound ?F q \<longleftrightarrow> q = p \<or> bound F q" "hashed ?F q = hashed F q" for q
    using bound_link [of F ?l ns p q] ns by simp_all
  have S: "sock_ok ?F q sk'" if "((socks st)(p \<mapsto> ?sk)) q = Some sk'" for q sk'
  proof (rule sock_ok_moved [OF stack_okD(3) [OF ok] _ that])
    show "sock_ok ?F p ?sk" using stack_okD(3) [OF ok sk] new port by (simp add: sock_ok_def B split: if_splits)
  qed (simp_all add: B)
  have K: "keys_ok ((socks st)(p \<mapsto> ?sk)) ?F"
    using keys_ok_upd [OF stack_okD(2) [OF ok] sk, of ?sk] by (simp add: keys_ok_bind sock_key_def)
  have "dom ((socks st)(p \<mapsto> ?sk)) = dom (socks st)" using p by auto
  with h(2) S K have fin: "stack_ok (st\<lparr>nodes := h, socks := (socks st)(p \<mapsto> ?sk)\<rparr>) ?F"
    by (simp add: stack_ok_def)
  have run: "tcp_bind_hash st p = Inr (0, st\<lparr>nodes := h, socks := (socks st)(p \<mapsto> ?sk)\<rparr>)"
    using sk h(1) by (simp add: tcp_bind_hash_def rd_sock_def on_nodes_def tcp_sock_inc_ref_cnt_def upd_sock_def)
  have same: "\<forall>l. l \<notin> bind_heads \<longrightarrow> ?F l = F l" by auto
  from run fin B same h(3) show ?thesis by blast
qed

text \<open>Linking a socket into one of the two hash tables and counting the reference.\<close>

lemma table_index:
  assumes "i < TCP_HASH_SIZE" "j < TCP_HASH_SIZE"
  shows "established_table i = established_table j \<longleftrightarrow> i = j" "listen_table i = listen_table j \<longleftrightarrow> i = j"
    "established_table i \<noteq> listen_table j" "listen_table j \<noteq> established_table i"
  using assms by (auto simp: statics TCP_HASH_SIZE_def)

lemma est_listen_apart: "est_heads \<inter> listen_heads = {}"
  by (auto simp: est_heads_def listen_heads_def statics TCP_HASH_SIZE_def)

lemma keys_ok_link_est:
  assumes K: "keys_ok S F" and p: "S p = Some sk" and ns: "F (established_table (key_bucket (sock_key sk))) = Some ns"
    and new: "\<forall>n\<in>set ns. map_option sock_key (S (hash_entry n)) \<noteq> Some (sock_key sk)"
  shows "keys_ok S (F(established_table (key_bucket (sock_key sk)) \<mapsto> (p + OFF_hash_list) # ns))"
proof -
  have inj: "inj_on (\<lambda>n. map_option sock_key (S (hash_entry n))) (insert (p + OFF_hash_list) (set ns))"
    using keys_ok_inj [OF K key_bucket_less ns] new p by (auto simp: inj_on_insert image_iff; metis)
  have low: "i < TCP_HASH_SIZE \<Longrightarrow> (established_table i = established_table (key_bucket (sock_key sk))) =
      (i = key_bucket (sock_key sk))"
    "i < TCP_HASH_SIZE \<Longrightarrow> listen_table i \<noteq> established_table (key_bucket (sock_key sk))" for i
    using table_index [OF _ key_bucket_less] table_index(4) [OF key_bucket_less] by auto
  show ?thesis
    using K inj p ns unfolding keys_ok_def by (auto simp: low cong: imp_cong split: if_splits)
qed

lemma keys_ok_link_listen:
  assumes K: "keys_ok S F" and p: "S p = Some sk"
    and ns: "F (listen_table (tcp_hash_function 0 0 (sk_sport sk) 0)) = Some ns"
  shows "keys_ok S (F(listen_table (tcp_hash_function 0 0 (sk_sport sk) 0) \<mapsto> (p + OFF_hash_list) # ns))"
proof -
  have low: "i < TCP_HASH_SIZE \<Longrightarrow> (listen_table i = listen_table (tcp_hash_function 0 0 (sk_sport sk) 0)) =
      (i = tcp_hash_function 0 0 (sk_sport sk) 0)"
    "i < TCP_HASH_SIZE \<Longrightarrow> established_table i \<noteq> listen_table (tcp_hash_function 0 0 (sk_sport sk) 0)" for i
    using table_index [OF _ hash_bucket_less] by auto
  show ?thesis
    using K p ns unfolding keys_ok_def by (auto simp: low cong: imp_cong split: if_splits)
qed

lemma link_hash_ok:
  assumes ok: "stack_ok st F" and sk: "socks st p = Some sk" and new: "\<not> hashed F p"
    and open_state: "sk_state sk \<noteq> TCP_CLOSED" and l: "l \<in> hash_heads" "F l = Some ns"
    and K: "keys_ok (socks st) (F(l \<mapsto> (p + OFF_hash_list) # ns))"
  shows "\<exists>h. list_add_head (nodes st) (p + OFF_hash_list) l = Inr h \<and> dom h = dom (nodes st) \<and>
    stack_ok (st\<lparr>nodes := h, socks := (socks st)(p \<mapsto> sk\<lparr>ref_cnt := ref_cnt sk + 1\<rparr>)\<rparr>)
      (F(l \<mapsto> (p + OFF_hash_list) # ns))"
proof -
  let ?F = "F(l \<mapsto> (p + OFF_hash_list) # ns)" and ?sk = "sk\<lparr>ref_cnt := ref_cnt sk + 1\<rparr>"
  have p: "p \<in> dom (socks st)" using sk by blast
  from mem_ok_link_hash [OF stack_okD(1) [OF ok] p new l] obtain h where
    h: "list_add_head (nodes st) (p + OFF_hash_list) l = Inr h" "mem_ok h (dom (socks st)) ?F"
      "dom h = dom (nodes st)" by blast
  have H: "hashed ?F q \<longleftrightarrow> q = p \<or> hashed F q" "bound ?F q = bound F q" for q
    using hashed_link [of F l ns p q] l by simp_all
  have S: "sock_ok ?F q sk'" if "((socks st)(p \<mapsto> ?sk)) q = Some sk'" for q sk'
  proof (rule sock_ok_moved [OF stack_okD(3) [OF ok] _ that])
    show "sock_ok ?F p ?sk" using stack_okD(3) [OF ok sk] new open_state by (simp add: sock_ok_def H split: if_splits)
  qed (simp_all add: H)
  have K': "keys_ok ((socks st)(p \<mapsto> ?sk)) ?F"
    using keys_ok_upd [OF K sk, of ?sk] by (simp add: sock_key_def)
  have "dom ((socks st)(p \<mapsto> ?sk)) = dom (socks st)" using p by auto
  with h S K' show ?thesis by (auto simp: stack_ok_def)
qed

text \<open>The newest listener on a port is found first; the lookup of other ports does not change.\<close>

lemma lookup_listen_link:
  fixes sport :: u16
  defines "l \<equiv> listen_table (tcp_hash_function 0 0 sport 0)"
  assumes ok: "stack_ok st F" and ok': "stack_ok st' (F(l \<mapsto> (p + OFF_hash_list) # ns))" and ns: "F l = Some ns"
    and same: "\<forall>q. map_option sk_sport (socks st' q) = map_option sk_sport (socks st q)"
    and p: "map_option sk_sport (socks st p) = Some sport"
  shows "tcp_sock_lookup_listen st' ip port = (if port = sport then Inr p else tcp_sock_lookup_listen st ip port)"
proof -
  let ?F = "F(l \<mapsto> (p + OFF_hash_list) # ns)" and ?i = "tcp_hash_function 0 0 port 0"
  let ?P = "\<lambda>st n. sk_sport (the (socks st (hash_entry n))) = port"
  obtain xs where xs: "F (listen_table ?i) = Some xs" using hash_bucket_list(2) [OF ok] by blast
  have P: "?P st' n = ?P st n" if "n \<in> set xs" for n
  proof -
    have "\<exists>sk. socks st (hash_entry n) = Some sk" by (rule bucket_sock [OF ok _ xs that]) simp
    with same [rule_format, of "hash_entry n"] show ?thesis by (auto split: option.splits)
  qed
  then have eq: "find (?P st') xs = find (?P st) xs" by (rule find_cong [OF refl])
  have p': "\<exists>sk. socks st' p = Some sk \<and> sk_sport sk = sport" using same [rule_format, of p] p by auto
  show ?thesis
  proof (cases "listen_table ?i = l")
    case True
    then have "?F (listen_table ?i) = Some ((p + OFF_hash_list) # xs)" using xs ns by simp
    from lookup_listen_find [OF ok' this, of ip] lookup_listen_find [OF ok xs, of ip] p' eq show ?thesis
      by (auto simp: found_sock_def)
  next
    case False
    then have "?F (listen_table ?i) = Some xs" using xs by simp
    moreover have "port \<noteq> sport" using False by (auto simp: l_def)
    ultimately show ?thesis using lookup_listen_find [OF ok', of port xs ip] lookup_listen_find [OF ok xs, of ip] eq by simp
  qed
qed

text \<open>Lookup sees the tables and the keys of the sockets in them, and nothing else.\<close>

lemma lookup_listen_same:
  assumes ok: "stack_ok st F" "stack_ok st' F'" and F: "\<forall>l\<in>listen_heads. F' l = F l"
    and same: "\<forall>q. linked F listen_heads (q + OFF_hash_list) \<longrightarrow> map_option sk_sport (socks st' q) = map_option sk_sport (socks st q)"
  shows "tcp_sock_lookup_listen st' ip port = tcp_sock_lookup_listen st ip port"
proof -
  let ?l = "listen_table (tcp_hash_function 0 0 port 0)"
  have l: "?l \<in> listen_heads" by (simp add: listen_heads_def hash_bucket_less)
  obtain ns where ns: "F ?l = Some ns" using hash_bucket_list(2) [OF ok(1)] by blast
  have "(sk_sport (the (socks st' (hash_entry n))) = port) = (sk_sport (the (socks st (hash_entry n))) = port)" if n: "n \<in> set ns" for n
  proof -
    have "linked F listen_heads (hash_entry n + OFF_hash_list)"
      using l ns n by (auto simp: linked_def hash_entry_def list_entry_def)
    moreover have "\<exists>sk. socks st (hash_entry n) = Some sk" by (rule bucket_sock [OF ok(1) _ ns n]) simp
    ultimately show ?thesis using same by fastforce
  qed
  then have "find (\<lambda>n. sk_sport (the (socks st' (hash_entry n))) = port) ns = find (\<lambda>n. sk_sport (the (socks st (hash_entry n))) = port) ns"
    by (rule find_cong [OF refl])
  moreover have "F' ?l = Some ns" using F l ns by simp
  ultimately show ?thesis using lookup_listen_find [OF ok(2)] lookup_listen_find [OF ok(1) ns] by simp
qed

lemma tcp_hash_listen_ok:
  assumes ok: "stack_ok st F" and sk: "socks st p = Some sk" and new: "\<not> hashed F p"
    and state: "sk_state sk = TCP_LISTEN"
  shows "\<exists>h F'. tcp_hash st p = Inr (0, st\<lparr>nodes := h, socks := (socks st)(p \<mapsto> sk\<lparr>ref_cnt := ref_cnt sk + 1\<rparr>)\<rparr>) \<and>
    stack_ok (st\<lparr>nodes := h, socks := (socks st)(p \<mapsto> sk\<lparr>ref_cnt := ref_cnt sk + 1\<rparr>)\<rparr>) F' \<and>
    dom h = dom (nodes st) \<and> (\<forall>q. bound F' q = bound F q) \<and> (\<forall>q. hashed F' q \<longleftrightarrow> q = p \<or> hashed F q) \<and>
    (\<forall>n. linked F' listen_heads n \<longleftrightarrow> n = p + OFF_hash_list \<or> linked F listen_heads n) \<and>
    (\<forall>n. linked F' est_heads n = linked F est_heads n) \<and> (\<forall>l. l \<notin> listen_heads \<longrightarrow> F' l = F l) \<and>
    (\<forall>ip port. tcp_sock_lookup_listen (st\<lparr>nodes := h, socks := (socks st)(p \<mapsto> sk\<lparr>ref_cnt := ref_cnt sk + 1\<rparr>)\<rparr>) ip port =
      (if port = sk_sport sk then Inr p else tcp_sock_lookup_listen st ip port))"
proof -
  let ?l = "listen_table (tcp_hash_function 0 0 (sk_sport sk) 0)"
  obtain ns where ns: "F ?l = Some ns" using hash_bucket_list(2) [OF ok] by blast
  let ?F = "F(?l \<mapsto> (p + OFF_hash_list) # ns)"
  from link_hash_ok [OF ok sk new _ _ ns keys_ok_link_listen [OF stack_okD(2) [OF ok] sk ns]] state
  obtain h where h: "list_add_head (nodes st) (p + OFF_hash_list) ?l = Inr h" "dom h = dom (nodes st)"
    "stack_ok (st\<lparr>nodes := h, socks := (socks st)(p \<mapsto> sk\<lparr>ref_cnt := ref_cnt sk + 1\<rparr>)\<rparr>) ?F" by auto
  have run: "tcp_hash st p = Inr (0, st\<lparr>nodes := h, socks := (socks st)(p \<mapsto> sk\<lparr>ref_cnt := ref_cnt sk + 1\<rparr>)\<rparr>)"
    using sk state h(1) by (simp add: tcp_hash_def rd_sock_def on_nodes_def tcp_sock_inc_ref_cnt_def upd_sock_def)
  have "?l \<in> listen_heads" "?l \<notin> est_heads"
    using est_listen_apart by (auto simp: listen_heads_def hash_bucket_less)
  then have "linked ?F listen_heads n \<longleftrightarrow> n = p + OFF_hash_list \<or> linked F listen_heads n"
    "linked ?F est_heads n = linked F est_heads n" for n by (simp_all add: linked_cons ns)
  moreover have "hashed ?F q \<longleftrightarrow> q = p \<or> hashed F q" "bound ?F q = bound F q" for q
    using hashed_link [of F ?l ns p q] ns by simp_all
  moreover have "\<forall>m. m \<notin> listen_heads \<longrightarrow> ?F m = F m" using \<open>?l \<in> listen_heads\<close> by auto
  moreover have "tcp_sock_lookup_listen (st\<lparr>nodes := h, socks := (socks st)(p \<mapsto> sk\<lparr>ref_cnt := ref_cnt sk + 1\<rparr>)\<rparr>) ip port =
      (if port = sk_sport sk then Inr p else tcp_sock_lookup_listen st ip port)" for ip port
    by (rule lookup_listen_link [OF ok h(3) ns]) (simp_all add: sk)
  ultimately show ?thesis using run h by blast
qed

lemma tcp_hash_search:
  assumes ok: "stack_ok st F" and sk: "socks st p = Some sk"
    and ns: "F (established_table (key_bucket (sock_key sk))) = Some ns"
  shows "list_find (nodes st) (established_table (key_bucket (sock_key sk))) (\<lambda>n.
      rbind (rd_sock st (hash_entry n)) (\<lambda>tmp. Inr (sk_sip sk = sk_sip tmp \<and> sk_dip sk = sk_dip tmp \<and>
         sk_sport sk = sk_sport tmp \<and> sk_dport sk = sk_dport tmp))) =
    Inr (find (\<lambda>n. sock_key (the (socks st (hash_entry n))) = sock_key sk) ns)"
proof -
  have eq: "(sk_sip sk = sk_sip tmp \<and> sk_dip sk = sk_dip tmp \<and> sk_sport sk = sk_sport tmp \<and>
      sk_dport sk = sk_dport tmp) = (sock_key tmp = sock_key sk)" for tmp
    by (auto simp: sock_key_def)
  have l: "established_table (key_bucket (sock_key sk)) \<in> hash_heads"
    by (cases "sock_key sk") simp
  from bucket_find [OF ok l ns, of "\<lambda>tmp. sock_key tmp = sock_key sk"] show ?thesis
    unfolding eq .
qed

lemma tcp_hash_unfold:
  assumes "socks st p = Some sk" "sk_state sk \<notin> {TCP_CLOSED, TCP_LISTEN}" "stack_ok st F"
    "F (established_table (key_bucket (sock_key sk))) = Some ns"
  shows "tcp_hash st p =
    (if find (\<lambda>n. sock_key (the (socks st (hash_entry n))) = sock_key sk) ns \<noteq> None then Inr (- 1, st)
     else rbind (on_nodes st (\<lambda>h. list_add_head h (p + OFF_hash_list) (established_table (key_bucket (sock_key sk)))))
       (\<lambda>st. rbind (tcp_sock_inc_ref_cnt st p) (\<lambda>st. Inr (0, st))))"
proof -
  have b: "tcp_hash_function (sk_sip sk) (sk_dip sk) (sk_sport sk) (sk_dport sk) = key_bucket (sock_key sk)"
    by (simp add: sock_key_def)
  from assms(1,2) tcp_hash_search [OF assms(3,1,4)] show ?thesis
    by (simp add: tcp_hash_def rd_sock_def b)
qed

lemma tcp_hash_est_ok:
  assumes ok: "stack_ok st F" and sk: "socks st p = Some sk" and new: "\<not> hashed F p"
    and state: "sk_state sk \<notin> {TCP_CLOSED, TCP_LISTEN}"
    and unused: "\<forall>q. \<not> connected st F (sock_key sk) q"
  shows "\<exists>h F'. tcp_hash st p = Inr (0, st\<lparr>nodes := h, socks := (socks st)(p \<mapsto> sk\<lparr>ref_cnt := ref_cnt sk + 1\<rparr>)\<rparr>) \<and>
    stack_ok (st\<lparr>nodes := h, socks := (socks st)(p \<mapsto> sk\<lparr>ref_cnt := ref_cnt sk + 1\<rparr>)\<rparr>) F' \<and>
    dom h = dom (nodes st) \<and> (\<forall>q. bound F' q = bound F q) \<and> (\<forall>q. hashed F' q \<longleftrightarrow> q = p \<or> hashed F q) \<and>
    (\<forall>n. linked F' est_heads n \<longleftrightarrow> n = p + OFF_hash_list \<or> linked F est_heads n) \<and>
    (\<forall>n. linked F' listen_heads n = linked F listen_heads n) \<and> (\<forall>l. l \<notin> est_heads \<longrightarrow> F' l = F l)"
proof -
  let ?l = "established_table (key_bucket (sock_key sk))"
  obtain ns where ns: "F ?l = Some ns"
    using hash_bucket_list(1) [OF ok] by (metis key_bucket.elims)
  let ?P = "\<lambda>n. sock_key (the (socks st (hash_entry n))) = sock_key sk" and ?F = "F(?l \<mapsto> (p + OFF_hash_list) # ns)"
  have none: "find ?P ns = None"
  proof (rule ccontr)
    assume "find ?P ns \<noteq> None"
    then obtain n where "find ?P ns = Some (hash_entry n + OFF_hash_list)"
      by (auto simp: hash_entry_def list_entry_def)
    with find_connected [OF ok ns] unused show False by blast
  qed
  have l: "?l \<in> hash_heads" "?l \<in> est_heads" using key_bucket_less
    by (auto simp: hash_heads_def est_heads_def)
  have "\<forall>n\<in>set ns. map_option sock_key (socks st (hash_entry n)) \<noteq> Some (sock_key sk)"
    using none by (auto simp: find_None_iff)
  from link_hash_ok [OF ok sk new _ l(1) ns keys_ok_link_est [OF stack_okD(2) [OF ok] sk ns this]] state
  obtain h where h: "list_add_head (nodes st) (p + OFF_hash_list) ?l = Inr h" "dom h = dom (nodes st)"
    "stack_ok (st\<lparr>nodes := h, socks := (socks st)(p \<mapsto> sk\<lparr>ref_cnt := ref_cnt sk + 1\<rparr>)\<rparr>) ?F" by auto
  have run: "tcp_hash st p = Inr (0, st\<lparr>nodes := h, socks := (socks st)(p \<mapsto> sk\<lparr>ref_cnt := ref_cnt sk + 1\<rparr>)\<rparr>)"
    using tcp_hash_unfold [OF sk state ok ns] none sk h(1)
    by (simp add: on_nodes_def tcp_sock_inc_ref_cnt_def upd_sock_def rd_sock_def)
  have "?l \<notin> listen_heads" using est_listen_apart l(2) by blast
  then have "linked ?F est_heads n \<longleftrightarrow> n = p + OFF_hash_list \<or> linked F est_heads n"
    "linked ?F listen_heads n = linked F listen_heads n" for n using l ns by (simp_all add: linked_cons)
  moreover have "hashed ?F q \<longleftrightarrow> q = p \<or> hashed F q" "bound ?F q = bound F q" for q
    using hashed_link [of F ?l ns p q] ns l by simp_all
  moreover have "\<forall>m. m \<notin> est_heads \<longrightarrow> ?F m = F m" using l(2) by auto
  ultimately show ?thesis using run h by blast
qed

lemma tcp_hash_dup:
  assumes ok: "stack_ok st F" and sk: "socks st p = Some sk"
    and state: "sk_state sk \<notin> {TCP_CLOSED, TCP_LISTEN}" and used: "connected st F (sock_key sk) q"
  shows "tcp_hash st p = Inr (- 1, st)"
proof -
  obtain ns where ns: "F (established_table (key_bucket (sock_key sk))) = Some ns"
    using hash_bucket_list(1) [OF ok] by (metis key_bucket.elims)
  from find_connected [OF ok ns] used tcp_hash_unfold [OF sk state ok ns] show ?thesis by simp
qed

section \<open>Ports in a sound stack\<close>

text \<open>What the misnamed member makes the loop read: the upper half of a null pointer.\<close>

lemma sport_through_bound:
  assumes ok: "stack_ok st F" and n: "l \<in> bind_heads" "F l = Some ns" "n \<in> set ns"
  shows "sport_through st (list_entry n OFF_hash_list) = Inr 0"
proof -
  let ?p = "n - OFF_bind_hash_list"
  have "?p \<in> dom (socks st)"
    using bucket_member n stack_okD(1) [OF ok] unfolding mem_ok_def by blast
  then obtain sk where sk: "socks st ?p = Some sk" by blast
  have "linked F bind_heads n" using n by (auto simp: linked_def)
  then have "bound F ?p" by (simp add: bound_def)
  with stack_okD(3) [OF ok sk] have par: "sk_parent sk = 0" by (simp add: sock_ok_def)
  have "socks st (?p + 16) = None"
  proof (rule ccontr)
    assume "socks st (?p + 16) \<noteq> None"
    then have "?p + 16 \<in> dom (socks st)" by blast
    moreover have "socks_apart (nodes st) (dom (socks st))"
      using stack_okD(1) [OF ok] by (simp add: mem_ok_def)
    ultimately show False
      using same_owner [of "nodes st" "dom (socks st)" ?p "?p + 16"] \<open>?p \<in> dom (socks st)\<close>
      by (simp add: SOCK_SIZE_def)
  qed
  with sk par show ?thesis by (simp add: sport_through_def list_entry_def offsets)
qed

lemma tcp_port_in_use_False:
  assumes ok: "stack_ok st F" and port: "port \<noteq> 0"
  shows "tcp_port_in_use st port = Inr False"
proof -
  let ?l = "bind_table (tcp_hash_function 0 0 port 0)"
  obtain ns where ns: "F ?l = Some ns" using hash_bucket_list(3) [OF ok] by blast
  have d: "dll (nodes st) ?l ns"
    using lists.family_list mem_ok_family [OF stack_okD(1) [OF ok]] ns by blast
  have "list_find (nodes st) ?l (\<lambda>n.
      rbind (sport_through st (list_entry n OFF_hash_list)) (\<lambda>p. Inr (p = port))) = Inr (find (\<lambda>_. False) ns)"
    by (rule lists.search_law [OF d])
      (use sport_through_bound [OF ok head_in_heads(3) ns] port in auto)
  moreover have "find (\<lambda>_. False) ns = None" by (simp add: find_None_iff)
  ultimately show ?thesis by (simp add: tcp_port_in_use_def)
qed

lemma tcp_get_port_first: "stack_ok st F \<Longrightarrow> tcp_get_port st = Inr 12345"
  using tcp_port_in_use_False [of st F 12345] unfolding tcp_get_port_def PORT_MIN_def
  by (subst tcp_get_port_from.simps) (simp add: PORT_MAX_def)

definition chosen_port :: "u16 \<Rightarrow> u16" where
  "chosen_port port = (if port = 0 then 12345 else port)"

lemma chosen_port_nonzero: "chosen_port port \<noteq> 0"
  by (simp add: chosen_port_def)

lemma tcp_sock_set_sport_ok:
  assumes ok: "stack_ok st F" and sk: "socks st p = Some sk"
    and new: "\<not> bound F p" "\<not> hashed F p" "sk_parent sk = 0"
  shows "\<exists>h F'. tcp_sock_set_sport st p port = Inr (0, st\<lparr>nodes := h, socks := (socks st)
      (p \<mapsto> sk\<lparr>sk_sport := chosen_port port, ref_cnt := ref_cnt sk + 1\<rparr>)\<rparr>) \<and>
    stack_ok (st\<lparr>nodes := h, socks := (socks st)
      (p \<mapsto> sk\<lparr>sk_sport := chosen_port port, ref_cnt := ref_cnt sk + 1\<rparr>)\<rparr>) F' \<and>
    (\<forall>q. hashed F' q = hashed F q) \<and> (\<forall>q. bound F' q \<longleftrightarrow> q = p \<or> bound F q) \<and>
    (\<forall>l. l \<notin> bind_heads \<longrightarrow> F' l = F l) \<and> dom h = dom (nodes st)"
proof -
  let ?sk = "sk\<lparr>sk_sport := chosen_port port\<rparr>"
  let ?st = "st\<lparr>socks := (socks st)(p \<mapsto> ?sk)\<rparr>"
  have "sock_ok F p ?sk" using stack_okD(3) [OF ok sk] new by (simp add: sock_ok_def split: if_splits)
  then have ok1: "stack_ok ?st F" using stack_ok_upd [OF ok sk] new by simp
  have "\<exists>h F'. tcp_bind_hash ?st p = Inr (0, ?st\<lparr>nodes := h,
      socks := (socks ?st)(p \<mapsto> ?sk\<lparr>ref_cnt := ref_cnt ?sk + 1\<rparr>)\<rparr>) \<and>
    stack_ok (?st\<lparr>nodes := h, socks := (socks ?st)(p \<mapsto> ?sk\<lparr>ref_cnt := ref_cnt ?sk + 1\<rparr>)\<rparr>) F' \<and>
    (\<forall>q. hashed F' q = hashed F q) \<and> (\<forall>q. bound F' q \<longleftrightarrow> q = p \<or> bound F q) \<and>
    (\<forall>l. l \<notin> bind_heads \<longrightarrow> F' l = F l) \<and> dom h = dom (nodes ?st)"
    using tcp_bind_hash_ok [OF ok1, of p ?sk] new chosen_port_nonzero by simp
  then obtain h F' where h: "tcp_bind_hash ?st p = Inr (0, st\<lparr>nodes := h, socks := (socks st)
      (p \<mapsto> sk\<lparr>sk_sport := chosen_port port, ref_cnt := ref_cnt sk + 1\<rparr>)\<rparr>)"
    "stack_ok (st\<lparr>nodes := h, socks := (socks st)
      (p \<mapsto> sk\<lparr>sk_sport := chosen_port port, ref_cnt := ref_cnt sk + 1\<rparr>)\<rparr>) F'"
    "\<forall>q. hashed F' q = hashed F q" "\<forall>q. bound F' q \<longleftrightarrow> q = p \<or> bound F q"
    "\<forall>l. l \<notin> bind_heads \<longrightarrow> F' l = F l" "dom h = dom (nodes st)"
    by auto
  have "tcp_sock_set_sport st p port = rbind (tcp_bind_hash ?st p) (\<lambda>(_, st). Inr (0, st))"
    using tcp_port_in_use_False [OF ok] tcp_get_port_first [OF ok] sk
    by (simp add: tcp_sock_set_sport_def upd_sock_def rd_sock_def chosen_port_def)
  with h show ?thesis by auto
qed

section \<open>Leaving the tables\<close>

lemma hashed_unlink:
  assumes "family dll h F" "l \<in> hash_heads" "F l = Some (xs @ (p + OFF_hash_list) # ys)"
  shows "hashed (F(l \<mapsto> xs @ ys)) q \<longleftrightarrow> q \<noteq> p \<and> hashed F q" "bound (F(l \<mapsto> xs @ ys)) q = bound F q"
  using linked_removed [OF assms(1,3)] assms(2) heads_disjoint by (auto simp: hashed_def bound_def)

lemma keys_ok_subset:
  assumes "keys_ok S F" "F l = Some ns" "set ms \<subseteq> set ns"
  shows "keys_ok S (F(l \<mapsto> ms))"
  using assms unfolding keys_ok_def by (auto split: if_splits intro: inj_on_subset)

text \<open>
  A socket that is in a hash table and in the bind table leaves the hash table alive, with one
  reference less.
\<close>

lemma tcp_unhash_ok:
  assumes ok: "stack_ok st F" and sk: "socks st p = Some sk" and old: "hashed F p" "bound F p" and open_state: "\<not> gave_up sk"
  shows "\<exists>h F'. tcp_unhash st p = Inr (st\<lparr>nodes := h, socks := (socks st)(p \<mapsto> sk\<lparr>ref_cnt := 1\<rparr>)\<rparr>) \<and>
    stack_ok (st\<lparr>nodes := h, socks := (socks st)(p \<mapsto> sk\<lparr>ref_cnt := 1\<rparr>)\<rparr>) F' \<and>
    (\<forall>q. bound F' q = bound F q) \<and> (\<forall>q. hashed F' q \<longleftrightarrow> q \<noteq> p \<and> hashed F q) \<and> dom h = dom (nodes st)"
proof -
  let ?sk = "sk\<lparr>ref_cnt := 1\<rparr>"
  have fam: "family dll (nodes st) F" using mem_ok_family [OF stack_okD(1) [OF ok]] .
  from old(1) obtain l ns where l: "l \<in> hash_heads" "F l = Some ns" "p + OFF_hash_list \<in> set ns"
    by (auto simp: hashed_def linked_def)
  from split_list [OF l(3)] obtain xs ys where ns: "F l = Some (xs @ (p + OFF_hash_list) # ys)"
    using l(2) by blast
  let ?F = "F(l \<mapsto> xs @ ys)"
  from mem_ok_unlink_hash [OF stack_okD(1) [OF ok] l(1) ns] obtain h where
    h: "list_delete_entry (nodes st) (p + OFF_hash_list) = Inr h" "mem_ok h (dom (socks st)) ?F"
      "dom h = dom (nodes st)" by blast
  note H = hashed_unlink [OF fam l(1) ns]
  have ref: "ref_cnt sk = 2" using stack_okD(3) [OF ok sk] old open_state by (simp add: sock_ok_def)
  have S: "sock_ok ?F q sk'" if "((socks st)(p \<mapsto> ?sk)) q = Some sk'" for q sk'
  proof (rule sock_ok_moved [OF stack_okD(3) [OF ok] _ that])
    show "sock_ok ?F p ?sk" using stack_okD(3) [OF ok sk] old open_state by (simp add: sock_ok_def H)
  qed (simp_all add: H)
  have "keys_ok (socks st) ?F" by (rule keys_ok_subset [OF stack_okD(2) [OF ok] ns]) auto
  from keys_ok_upd [OF this sk, of ?sk] have K: "keys_ok ((socks st)(p \<mapsto> ?sk)) ?F"
    by (simp add: sock_key_def)
  have "dom ((socks st)(p \<mapsto> ?sk)) = dom (socks st)" using sk by auto
  with h(2) S K have fin: "stack_ok (st\<lparr>nodes := h, socks := (socks st)(p \<mapsto> ?sk)\<rparr>) ?F"
    by (simp add: stack_ok_def)
  have "list_empty (nodes st) (p + OFF_hash_list) = Inr False"
    by (rule hash_tab.member_looks_linked [OF fam l(1) ns])
  with h(1) sk ref have "tcp_unhash st p = Inr (st\<lparr>nodes := h, socks := (socks st)(p \<mapsto> ?sk)\<rparr>)"
    by (simp add: tcp_unhash_def on_nodes_def free_tcp_sock_def upd_sock_def rd_sock_def)
  with fin H h(3) show ?thesis by blast
qed

lemma tcp_bind_unhash_last:
  assumes ok: "stack_ok st F" and sk: "socks st p = Some sk" and last: "\<not> hashed F p" "bound F p"
  shows "\<exists>st'. tcp_bind_unhash st p = Inr st' \<and> socks st' = (socks st)(p := None)"
proof -
  have fam: "family dll (nodes st) F" using mem_ok_family [OF stack_okD(1) [OF ok]] .
  from last(2) obtain l ns where l: "l \<in> bind_heads" "F l = Some ns" "p + OFF_bind_hash_list \<in> set ns"
    by (auto simp: bound_def linked_def)
  from split_list [OF l(3)] obtain xs ys where ns: "F l = Some (xs @ (p + OFF_bind_hash_list) # ys)"
    using l(2) by blast
  from mem_ok_unlink_bind [OF stack_okD(1) [OF ok] l(1) ns] obtain h where
    h: "list_delete_entry (nodes st) (p + OFF_bind_hash_list) = Inr h" by blast
  have "ref_cnt sk = 1" using stack_okD(3) [OF ok sk] last by (simp add: sock_ok_def split: if_splits)
  moreover have "list_empty (nodes st) (p + OFF_bind_hash_list) = Inr False"
    by (rule bind_tab.member_looks_linked [OF fam l(1) ns])
  ultimately show ?thesis using h sk
    by (simp add: tcp_bind_unhash_def on_nodes_def free_tcp_sock_def upd_sock_def rd_sock_def)
qed

section \<open>Sound stacks to start from\<close>

lemma stack_ok_init:
  assumes "family dll (nodes st) G" "(hash_heads \<union> bind_heads) \<inter> footprint G = {}"
    "hash_heads \<union> bind_heads \<subseteq> dom (nodes st)" "socks st = Map.empty"
  shows "\<exists>h. init_tcp_stack st = Inr (st\<lparr>nodes := h\<rparr>) \<and> dom h = dom (nodes st) \<and>
    stack_ok (st\<lparr>nodes := h\<rparr>) (empty_tables G)"
proof -
  have "empty_tables G (established_table i) = Some []" "empty_tables G (listen_table i) = Some []"
    if "i < TCP_HASH_SIZE" for i
    using that by (simp_all add: empty_tables_def with_empty_def hash_heads_def)
  then have "keys_ok Map.empty (empty_tables G)" by (simp add: keys_ok_def)
  then show ?thesis using init_tcp_stack_ok [OF assms(1-3)] assms(4) by (auto simp: stack_ok_def)
qed

lemma stack_ok_alloc:
  assumes ok: "stack_ok st F" and ready: "alloc_ready st p"
  shows "\<exists>h. alloc_tcp_sock st = Inr (p, st\<lparr>socks := (socks st)(p \<mapsto> fresh_sock), nodes := h,
      mallocs := drop 6 (mallocs st)\<rparr>) \<and>
    stack_ok (st\<lparr>socks := (socks st)(p \<mapsto> fresh_sock), nodes := h, mallocs := drop 6 (mallocs st)\<rparr>)
      (own_lists p F) \<and> dom h = set (sock_nodes p) \<union> dom (nodes st) \<and>
    \<not> hashed F p \<and> \<not> bound F p \<and> (\<forall>H n. linked (own_lists p F) H n = linked F H n)"
proof -
  have fam: "family dll (nodes st) F" using mem_ok_family [OF stack_okD(1) [OF ok]] .
  have disj: "set (sock_nodes p) \<inter> footprint F = {}"
    using ready footprint_in_dom [OF fam] unfolding alloc_ready_def fresh_block_def by blast
  note L = own_lists_linked [OF disj]
  have "p + OFF_hash_list \<notin> footprint F" "p + OFF_bind_hash_list \<notin> footprint F"
    using disj hash_tab.node_of_sock bind_tab.node_of_sock by blast+
  then have new: "\<not> hashed F p" "\<not> bound F p"
    by (auto simp: hashed_def bound_def footprint_linked linked_def)
  have H: "hashed (own_lists p F) q = hashed F q" "bound (own_lists p F) q = bound F q" for q
    by (simp_all add: hashed_def bound_def L)
  have low: "own_lists p F l = F l" if "l \<in> hash_heads" for l
    using that heads_low [of l] ready
    by (auto simp: own_lists_def alloc_ready_def fresh_block_def offsets HEAP_BASE_def timer_list_def)
  have unlinked: "hash_entry n \<noteq> p" if "linked F hash_heads n" for n
    using new(1) that by (auto simp: hashed_def hash_entry_inv)
  have K: "keys_ok ((socks st)(p \<mapsto> fresh_sock)) (own_lists p F)"
    using stack_okD(2) [OF ok] by (rule keys_ok_cong) (use low unlinked in auto)
  have S: "sock_ok (own_lists p F) q sk" if "((socks st)(p \<mapsto> fresh_sock)) q = Some sk" for q sk
  proof (rule sock_ok_moved [OF stack_okD(3) [OF ok] _ that])
    show "sock_ok (own_lists p F) p fresh_sock" using new by (simp add: sock_ok_def H fresh_sock_def gave_up_def)
  qed (simp_all add: H)
  from alloc_tcp_sock_ok [OF stack_okD(1) [OF ok] ready] obtain h where
    "alloc_tcp_sock st = Inr (p, st\<lparr>socks := (socks st)(p \<mapsto> fresh_sock), nodes := h,
      mallocs := drop 6 (mallocs st)\<rparr>)"
    "mem_ok h (insert p (dom (socks st))) (own_lists p F)" "dom h = set (sock_nodes p) \<union> dom (nodes st)"
    by blast
  with K S new L show ?thesis by (auto simp: stack_ok_def)
qed

text \<open>The first socket of a freshly started stack, with blocks from a plain allocator.\<close>

definition sample_mallocs :: "nat \<Rightarrow> (addr \<times> (nat \<Rightarrow> u8)) list" where
  "sample_mallocs n = map (\<lambda>i. (HEAP_BASE + 4096 * int i, \<lambda>_. 0)) [0..<n]"

lemma sample_stack:
  "\<exists>st F. init_tcp_stack (boot (sample_mallocs n)) = Inr st \<and> stack_ok st F \<and> socks st = Map.empty \<and>
     mallocs st = sample_mallocs n \<and> sent st = [] \<and> dom (nodes st) \<subseteq> {4096..timer_list} \<and>
     (\<forall>H m. \<not> linked F H m)"
proof -
  have "dom bss_nodes \<subseteq> {4096..timer_list}" by (auto simp: bss_nodes_def timer_list_def split: if_splits)
  moreover have "\<forall>H m. \<not> linked (empty_tables Map.empty) H m"
    by (auto simp: empty_tables_def with_empty_def linked_def split: if_splits)
  moreover obtain h where "init_tcp_stack (boot (sample_mallocs n)) = Inr ((boot (sample_mallocs n))\<lparr>nodes := h\<rparr>)"
    "dom h = dom bss_nodes" "stack_ok ((boot (sample_mallocs n))\<lparr>nodes := h\<rparr>) (empty_tables Map.empty)"
    using stack_ok_init [of "boot (sample_mallocs n)" Map.empty] bss_heads
    by (auto simp: family_def footprint_def boot_def)
  ultimately show ?thesis by (intro exI conjI) (assumption | simp add: boot_def)+
qed

lemma sample_alloc:
  assumes ok: "stack_ok st F" and m: "mallocs st = drop k (sample_mallocs n)" "k + 6 \<le> n"
    and low: "dom (nodes st) \<subseteq> {..< HEAP_BASE + 4096 * int k}" "\<forall>p\<in>dom (socks st). p \<le> HEAP_BASE + 4096 * (int k - 1)"
  shows "alloc_ready st (HEAP_BASE + 4096 * int k)"
proof -
  have "set (sock_nodes (HEAP_BASE + 4096 * int k)) \<inter> dom (nodes st) = {}"
    using low(1) by (fastforce simp: sock_nodes_def offsets)
  moreover have "\<forall>q\<in>dom (socks st). SOCK_SIZE \<le> \<bar>HEAP_BASE + 4096 * int k - q\<bar>"
  proof
    fix q assume "q \<in> dom (socks st)"
    with low(2) have "q \<le> HEAP_BASE + 4096 * (int k - 1)" by blast
    then show "SOCK_SIZE \<le> \<bar>HEAP_BASE + 4096 * int k - q\<bar>" by (simp add: SOCK_SIZE_def)
  qed
  ultimately show ?thesis
    using m by (auto simp: alloc_ready_def fresh_block_def sample_mallocs_def HEAP_BASE_def in_set_conv_nth)
qed

lemma sample_first_block:
  assumes "stack_ok st F" "socks st = Map.empty" "mallocs st = sample_mallocs n" "6 \<le> n" "dom (nodes st) \<subseteq> {4096..timer_list}"
  shows "alloc_ready st 20480"
proof -
  have "alloc_ready st (HEAP_BASE + 4096 * int 0)"
    using assms by (intro sample_alloc [OF assms(1), of 0 n]) (auto simp: HEAP_BASE_def timer_list_def)
  then show ?thesis by (simp add: HEAP_BASE_def)
qed

lemma sample_socket:
  assumes "6 \<le> n"
  shows "\<exists>st F. rbind (init_tcp_stack (boot (sample_mallocs n))) alloc_tcp_sock = Inr (20480, st) \<and>
    stack_ok st F \<and> socks st = [20480 \<mapsto> fresh_sock] \<and> mallocs st = drop 6 (sample_mallocs n) \<and> sent st = [] \<and>
    dom (nodes st) \<subseteq> {..<24576} \<and> (\<forall>H m. \<not> linked F H m)"
proof -
  from sample_stack [of n] obtain st F where st: "init_tcp_stack (boot (sample_mallocs n)) = Inr st"
    "stack_ok st F" "socks st = Map.empty" "mallocs st = sample_mallocs n" "sent st = []"
    "dom (nodes st) \<subseteq> {4096..timer_list}" "\<forall>H m. \<not> linked F H m"
    by blast
  have "alloc_ready st 20480" using sample_first_block [OF st(2,3)] st assms by simp
  from stack_ok_alloc [OF st(2) this] obtain h where
    h: "alloc_tcp_sock st = Inr (20480, st\<lparr>socks := (socks st)(20480 \<mapsto> fresh_sock), nodes := h,
      mallocs := drop 6 (mallocs st)\<rparr>)"
    "stack_ok (st\<lparr>socks := (socks st)(20480 \<mapsto> fresh_sock), nodes := h, mallocs := drop 6 (mallocs st)\<rparr>)
      (own_lists 20480 F)" "dom h = set (sock_nodes 20480) \<union> dom (nodes st)"
    "\<forall>H n. linked (own_lists 20480 F) H n = linked F H n" by blast
  have "set (sock_nodes 20480) \<subseteq> {..<24576}" by (simp add: sock_nodes_def offsets)
  moreover have "{4096..timer_list} \<subseteq> {..<24576}" by (auto simp: timer_list_def)
  ultimately have "dom h \<subseteq> {..<24576}" using h(3) st(6) by blast
  then show ?thesis
    using h st by (intro exI [of _ "st\<lparr>socks := (socks st)(20480 \<mapsto> fresh_sock), nodes := h,
      mallocs := drop 6 (mallocs st)\<rparr>"] exI [of _ "own_lists 20480 F"]) simp
qed

lemma fresh_sock_fields [simp]:
  "sk_parent fresh_sock = 0" "ref_cnt fresh_sock = 0" "sk_state fresh_sock = TCP_CLOSED" "sk_sport fresh_sock = 0"
  by (simp_all add: fresh_sock_def)

section \<open>Properties\<close>

text \<open>
  C4: Lookup is exact. In a sound stack \<^verbatim>\<open>tcp_sock_lookup\<close> neither faults nor loops;
  it returns the one established socket with the segment's addresses and ports, read from the
  receiver's side; if there is none, a socket that listens on the segment's destination port;
  and \<^verbatim>\<open>NULL\<close> exactly if there is no such socket either.
\<close>

theorem tcp_sock_lookup_exact:
  assumes "stack_ok st F"
  shows "\<exists>p. tcp_sock_lookup st cb = Inr p \<and>
    (if \<exists>q. connected st F (cb_daddr cb, cb_saddr cb, cb_dport cb, cb_sport cb) q
     then \<forall>q. connected st F (cb_daddr cb, cb_saddr cb, cb_dport cb, cb_sport cb) q \<longleftrightarrow> q = p
     else if \<exists>q. listening st F (cb_dport cb) q then listening st F (cb_dport cb) p
     else p = 0)"
proof -
  obtain p where p: "tcp_sock_lookup_established st (cb_daddr cb) (cb_saddr cb) (cb_dport cb) (cb_sport cb) = Inr p"
    "\<forall>q. connected st F (cb_daddr cb, cb_saddr cb, cb_dport cb, cb_sport cb) q \<longleftrightarrow> q = p \<and> p \<noteq> 0"
    using lookup_established_iff [OF assms] by blast
  obtain r where r: "tcp_sock_lookup_listen st (cb_daddr cb) (cb_dport cb) = Inr r"
    "r = 0 \<longrightarrow> (\<forall>q. \<not> listening st F (cb_dport cb) q)" "r \<noteq> 0 \<longrightarrow> listening st F (cb_dport cb) r"
    using lookup_listen_iff [OF assms] by blast
  show ?thesis
  proof (cases "p = 0")
    case True
    with p r show ?thesis by (auto simp: tcp_sock_lookup_def)
  next
    case False
    with p show ?thesis by (auto simp: tcp_sock_lookup_def)
  qed
qed

text \<open>A listening socket in a sound stack, for the examples.\<close>

lemma sample_listener:
  "\<exists>st F. stack_ok st F \<and> dom (socks st) = {20480} \<and> listening st F 80 20480 \<and>
     (\<forall>k q. \<not> connected st F k q)"
proof -
  obtain st F where st: "stack_ok st F" "socks st = [20480 \<mapsto> fresh_sock]" "\<forall>H m. \<not> linked F H m"
    using sample_socket [of 6] by auto
  then have new: "\<not> hashed F 20480" "\<not> bound F 20480" by (simp_all add: hashed_def bound_def)
  let ?sk = "fresh_sock\<lparr>sk_state := TCP_LISTEN, sk_sport := 80\<rparr>"
  let ?st = "st\<lparr>socks := (socks st)(20480 \<mapsto> ?sk)\<rparr>"
  have ok: "stack_ok ?st F"
    by (rule stack_ok_upd [OF st(1), of _ fresh_sock]) (use st(2) new in \<open>simp_all add: sock_ok_def gave_up_def\<close>)
  obtain h F' where h: "stack_ok (?st\<lparr>nodes := h, socks := (socks ?st)(20480 \<mapsto> ?sk\<lparr>ref_cnt := ref_cnt ?sk + 1\<rparr>)\<rparr>) F'"
    "\<forall>n. linked F' listen_heads n \<longleftrightarrow> n = 20480 + OFF_hash_list \<or> linked F listen_heads n"
    "\<forall>n. linked F' est_heads n = linked F est_heads n"
    using tcp_hash_listen_ok [OF ok, of 20480 ?sk] new(1) by auto
  from h st show ?thesis
    by (intro exI [of _ "?st\<lparr>nodes := h, socks := (socks ?st)(20480 \<mapsto> ?sk\<lparr>ref_cnt := ref_cnt ?sk + 1\<rparr>)\<rparr>"]
        exI [of _ F']) (auto simp: listening_def connected_def)
qed

theorem tcp_sock_lookup_exact_witness:
  "\<exists>st F. stack_ok st F \<and> dom (socks st) = {20480} \<and>
     tcp_sock_lookup st \<lparr>cb_saddr = 1, cb_daddr = 2, cb_sport = 3, cb_dport = 80, cb_seq = 0, cb_seq_end = 1,
       cb_ack = 0, cb_rwnd = 9, cb_flags = TCP_SYN, cb_payload = 54, cb_pl_len = 0\<rparr> = Inr 20480"
proof -
  obtain st F where st: "stack_ok st F" "dom (socks st) = {20480}" "listening st F 80 20480"
    "\<forall>k q. \<not> connected st F k q"
    using sample_listener by blast
  have "q = 20480" if "listening st F 80 q" for q
    using that st(2) unfolding listening_def by (metis domI singletonD)
  moreover have "\<exists>p. tcp_sock_lookup st \<lparr>cb_saddr = 1, cb_daddr = 2, cb_sport = 3, cb_dport = 80,
      cb_seq = 0, cb_seq_end = 1, cb_ack = 0, cb_rwnd = 9, cb_flags = TCP_SYN, cb_payload = 54, cb_pl_len = 0\<rparr> = Inr p \<and>
      listening st F 80 p"
    using tcp_sock_lookup_exact [OF st(1), of "\<lparr>cb_saddr = 1, cb_daddr = 2, cb_sport = 3, cb_dport = 80,
      cb_seq = 0, cb_seq_end = 1, cb_ack = 0, cb_rwnd = 9, cb_flags = TCP_SYN, cb_payload = 54, cb_pl_len = 0\<rparr>"]
    unfolding tcp_cb.select_convs using st(3,4) by meson
  ultimately show ?thesis using st(1,2) by blast
qed

text \<open>
  C5: \<^verbatim>\<open>tcp_hash\<close> adds a connection to the established table unless its key is taken.
  With a key in use it returns \<open>-1\<close> and changes nothing; otherwise it returns \<open>0\<close>, counts one
  more reference, lookup of the key now returns the socket, every other connection and
  listener is found as before, and the stack stays sound.
\<close>

theorem tcp_hash_inserts:
  assumes "stack_ok st F" and "socks st p = Some sk" and "\<not> hashed F p"
    and "sk_state sk \<notin> {TCP_CLOSED, TCP_LISTEN}"
  shows "if \<exists>q. connected st F (sock_key sk) q then tcp_hash st p = Inr (- 1, st)
    else \<exists>st' F'. tcp_hash st p = Inr (0, st') \<and> stack_ok st' F' \<and>
      socks st' = (socks st)(p \<mapsto> sk\<lparr>ref_cnt := ref_cnt sk + 1\<rparr>) \<and>
      tcp_sock_lookup_established st' (sk_sip sk) (sk_dip sk) (sk_sport sk) (sk_dport sk) = Inr p \<and>
      (\<forall>k q. connected st' F' k q \<longleftrightarrow> (k = sock_key sk \<and> q = p) \<or> connected st F k q) \<and>
      (\<forall>port q. listening st' F' port q = listening st F port q)"
proof (cases "\<exists>q. connected st F (sock_key sk) q")
  case True
  with tcp_hash_dup [OF assms(1,2,4)] show ?thesis by auto
next
  case False
  let ?sk = "sk\<lparr>ref_cnt := ref_cnt sk + 1\<rparr>"
  from False tcp_hash_est_ok [OF assms] obtain h F' where
    run: "tcp_hash st p = Inr (0, st\<lparr>nodes := h, socks := (socks st)(p \<mapsto> ?sk)\<rparr>)"
    and ok: "stack_ok (st\<lparr>nodes := h, socks := (socks st)(p \<mapsto> ?sk)\<rparr>) F'"
    and L: "\<forall>n. linked F' est_heads n \<longleftrightarrow> n = p + OFF_hash_list \<or> linked F est_heads n"
      "\<forall>n. linked F' listen_heads n = linked F listen_heads n" by blast
  let ?st = "st\<lparr>nodes := h, socks := (socks st)(p \<mapsto> ?sk)\<rparr>"
  have key: "sock_key ?sk = sock_key sk" "sk_sport ?sk = sk_sport sk" by (simp_all add: sock_key_def)
  have old: "\<not> linked F est_heads (p + OFF_hash_list)" "\<not> linked F listen_heads (p + OFF_hash_list)"
    using assms(3) by (auto simp: hashed_def hash_heads_split linked_def)
  have C: "connected ?st F' k q \<longleftrightarrow> (k = sock_key sk \<and> q = p) \<or> connected st F k q" for k q
    using assms(2) key old(1) by (auto simp: connected_def L)
  have M: "listening ?st F' port q = listening st F port q" for port q
    using assms(2) key old(2) by (auto simp: listening_def L)
  have "connected ?st F' (sk_sip sk, sk_dip sk, sk_sport sk, sk_dport sk) p"
    by (simp add: C sock_key_def)
  with lookup_established_iff [OF ok] have
    "tcp_sock_lookup_established ?st (sk_sip sk) (sk_dip sk) (sk_sport sk) (sk_dport sk) = Inr p"
    by metis
  with run ok C M False show ?thesis by auto
qed

theorem tcp_hash_inserts_witness:
  "\<exists>st F. stack_ok st F \<and> connected st F (1, 2, 3, 4) 20480 \<and>
     tcp_sock_lookup_established st 1 2 3 4 = Inr 20480"
proof -
  obtain st F where st: "stack_ok st F" "socks st = [20480 \<mapsto> fresh_sock]" "\<forall>H m. \<not> linked F H m"
    using sample_socket [of 6] by auto
  then have new: "\<not> hashed F 20480" "\<not> bound F 20480" by (simp_all add: hashed_def bound_def)
  let ?sk = "fresh_sock\<lparr>sk_state := TCP_SYN_SENT, sk_sip := 1, sk_dip := 2, sk_sport := 3, sk_dport := 4\<rparr>"
  let ?st = "st\<lparr>socks := (socks st)(20480 \<mapsto> ?sk)\<rparr>"
  have ok: "stack_ok ?st F"
    by (rule stack_ok_upd [OF st(1), of _ fresh_sock]) (use st(2) new in \<open>simp_all add: sock_ok_def gave_up_def\<close>)
  have "\<not> connected ?st F k q" for k q using st(3) by (simp add: connected_def)
  with tcp_hash_inserts [OF ok, of 20480 ?sk] new obtain st' F' where "stack_ok st' F'"
    "tcp_sock_lookup_established st' 1 2 3 4 = Inr 20480" "connected st' F' (1, 2, 3, 4) 20480"
    by (auto simp: sock_key_def)
  then show ?thesis by blast
qed

text \<open>
  C30: The port check never finds a port in use. Because the loop of
  \<^verbatim>\<open>tcp_port_in_use\<close> names the wrong list member, in every sound stack it answers
  no for every port but zero, whichever sockets are bound, and \<^verbatim>\<open>tcp_get_port\<close>
  always hands out the same port, 12345.
\<close>

theorem port_check_blind:
  assumes "stack_ok st F"
  shows "(\<forall>port. port \<noteq> 0 \<longrightarrow> tcp_port_in_use st port = Inr False) \<and> tcp_get_port st = Inr 12345"
  using tcp_port_in_use_False [OF assms] tcp_get_port_first [OF assms] by blast

theorem port_check_blind_witness:
  "\<exists>st F sk. stack_ok st F \<and> socks st 20480 = Some sk \<and> sk_sport sk = 10001 \<and> bound F 20480 \<and>
     tcp_port_in_use st 10001 = Inr False \<and> tcp_get_port st = Inr 12345"
proof -
  obtain st F where st: "stack_ok st F" "socks st = [20480 \<mapsto> fresh_sock]" "\<forall>H m. \<not> linked F H m"
    using sample_socket [of 6] by auto
  let ?sk = "fresh_sock\<lparr>sk_sport := chosen_port 10001, ref_cnt := ref_cnt fresh_sock + 1\<rparr>"
  obtain h F' where h: "stack_ok (st\<lparr>nodes := h, socks := (socks st)(20480 \<mapsto> ?sk)\<rparr>) F'"
    "\<forall>q. bound F' q \<longleftrightarrow> q = 20480 \<or> bound F q"
    using tcp_sock_set_sport_ok [OF st(1), of 20480 fresh_sock 10001] st by (auto simp: hashed_def bound_def)
  from port_check_blind [OF h(1)] h show ?thesis
    by (intro exI [of _ "st\<lparr>nodes := h, socks := (socks st)(20480 \<mapsto> ?sk)\<rparr>"] exI [of _ F'] exI [of _ ?sk])
      (simp add: chosen_port_def)
qed

end
