(* ===== verification/Tcp_Out.thy ===== *)
theory Tcp_Out
  imports Tcp_Tables
begin

text \<open>
  Building and sending segments: \<^verbatim>\<open>tcp_out.c\<close>. \<^verbatim>\<open>ip_init_hdr\<close> and
  \<^verbatim>\<open>ip_send_packet\<close> belong to the prebuilt IP library. The first is a parameter of
  the sending functions, given the 20 bytes of the header's memory and the arguments of the
  call; a packet handed to the second is appended to \<open>sent\<close>.
\<close>

type_synonym ip_init = "u8 list \<Rightarrow> u32 \<Rightarrow> u32 \<Rightarrow> u16 \<Rightarrow> u8 \<Rightarrow> u8 list"

text \<open>
  What the senders rely on: \<^verbatim>\<open>ip_init_hdr (ip, saddr, daddr, len, proto)\<close> fills in a
  20-byte header with these values, in network order.
\<close>

definition ip_init_hdr_ok :: "ip_init \<Rightarrow> bool" where
  "ip_init_hdr_ok ip_init_hdr \<longleftrightarrow>
     (\<forall>old saddr daddr len proto. length old = 20 \<longrightarrow>
        (\<exists>h. ip_init_hdr old saddr daddr len proto = iphdr_bytes h \<and> ip_ihl h = 5 \<and>
           ip_tot_len h = htons len \<and> ip_protocol h = proto \<and>
           ip_saddr h = htonl saddr \<and> ip_daddr h = htonl daddr))"

definition IPPROTO_ICMP :: u8 where "IPPROTO_ICMP = 1"
definition IPPROTO_TCP :: u8 where "IPPROTO_TCP = 6"

definition tcp_init_hdr :: "u16 \<Rightarrow> u16 \<Rightarrow> u32 \<Rightarrow> u32 \<Rightarrow> u8 \<Rightarrow> u16 \<Rightarrow> tcphdr" where
  "tcp_init_hdr sport dport sq ack flags rwnd =
     \<lparr>th_sport = htons sport, th_dport = htons dport, th_seq = htonl sq, th_ack = htonl ack,
       th_x2 = 0, th_off = TCP_HDR_OFFSET, th_flags = flags, th_rwnd = htons rwnd,
       th_csum = 0, th_urp = 0\<rparr>"

text \<open>The call \<^verbatim>\<open>ip_init_hdr (ip, \<dots>)\<close> on the header memory inside a packet.\<close>

definition put_ip_hdr :: "ip_init \<Rightarrow> u8 list \<Rightarrow> nat \<Rightarrow> u32 \<Rightarrow> u32 \<Rightarrow> u16 \<Rightarrow> u8 \<Rightarrow> u8 list res" where
  "put_ip_hdr ip_init_hdr pkt ip saddr daddr len proto =
     rbind (rd_bytes pkt (int ip) 20) (\<lambda>old.
     wr_bytes pkt (int ip) (ip_init_hdr old saddr daddr len proto))"

definition put_tcp_hdr :: "u8 list \<Rightarrow> nat \<Rightarrow> tcphdr \<Rightarrow> u8 list res" where
  "put_tcp_hdr pkt tcp h = wr_bytes pkt (int tcp) (tcphdr_bytes h)"

definition ip_send_packet :: "stack \<Rightarrow> u8 list \<Rightarrow> stack" where
  "ip_send_packet st pkt = st\<lparr>sent := sent st @ [pkt]\<rparr>"

definition tcp_send_packet :: "ip_init \<Rightarrow> stack \<Rightarrow> addr \<Rightarrow> u8 list \<Rightarrow> int \<Rightarrow> stack res" where
  "tcp_send_packet ip_init_hdr st tsk packet len =
     (let ip = packet_to_ip_hdr; tcp = ip + IP_BASE_HDR_SIZE;
          ip_tot_len = to_int32 (len - int ETHER_HDR_SIZE);
          tcp_data_len = to_int32 (ip_tot_len - int IP_BASE_HDR_SIZE - int TCP_BASE_HDR_SIZE) in
      rbind (rd_sock st tsk) (\<lambda>sk.
      rbind (put_tcp_hdr packet tcp (tcp_init_hdr (sk_sport sk) (sk_dport sk) (snd_nxt sk) (rcv_nxt sk)
               (TCP_PSH OR TCP_ACK) (rcv_wnd sk))) (\<lambda>pkt.
      rbind (put_ip_hdr ip_init_hdr pkt ip (sk_sip sk) (sk_dip sk) (word_of_int ip_tot_len) IPPROTO_TCP) (\<lambda>pkt.
      rbind (tcp_checksum pkt ip tcp) (\<lambda>c.
      rbind (wr16 pkt (tcp + 16) c) (\<lambda>pkt.
      rbind (ip_checksum pkt ip) (\<lambda>d.
      rbind (wr16 pkt (ip + 10) d) (\<lambda>pkt.
      rbind (upd_sock st tsk (\<lambda>sk. sk\<lparr>snd_nxt := snd_nxt sk + word_of_int tcp_data_len,
               snd_wnd := snd_wnd sk - word_of_int tcp_data_len\<rparr>)) (\<lambda>st.
      Inr (ip_send_packet st pkt))))))))))"

definition CTRL_PKT_SIZE :: nat where
  "CTRL_PKT_SIZE = ETHER_HDR_SIZE + IP_BASE_HDR_SIZE + TCP_BASE_HDR_SIZE"

definition tcp_send_control_packet :: "ip_init \<Rightarrow> stack \<Rightarrow> addr \<Rightarrow> u8 \<Rightarrow> stack res" where
  "tcp_send_control_packet ip_init_hdr st tsk flags =
     (case malloc st of (p, junk, st) \<Rightarrow>
      if p = 0 then Inr st
      else
        let packet = map junk [0..<CTRL_PKT_SIZE];
            ip = packet_to_ip_hdr; tcp = ip + IP_BASE_HDR_SIZE;
            tot_len = word_of_nat (IP_BASE_HDR_SIZE + TCP_BASE_HDR_SIZE) :: u16 in
        rbind (rd_sock st tsk) (\<lambda>sk.
        rbind (put_ip_hdr ip_init_hdr packet ip (sk_sip sk) (sk_dip sk) tot_len IPPROTO_TCP) (\<lambda>pkt.
        rbind (put_tcp_hdr pkt tcp (tcp_init_hdr (sk_sport sk) (sk_dport sk) (snd_nxt sk) (rcv_nxt sk)
                 flags (rcv_wnd sk))) (\<lambda>pkt.
        rbind (tcp_checksum pkt ip tcp) (\<lambda>c.
        rbind (wr16 pkt (tcp + 16) c) (\<lambda>pkt.
        rbind (if flags AND (TCP_SYN OR TCP_FIN) \<noteq> 0
               then upd_sock st tsk (\<lambda>sk. sk\<lparr>snd_nxt := snd_nxt sk + 1\<rparr>) else Inr st) (\<lambda>st.
        Inr (ip_send_packet st pkt)))))))) "

definition tcp_send_reset :: "ip_init \<Rightarrow> stack \<Rightarrow> tcp_cb \<Rightarrow> stack res" where
  "tcp_send_reset ip_init_hdr st cb =
     (case malloc st of (p, junk, st) \<Rightarrow>
      if p = 0 then Inr st
      else
        let packet = map junk [0..<CTRL_PKT_SIZE];
            ip = packet_to_ip_hdr; tcp = ip + IP_BASE_HDR_SIZE;
            tot_len = word_of_nat (IP_BASE_HDR_SIZE + TCP_BASE_HDR_SIZE) :: u16 in
        rbind (put_ip_hdr ip_init_hdr packet ip (cb_daddr cb) (cb_saddr cb) tot_len IPPROTO_TCP) (\<lambda>pkt.
        rbind (put_tcp_hdr pkt tcp (tcp_init_hdr (cb_dport cb) (cb_sport cb) 0 (cb_seq_end cb)
                 (TCP_RST OR TCP_ACK) 0)) (\<lambda>pkt.
        rbind (tcp_checksum pkt ip tcp) (\<lambda>c.
        rbind (wr16 pkt (tcp + 16) c) (\<lambda>pkt.
        Inr (ip_send_packet st pkt))))))"

section \<open>What arrives\<close>

text \<open>
  A segment as the peer sees it: the received bytes, at the usual offsets, pass the checksum
  test of \<^verbatim>\<open>handle_tcp_packet\<close> and \<^verbatim>\<open>tcp_cb_init\<close> reads \<open>cb\<close> from them.
\<close>

definition received :: "u8 list \<Rightarrow> tcp_cb \<Rightarrow> bool" where
  "received pkt cb \<longleftrightarrow> (\<exists>c. tcp_checksum pkt 14 34 = Inr c \<and> rd16 pkt 50 = Inr c) \<and>
     tcp_cb_init pkt 14 34 = Inr cb"

text \<open>The two headers as the senders lay them out around a payload.\<close>

definition ip_ready :: "iphdr \<Rightarrow> u32 \<Rightarrow> u32 \<Rightarrow> nat \<Rightarrow> bool" where
  "ip_ready h saddr daddr n \<longleftrightarrow> ip_ihl h = 5 \<and> ip_tot_len h = htons (word_of_nat (40 + n)) \<and>
     ip_protocol h = IPPROTO_TCP \<and> ip_saddr h = htonl saddr \<and> ip_daddr h = htonl daddr"

definition cb_of :: "u32 \<Rightarrow> u32 \<Rightarrow> u16 \<Rightarrow> u16 \<Rightarrow> u32 \<Rightarrow> u32 \<Rightarrow> u8 \<Rightarrow> u16 \<Rightarrow> nat \<Rightarrow> tcp_cb" where
  "cb_of saddr daddr sport dport sq ack flags rwnd n =
     \<lparr>cb_saddr = saddr, cb_daddr = daddr, cb_sport = sport, cb_dport = dport, cb_seq = sq,
       cb_seq_end = sq + word_of_nat n + (if flags AND (TCP_SYN OR TCP_FIN) \<noteq> 0 then 1 else 0),
       cb_ack = ack, cb_rwnd = ucast rwnd, cb_flags = flags, cb_payload = 54, cb_pl_len = int n\<rparr>"

lemma put_ip_hdr_built:
  assumes "ip_init_hdr_ok f" "length e = 14" "length m = 20"
  shows "\<exists>h. put_ip_hdr f (e @ m @ rest) 14 saddr daddr (word_of_nat (40 + n)) IPPROTO_TCP =
      Inr (e @ iphdr_bytes h @ rest) \<and> ip_ready h saddr daddr n"
proof -
  from assms(1,3) obtain h where "f m saddr daddr (word_of_nat (40 + n)) IPPROTO_TCP = iphdr_bytes h"
    "ip_ready h saddr daddr n"
    unfolding ip_init_hdr_ok_def ip_ready_def by metis
  with assms(2,3) show ?thesis
    by (auto simp: put_ip_hdr_def rd_bytes_def wr_bytes_def blit_def)
qed

lemma put_tcp_hdr_built:
  "length e = 34 \<Longrightarrow> length m = 20 \<Longrightarrow> put_tcp_hdr (e @ m @ rest) 34 t = Inr (e @ tcphdr_bytes t @ rest)"
  by (simp add: put_tcp_hdr_def wr_bytes_def blit_def)

text \<open>Computing the TCP checksum and storing it.\<close>

lemma seal_built:
  assumes "length e = 14" "ip_ready h saddr daddr (length payload)" "length payload \<le> 65495"
  shows "\<exists>c. tcp_checksum (e @ iphdr_bytes h @ tcphdr_bytes t @ payload) 14 34 = Inr c \<and>
    wr16 (e @ iphdr_bytes h @ tcphdr_bytes t @ payload) 50 c =
      Inr (e @ iphdr_bytes h @ tcphdr_bytes (t\<lparr>th_csum := c\<rparr>) @ payload) \<and>
    (\<forall>d. tcp_checksum (e @ iphdr_bytes (h\<lparr>ip_csum := d\<rparr>) @ tcphdr_bytes (t\<lparr>th_csum := c\<rparr>) @ payload) 14 34 = Inr c)"
proof -
  have h: "ip_ihl h = 5" "ip_tot_len h = htons (word_of_nat (40 + length payload))"
    using assms(2) by (simp_all add: ip_ready_def)
  let ?sum = "checksum (tcphdr_bytes (t\<lparr>th_csum := 0\<rparr>) @ payload) (20 + length payload)
      (ip_saddr h + ip_daddr h + ucast (htons (ucast (ip_protocol h))) +
       ucast (htons (word_of_nat (20 + length payload))))"
  have run: "tcp_checksum (e @ iphdr_bytes (h\<lparr>ip_csum := d\<rparr>) @ tcphdr_bytes (t\<lparr>th_csum := c\<rparr>) @ payload) 14 34 = ?sum" for d c
    using tcp_checksum_built [of "h\<lparr>ip_csum := d\<rparr>" payload e "t\<lparr>th_csum := c\<rparr>"] assms(1,3) h by simp
  have "\<exists>c. ?sum = Inr c" by (rule checksum_total) simp
  then obtain c where c: "?sum = Inr c" by blast
  have "wr16 (e @ iphdr_bytes h @ tcphdr_bytes t @ payload) 50 c =
      Inr (e @ iphdr_bytes h @ tcphdr_bytes (t\<lparr>th_csum := c\<rparr>) @ payload)"
    using wr16_shift [of "e @ iphdr_bytes h" "tcphdr_bytes t @ payload" 16 c] assms(1) by simp
  moreover have "tcp_checksum (e @ iphdr_bytes h @ tcphdr_bytes t @ payload) 14 34 = Inr c"
    using run [of "ip_csum h" "th_csum t"] c by simp
  ultimately show ?thesis using run c by auto
qed

lemma received_built:
  assumes "length e = 14" "ip_ready h saddr daddr (length payload)" "length payload \<le> 65495"
    and "tcp_checksum (e @ iphdr_bytes h @ tcphdr_bytes (t\<lparr>th_csum := c\<rparr>) @ payload) 14 34 = Inr c"
    and t: "t = tcp_init_hdr sport dport sq ack flags rwnd"
  shows "received (e @ iphdr_bytes h @ tcphdr_bytes (t\<lparr>th_csum := c\<rparr>) @ payload)
    (cb_of saddr daddr sport dport sq ack flags rwnd (length payload))"
proof -
  have "rd16 (e @ iphdr_bytes h @ tcphdr_bytes (t\<lparr>th_csum := c\<rparr>) @ payload) 50 = Inr c"
    using rd_shift(2) [of "e @ iphdr_bytes h" "tcphdr_bytes (t\<lparr>th_csum := c\<rparr>) @ payload" 16] assms(1) by simp
  moreover have "tcp_cb_init (e @ iphdr_bytes h @ tcphdr_bytes (t\<lparr>th_csum := c\<rparr>) @ payload) 14 34 =
      Inr (cb_of saddr daddr sport dport sq ack flags rwnd (length payload))"
    using tcp_cb_init_built [of h "t\<lparr>th_csum := c\<rparr>" payload e] assms(1-3)
    by (simp add: ip_ready_def t tcp_init_hdr_def TCP_HDR_OFFSET_def cb_of_def)
  ultimately show ?thesis using assms(4) by (simp add: received_def)
qed

text \<open>A header-only packet, built in a fresh block of 54 bytes.\<close>

lemma split_block: "\<exists>e m1 m2. map junk [0..<CTRL_PKT_SIZE] = e @ m1 @ m2 \<and> length e = 14 \<and> length m1 = 20 \<and> length m2 = 20"
proof -
  let ?L = "map junk [0..<CTRL_PKT_SIZE]"
  have "?L = take 14 ?L @ take 20 (drop 14 ?L) @ drop 20 (drop 14 ?L)" by (simp only: append_take_drop_id)
  then show ?thesis
    by (intro exI [of _ "take 14 ?L"] exI [of _ "take 20 (drop 14 ?L)"] exI [of _ "drop 20 (drop 14 ?L)"])
      (simp add: CTRL_PKT_SIZE_def size_defs)
qed

lemma build_header_only:
  assumes f: "ip_init_hdr_ok f"
  shows "\<exists>pkt. length pkt = 54 \<and> received pkt (cb_of saddr daddr sport dport sq ack flags rwnd 0) \<and>
    (\<forall>k. rbind (put_ip_hdr f (map junk [0..<CTRL_PKT_SIZE]) 14 saddr daddr 40 IPPROTO_TCP) (\<lambda>pkt.
       rbind (put_tcp_hdr pkt 34 (tcp_init_hdr sport dport sq ack flags rwnd)) (\<lambda>pkt.
       rbind (tcp_checksum pkt 14 34) (\<lambda>c. rbind (wr16 pkt 50 c) k))) = k pkt)"
proof -
  obtain e m1 m2 where m: "map junk [0..<CTRL_PKT_SIZE] = e @ m1 @ m2" "length e = 14" "length m1 = 20" "length m2 = 20"
    using split_block by blast
  let ?t = "tcp_init_hdr sport dport sq ack flags rwnd"
  obtain h where h: "put_ip_hdr f (e @ m1 @ m2) 14 saddr daddr 40 IPPROTO_TCP = Inr (e @ iphdr_bytes h @ m2)"
    "ip_ready h saddr daddr (length ([] :: u8 list))"
    using put_ip_hdr_built [OF f m(2,3), of m2 saddr daddr 0] by auto
  have t: "put_tcp_hdr (e @ iphdr_bytes h @ m2) 34 ?t = Inr (e @ iphdr_bytes h @ tcphdr_bytes ?t)"
    using put_tcp_hdr_built [of "e @ iphdr_bytes h" m2 "[]" ?t] m by simp
  obtain c where c: "tcp_checksum (e @ iphdr_bytes h @ tcphdr_bytes ?t) 14 34 = Inr c"
    "wr16 (e @ iphdr_bytes h @ tcphdr_bytes ?t) 50 c = Inr (e @ iphdr_bytes h @ tcphdr_bytes (?t\<lparr>th_csum := c\<rparr>))"
    "\<forall>d. tcp_checksum (e @ iphdr_bytes (h\<lparr>ip_csum := d\<rparr>) @ tcphdr_bytes (?t\<lparr>th_csum := c\<rparr>)) 14 34 = Inr c"
    using seal_built [OF m(2) h(2)] by auto
  have "tcp_checksum (e @ iphdr_bytes h @ tcphdr_bytes (?t\<lparr>th_csum := c\<rparr>)) 14 34 = Inr c"
    using spec [OF c(3), of "ip_csum h"] by simp
  then have "received (e @ iphdr_bytes h @ tcphdr_bytes (?t\<lparr>th_csum := c\<rparr>))
      (cb_of saddr daddr sport dport sq ack flags rwnd 0)"
    using received_built [OF m(2) h(2), where t = ?t and c = c] by simp
  with m h(1) t c(1,2) show ?thesis by (intro exI [of _ "e @ iphdr_bytes h @ tcphdr_bytes (?t\<lparr>th_csum := c\<rparr>)"]) simp
qed

lemma tcp_send_control_packet_ok:
  assumes f: "ip_init_hdr_ok f" and m: "mallocs st = (a, junk) # ms" "a \<noteq> 0" and sk: "socks st p = Some sk"
  shows "\<exists>pkt. tcp_send_control_packet f st p flags = Inr (st\<lparr>mallocs := ms,
      socks := (socks st)(p \<mapsto> sk\<lparr>snd_nxt := snd_nxt sk + (if flags AND (TCP_SYN OR TCP_FIN) \<noteq> 0 then 1 else 0)\<rparr>),
      sent := sent st @ [pkt]\<rparr>) \<and> length pkt = 54 \<and>
    received pkt (cb_of (sk_sip sk) (sk_dip sk) (sk_sport sk) (sk_dport sk) (snd_nxt sk) (rcv_nxt sk) flags (rcv_wnd sk) 0)"
proof -
  obtain pkt where pkt: "length pkt = 54"
    "received pkt (cb_of (sk_sip sk) (sk_dip sk) (sk_sport sk) (sk_dport sk) (snd_nxt sk) (rcv_nxt sk) flags (rcv_wnd sk) 0)"
    "\<And>k :: u8 list \<Rightarrow> stack res. rbind (put_ip_hdr f (map junk [0..<CTRL_PKT_SIZE]) 14 (sk_sip sk) (sk_dip sk) 40 IPPROTO_TCP) (\<lambda>pkt.
       rbind (put_tcp_hdr pkt 34 (tcp_init_hdr (sk_sport sk) (sk_dport sk) (snd_nxt sk) (rcv_nxt sk) flags (rcv_wnd sk))) (\<lambda>pkt.
       rbind (tcp_checksum pkt 14 34) (\<lambda>c. rbind (wr16 pkt 50 c) k))) = k pkt"
    using build_header_only [OF f] by metis
  have "tcp_send_control_packet f st p flags =
      rbind (if flags AND (TCP_SYN OR TCP_FIN) \<noteq> 0
        then upd_sock (st\<lparr>mallocs := ms\<rparr>) p (\<lambda>sk. sk\<lparr>snd_nxt := snd_nxt sk + 1\<rparr>) else Inr (st\<lparr>mallocs := ms\<rparr>))
        (\<lambda>st. Inr (ip_send_packet st pkt))"
    using m sk pkt(3) unfolding tcp_send_control_packet_def malloc_def
    by (simp add: rd_sock_def Let_def packet_to_ip_hdr_def size_defs cong del: rbind_cong)
  moreover have "(socks st)(p \<mapsto> sk) = socks st" using sk by (simp add: fun_upd_idem)
  ultimately show ?thesis using sk pkt(1,2)
    by (intro exI [of _ pkt]) (cases st; simp add: upd_sock_def rd_sock_def ip_send_packet_def)
qed

lemma tcp_send_reset_ok:
  assumes f: "ip_init_hdr_ok f" and m: "mallocs st = (a, junk) # ms" "a \<noteq> 0"
  shows "\<exists>pkt. tcp_send_reset f st cb = Inr (st\<lparr>mallocs := ms, sent := sent st @ [pkt]\<rparr>) \<and> length pkt = 54 \<and>
    received pkt (cb_of (cb_daddr cb) (cb_saddr cb) (cb_dport cb) (cb_sport cb) 0 (cb_seq_end cb) (TCP_RST OR TCP_ACK) 0 0)"
proof -
  obtain pkt where pkt: "length pkt = 54"
    "received pkt (cb_of (cb_daddr cb) (cb_saddr cb) (cb_dport cb) (cb_sport cb) 0 (cb_seq_end cb) (TCP_RST OR TCP_ACK) 0 0)"
    "\<And>k :: u8 list \<Rightarrow> stack res. rbind (put_ip_hdr f (map junk [0..<CTRL_PKT_SIZE]) 14 (cb_daddr cb) (cb_saddr cb) 40 IPPROTO_TCP) (\<lambda>pkt.
       rbind (put_tcp_hdr pkt 34 (tcp_init_hdr (cb_dport cb) (cb_sport cb) 0 (cb_seq_end cb) (TCP_RST OR TCP_ACK) 0)) (\<lambda>pkt.
       rbind (tcp_checksum pkt 14 34) (\<lambda>c. rbind (wr16 pkt 50 c) k))) = k pkt"
    using build_header_only [OF f] by metis
  have "tcp_send_reset f st cb = Inr (ip_send_packet (st\<lparr>mallocs := ms\<rparr>) pkt)"
    using m pkt(3) unfolding tcp_send_reset_def malloc_def
    by (simp add: Let_def packet_to_ip_hdr_def size_defs cong del: rbind_cong)
  with pkt(1,2) show ?thesis by (auto simp: ip_send_packet_def)
qed

lemma send_nomem:
  assumes "mallocs st = [] \<or> fst (hd (mallocs st)) = 0"
  shows "tcp_send_control_packet f st p flags = Inr (st\<lparr>mallocs := tl (mallocs st)\<rparr>)"
    "tcp_send_reset f st cb = Inr (st\<lparr>mallocs := tl (mallocs st)\<rparr>)"
  using assms by (cases "mallocs st"; auto simp: tcp_send_control_packet_def tcp_send_reset_def malloc_def split: prod.splits)+

text \<open>A segment with data: the packet holds room for the headers, then the payload.\<close>

lemma ip_checksum_built:
  assumes "length e = 14" "ip_ihl h = 5"
  shows "\<exists>d. ip_checksum (e @ iphdr_bytes h @ rest) 14 = Inr d \<and>
    wr16 (e @ iphdr_bytes h @ rest) 24 d = Inr (e @ iphdr_bytes (h\<lparr>ip_csum := d\<rparr>) @ rest)"
proof -
  have wr: "wr16 (e @ iphdr_bytes h @ rest) (14 + 10) v = Inr (e @ iphdr_bytes (h\<lparr>ip_csum := v\<rparr>) @ rest)" for v
    using wr16_shift [of e "iphdr_bytes h @ rest" 10 v] assms(1) by simp
  have rd: "rd16 (e @ iphdr_bytes h @ rest) (14 + 10) = Inr (ip_csum h)"
    using rd_shift(2) [of e "iphdr_bytes h @ rest" 10] assms(1) by simp
  have ihl: "rd8 (e @ iphdr_bytes (h\<lparr>ip_csum := 0\<rparr>) @ rest) 14 = Inr (nibbles 5 (ip_version h))"
    using rd_shift_0(1) [of e "iphdr_bytes (h\<lparr>ip_csum := 0\<rparr>) @ rest"] assms by simp
  have "\<exists>d. checksum (drop 14 (e @ iphdr_bytes (h\<lparr>ip_csum := 0\<rparr>) @ rest)) 20 0 = Inr d"
    by (rule checksum_total) (simp add: assms(1))
  then obtain d where "checksum (drop 14 (e @ iphdr_bytes (h\<lparr>ip_csum := 0\<rparr>) @ rest)) 20 0 = Inr d" by blast
  then have "ip_checksum (e @ iphdr_bytes h @ rest) 14 = Inr d"
    by (simp only: ip_checksum_def rd wr rbind_Inr IP_HDR_SIZE_def ihl nibble_simps) simp
  with wr [of d] show ?thesis by simp
qed

lemma tcp_send_packet_ok:
  assumes f: "ip_init_hdr_ok f" and sk: "socks st p = Some sk"
    and pkt: "length e = 14" "length m1 = 20" "length m2 = 20" "length payload \<le> 65495"
  shows "\<exists>pkt. tcp_send_packet f st p (e @ m1 @ m2 @ payload) (int (54 + length payload)) =
      Inr (st\<lparr>socks := (socks st)(p \<mapsto> sk\<lparr>snd_nxt := snd_nxt sk + word_of_nat (length payload),
        snd_wnd := snd_wnd sk - word_of_nat (length payload)\<rparr>), sent := sent st @ [pkt]\<rparr>) \<and>
    length pkt = 54 + length payload \<and> drop 54 pkt = payload \<and>
    received pkt (cb_of (sk_sip sk) (sk_dip sk) (sk_sport sk) (sk_dport sk) (snd_nxt sk) (rcv_nxt sk)
      (TCP_PSH OR TCP_ACK) (rcv_wnd sk) (length payload)) \<and>
    ip_checksum pkt 14 = rd16 pkt 24"
proof -
  let ?n = "length payload"
  let ?t = "tcp_init_hdr (sk_sport sk) (sk_dport sk) (snd_nxt sk) (rcv_nxt sk) (TCP_PSH OR TCP_ACK) (rcv_wnd sk)"
  have t: "put_tcp_hdr (e @ m1 @ m2 @ payload) 34 ?t = Inr (e @ m1 @ tcphdr_bytes ?t @ payload)"
    using put_tcp_hdr_built [of "e @ m1" m2 payload ?t] pkt by simp
  obtain h where h: "put_ip_hdr f (e @ m1 @ tcphdr_bytes ?t @ payload) 14 (sk_sip sk) (sk_dip sk)
      (word_of_nat (40 + ?n)) IPPROTO_TCP = Inr (e @ iphdr_bytes h @ tcphdr_bytes ?t @ payload)"
    "ip_ready h (sk_sip sk) (sk_dip sk) ?n"
    using put_ip_hdr_built [OF f pkt(1,2)] by blast
  obtain c where c: "tcp_checksum (e @ iphdr_bytes h @ tcphdr_bytes ?t @ payload) 14 34 = Inr c"
    "wr16 (e @ iphdr_bytes h @ tcphdr_bytes ?t @ payload) 50 c =
      Inr (e @ iphdr_bytes h @ tcphdr_bytes (?t\<lparr>th_csum := c\<rparr>) @ payload)"
    "\<And>d. tcp_checksum (e @ iphdr_bytes (h\<lparr>ip_csum := d\<rparr>) @ tcphdr_bytes (?t\<lparr>th_csum := c\<rparr>) @ payload) 14 34 = Inr c"
    using seal_built [OF pkt(1) h(2) pkt(4)] by blast
  have ihl: "ip_ihl h = 5" using h(2) by (simp add: ip_ready_def)
  from ip_checksum_built [OF pkt(1) this] obtain d where
    d: "ip_checksum (e @ iphdr_bytes h @ tcphdr_bytes (?t\<lparr>th_csum := c\<rparr>) @ payload) 14 = Inr d"
    "wr16 (e @ iphdr_bytes h @ tcphdr_bytes (?t\<lparr>th_csum := c\<rparr>) @ payload) 24 d =
      Inr (e @ iphdr_bytes (h\<lparr>ip_csum := d\<rparr>) @ tcphdr_bytes (?t\<lparr>th_csum := c\<rparr>) @ payload)"
    by metis
  let ?out = "e @ iphdr_bytes (h\<lparr>ip_csum := d\<rparr>) @ tcphdr_bytes (?t\<lparr>th_csum := c\<rparr>) @ payload"
  have ready: "ip_ready (h\<lparr>ip_csum := d\<rparr>) (sk_sip sk) (sk_dip sk) ?n" using h(2) by (simp add: ip_ready_def)
  have rec: "received ?out (cb_of (sk_sip sk) (sk_dip sk) (sk_sport sk) (sk_dport sk) (snd_nxt sk) (rcv_nxt sk)
      (TCP_PSH OR TCP_ACK) (rcv_wnd sk) ?n)"
    by (rule received_built [OF pkt(1) ready pkt(4) c(3) refl])
  have "ip_checksum ?out 14 = ip_checksum (e @ iphdr_bytes h @ tcphdr_bytes (?t\<lparr>th_csum := c\<rparr>) @ payload) 14"
    unfolding ip_checksum_def using checksum_field_irrelevant [of _ "14 + 10" d ?out] d(2) by simp
  moreover have "rd16 ?out 24 = Inr d" using wr16_rd16 d(2) by blast
  ultimately have ipc: "ip_checksum ?out 14 = rd16 ?out 24" using d(1) by simp
  have len: "to_int32 (int (54 + ?n) - int 14) = int (40 + ?n)" "to_int32 (int (40 + ?n) - int 20 - int 20) = int ?n"
    using pkt(4) by (subst to_int32_id; simp)+
  have "tcp_send_packet f st p (e @ m1 @ m2 @ payload) (int (54 + ?n)) =
      Inr (ip_send_packet (st\<lparr>socks := (socks st)(p \<mapsto> sk\<lparr>snd_nxt := snd_nxt sk + word_of_nat ?n,
        snd_wnd := snd_wnd sk - word_of_nat ?n\<rparr>)\<rparr>) ?out)"
    using sk t h(1) c(1,2) d
    unfolding tcp_send_packet_def Let_def packet_to_ip_hdr_def size_defs len
    by (simp add: rd_sock_def upd_sock_def)
  with rec ipc pkt show ?thesis
    by (intro exI [of _ ?out]) (simp add: ip_send_packet_def)
qed

section \<open>Properties\<close>

text \<open>An instance of \<^verbatim>\<open>ip_init_hdr\<close> that does what the senders rely on.\<close>

definition sample_ip_init :: ip_init where
  "sample_ip_init old saddr daddr len proto = iphdr_bytes \<lparr>ip_ihl = 5, ip_version = 4, ip_tos = 0,
     ip_tot_len = htons len, ip_id = 0, ip_frag_off = 0, ip_ttl = 64, ip_protocol = proto, ip_csum = 0,
     ip_saddr = htonl saddr, ip_daddr = htonl daddr\<rparr>"

lemma sample_ip_init_ok: "ip_init_hdr_ok sample_ip_init"
  by (fastforce simp: ip_init_hdr_ok_def sample_ip_init_def)

text \<open>
  C9: A data segment arrives as it was sent. \<^verbatim>\<open>tcp_send_packet\<close> emits one packet of the
  given length with the payload untouched, both checksums in it verify, and the receiver's
  \<^verbatim>\<open>tcp_cb_init\<close> recovers the socket's addresses, ports, sequence numbers and window;
  the sender's \<^verbatim>\<open>snd_nxt\<close> advances and its send window shrinks by the payload's
  length.
\<close>

theorem tcp_send_packet_delivers:
  assumes "ip_init_hdr_ok f" and "socks st p = Some sk"
    and "length hdrs = 54" and "length payload \<le> 65495"
  shows "\<exists>pkt. tcp_send_packet f st p (hdrs @ payload) (int (54 + length payload)) =
      Inr (st\<lparr>socks := (socks st)(p \<mapsto> sk\<lparr>snd_nxt := snd_nxt sk + word_of_nat (length payload),
        snd_wnd := snd_wnd sk - word_of_nat (length payload)\<rparr>), sent := sent st @ [pkt]\<rparr>) \<and>
    length pkt = 54 + length payload \<and> drop 54 pkt = payload \<and>
    received pkt (cb_of (sk_sip sk) (sk_dip sk) (sk_sport sk) (sk_dport sk) (snd_nxt sk) (rcv_nxt sk)
      (TCP_PSH OR TCP_ACK) (rcv_wnd sk) (length payload)) \<and>
    ip_checksum pkt 14 = rd16 pkt 24"
proof -
  define e m1 m2 where "e = take 14 hdrs" and "m1 = take 20 (drop 14 hdrs)" and "m2 = drop 20 (drop 14 hdrs)"
  have "hdrs @ payload = e @ m1 @ m2 @ payload"
    unfolding e_def m1_def m2_def by (metis append.assoc append_take_drop_id)
  moreover have "length e = 14" "length m1 = 20" "length m2 = 20"
    using assms(3) by (simp_all add: e_def m1_def m2_def)
  ultimately show ?thesis using tcp_send_packet_ok [OF assms(1,2)] assms(4) by simp
qed

theorem tcp_send_packet_delivers_witness:
  "\<exists>pkt. tcp_send_packet sample_ip_init ((boot [])\<lparr>socks := [20480 \<mapsto> fresh_sock]\<rparr>) 20480 (replicate 54 0 @ [1, 2, 3]) 57 =
      Inr ((boot [])\<lparr>socks := [20480 \<mapsto> fresh_sock\<lparr>snd_nxt := 3, snd_wnd := - 3\<rparr>], sent := [pkt]\<rparr>) \<and>
    drop 54 pkt = [1, 2, 3] \<and> ip_checksum pkt 14 = rd16 pkt 24"
  using tcp_send_packet_delivers [OF sample_ip_init_ok, of "(boot [])\<lparr>socks := [20480 \<mapsto> fresh_sock]\<rparr>" 20480
      fresh_sock "replicate 54 0" "[1, 2, 3]"]
  by (auto simp: boot_def fresh_sock_def)

text \<open>
  C10: A control segment arrives as it was sent and costs one sequence number for SYN or FIN.
  When \<^verbatim>\<open>malloc\<close> delivers a block, \<^verbatim>\<open>tcp_send_control_packet\<close> emits one packet of
  54 bytes whose TCP checksum verifies and from which the receiver recovers the socket's four
  key values, \<^verbatim>\<open>snd_nxt\<close>, \<^verbatim>\<open>rcv_nxt\<close>, window and the flags; when \<^verbatim>\<open>malloc\<close>
  fails, nothing is sent and the socket keeps its sequence number.
\<close>

theorem tcp_send_control_packet_delivers:
  assumes "ip_init_hdr_ok f" and "mallocs st = (a, junk) # ms" and "socks st p = Some sk"
  shows "if a = 0 then tcp_send_control_packet f st p flags = Inr (st\<lparr>mallocs := ms\<rparr>)
    else \<exists>pkt. tcp_send_control_packet f st p flags = Inr (st\<lparr>mallocs := ms,
      socks := (socks st)(p \<mapsto> sk\<lparr>snd_nxt := snd_nxt sk + (if flags AND (TCP_SYN OR TCP_FIN) \<noteq> 0 then 1 else 0)\<rparr>),
      sent := sent st @ [pkt]\<rparr>) \<and> length pkt = 54 \<and>
    received pkt (cb_of (sk_sip sk) (sk_dip sk) (sk_sport sk) (sk_dport sk) (snd_nxt sk) (rcv_nxt sk) flags (rcv_wnd sk) 0)"
  using tcp_send_control_packet_ok [OF assms(1,2) _ assms(3)] send_nomem(1) [of st f p flags] assms(2) by simp

theorem tcp_send_control_packet_delivers_witness:
  "\<exists>pkt. tcp_send_control_packet sample_ip_init ((boot [(8, \<lambda>_. 7)])\<lparr>socks := [20480 \<mapsto> fresh_sock]\<rparr>) 20480 TCP_SYN =
      Inr ((boot [])\<lparr>socks := [20480 \<mapsto> fresh_sock\<lparr>snd_nxt := 1\<rparr>], sent := [pkt]\<rparr>) \<and>
    tcp_checksum pkt 14 34 = rd16 pkt 50"
  using tcp_send_control_packet_delivers [OF sample_ip_init_ok, of "(boot [(8, \<lambda>_. 7)])\<lparr>socks := [20480 \<mapsto> fresh_sock]\<rparr>"
      8 "\<lambda>_. 7" "[]" 20480 fresh_sock TCP_SYN]
  by (auto simp: boot_def fresh_sock_def flag_defs received_def)

text \<open>
  C16: A reset answers the segment it refuses: \<^verbatim>\<open>tcp_send_reset\<close> emits one packet that
  goes back from the segment's destination to its source, with sequence number zero, window
  zero, flags RST and ACK, acknowledging exactly the end of the refused segment, and its
  checksum verifies at the receiver. No socket changes.
\<close>

theorem tcp_send_reset_answers:
  assumes "ip_init_hdr_ok f" and "mallocs st = (a, junk) # ms" and "a \<noteq> 0"
  shows "\<exists>pkt. tcp_send_reset f st cb = Inr (st\<lparr>mallocs := ms, sent := sent st @ [pkt]\<rparr>) \<and> length pkt = 54 \<and>
    received pkt (cb_of (cb_daddr cb) (cb_saddr cb) (cb_dport cb) (cb_sport cb) 0 (cb_seq_end cb) (TCP_RST OR TCP_ACK) 0 0)"
  using assms by (rule tcp_send_reset_ok)

theorem tcp_send_reset_answers_witness:
  "\<exists>pkt. tcp_send_reset sample_ip_init (boot [(8, \<lambda>_. 0)]) (cb_of 1 2 3 4 100 0 TCP_SYN 9 0) =
      Inr ((boot [])\<lparr>sent := [pkt]\<rparr>) \<and> received pkt (cb_of 2 1 4 3 0 101 (TCP_RST OR TCP_ACK) 0 0)"
  using tcp_send_reset_answers [OF sample_ip_init_ok, of "boot [(8, \<lambda>_. 0)]" 8 "\<lambda>_. 0" "[]" "cb_of 1 2 3 4 100 0 TCP_SYN 9 0"]
  by (auto simp: boot_def cb_of_def flag_defs)

end
