(* ===== verification/Tcp_Api.thy ===== *)
theory Tcp_Api
  imports Tcp_Out
begin

text \<open>
  The socket calls of \<^verbatim>\<open>tcp_sock.c\<close>. A call that may sleep has a first part, whose
  result says whether the calling thread went to sleep, and a second part that runs when the
  thread is released.

  \<^verbatim>\<open>tcp_sock_accept\<close> compares the structure \<^verbatim>\<open>tsk->accept_queue\<close> with
  \<^verbatim>\<open>NULL\<close>, which no compiler accepts; it is read as its comments say, as the test
  that the queue is not empty.
\<close>

datatype 'a call = Done 'a | Asleep

definition tcp_sock_bind :: "stack \<Rightarrow> addr \<Rightarrow> sock_addr \<Rightarrow> (int \<times> stack) res" where
  "tcp_sock_bind st tsk skaddr = tcp_sock_set_sport st tsk (ntohs (sa_port skaddr))"

text \<open>
  \<^verbatim>\<open>sleep_on\<close> for one of the wait structures of a socket, selected by \<open>get\<close> and \<open>put\<close>.
\<close>

definition sleep_on_sock ::
  "stack \<Rightarrow> addr \<Rightarrow> (tcp_sock \<Rightarrow> synch_wait) \<Rightarrow> (synch_wait \<Rightarrow> tcp_sock \<Rightarrow> tcp_sock) \<Rightarrow> (bool \<times> stack) res" where
  "sleep_on_sock st tsk get put =
     rbind (rd_sock st tsk) (\<lambda>sk.
     case sleep_on (get sk) of
       Returns r w \<Rightarrow> rbind (upd_sock st tsk (put w)) (\<lambda>st. Inr (False, st))
     | Blocks w \<Rightarrow> rbind (upd_sock st tsk (put w)) (\<lambda>st. Inr (True, st)))"

definition resume_sock ::
  "stack \<Rightarrow> addr \<Rightarrow> (tcp_sock \<Rightarrow> synch_wait) \<Rightarrow> (synch_wait \<Rightarrow> tcp_sock \<Rightarrow> tcp_sock) \<Rightarrow> stack res" where
  "resume_sock st tsk get put =
     rbind (rd_sock st tsk) (\<lambda>sk. upd_sock st tsk (put (snd (sleep_on_resume (get sk)))))"

definition wake_up_sock ::
  "stack \<Rightarrow> addr \<Rightarrow> (tcp_sock \<Rightarrow> synch_wait) \<Rightarrow> (synch_wait \<Rightarrow> tcp_sock \<Rightarrow> tcp_sock) \<Rightarrow> stack res" where
  "wake_up_sock st tsk get put =
     rbind (rd_sock st tsk) (\<lambda>sk. upd_sock st tsk (put (fst (snd (wake_up (get sk))))))"

definition set_wait_connect :: "synch_wait \<Rightarrow> tcp_sock \<Rightarrow> tcp_sock" where
  "set_wait_connect w sk = sk\<lparr>wait_connect := w\<rparr>"

definition set_wait_accept :: "synch_wait \<Rightarrow> tcp_sock \<Rightarrow> tcp_sock" where
  "set_wait_accept w sk = sk\<lparr>wait_accept := w\<rparr>"

definition set_wait_send :: "synch_wait \<Rightarrow> tcp_sock \<Rightarrow> tcp_sock" where
  "set_wait_send w sk = sk\<lparr>wait_send := w\<rparr>"

text \<open>
  The \<^verbatim>\<open>for\<close> of \<^verbatim>\<open>tcp_sock_connect\<close> ends in a semicolon: the loop has an
  empty body, and the block behind it runs once with \<^verbatim>\<open>iface\<close> computed from the list
  head itself. \<^verbatim>\<open>iface->ip\<close> then lies 32 bytes behind the head, which is the end of
  the 32-byte \<^verbatim>\<open>ustack_t\<close>. \<open>beyond\<close> is what is found there, \<open>None\<close> if the memory is not
  readable. \<open>iface_list\<close> is the address of the head.
\<close>

definition tcp_sock_connect ::
  "ip_init \<Rightarrow> addr \<Rightarrow> u32 option \<Rightarrow> stack \<Rightarrow> addr \<Rightarrow> sock_addr \<Rightarrow> (int call \<times> stack) res" where
  "tcp_sock_connect ip_init_hdr iface_list beyond st tsk skaddr =
     rbind (upd_sock st tsk (\<lambda>sk. sk\<lparr>sk_dip := htonl (sa_ip skaddr), sk_dport := htons (sa_port skaddr)\<rparr>)) (\<lambda>st.
     rbind (list_find (nodes st) iface_list (\<lambda>_. Inr False)) (\<lambda>_.
     rbind (case beyond of None \<Rightarrow> Inl Out_Of_Bounds | Some ip \<Rightarrow> Inr ip) (\<lambda>ip.
     rbind (upd_sock st tsk (\<lambda>sk. sk\<lparr>sk_sip := ip\<rparr>)) (\<lambda>st.
     rbind (tcp_get_port st) (\<lambda>port.
     rbind (upd_sock st tsk (\<lambda>sk. sk\<lparr>sk_sport := htons port\<rparr>)) (\<lambda>st.
     rbind (tcp_bind_hash st tsk) (\<lambda>(_, st).
     rbind (tcp_send_control_packet ip_init_hdr st tsk TCP_SYN) (\<lambda>st.
     rbind (tcp_set_state st tsk TCP_SYN_SENT) (\<lambda>st.
     rbind (tcp_hash st tsk) (\<lambda>(_, st).
     rbind (sleep_on_sock st tsk wait_connect set_wait_connect) (\<lambda>(blocked, st).
     Inr (if blocked then Asleep else Done 0, st))))))))))))"

definition tcp_sock_connect_resume :: "stack \<Rightarrow> addr \<Rightarrow> (int \<times> stack) res" where
  "tcp_sock_connect_resume st tsk =
     rbind (resume_sock st tsk wait_connect set_wait_connect) (\<lambda>st. Inr (0, st))"

definition tcp_sock_listen :: "stack \<Rightarrow> addr \<Rightarrow> int \<Rightarrow> (int \<times> stack) res" where
  "tcp_sock_listen st tsk blog =
     rbind (upd_sock st tsk (\<lambda>sk. sk\<lparr>backlog := blog\<rparr>)) (\<lambda>st.
     rbind (tcp_set_state st tsk TCP_LISTEN) (\<lambda>st.
     tcp_hash st tsk))"

section \<open>The accept queue\<close>

definition tcp_sock_accept_queue_full :: "stack \<Rightarrow> addr \<Rightarrow> bool res" where
  "tcp_sock_accept_queue_full st tsk =
     rbind (rd_sock st tsk) (\<lambda>sk. Inr (accept_backlog sk \<ge> backlog sk))"

definition tcp_sock_accept_enqueue :: "stack \<Rightarrow> addr \<Rightarrow> stack res" where
  "tcp_sock_accept_enqueue st tsk =
     rbind (list_empty (nodes st) (tsk + OFF_list)) (\<lambda>empty.
     rbind (if \<not> empty then on_nodes st (\<lambda>h. list_delete_entry h (tsk + OFF_list)) else Inr st) (\<lambda>st.
     rbind (rd_sock st tsk) (\<lambda>sk.
     rbind (on_nodes st (\<lambda>h. list_add_tail h (tsk + OFF_list) (sk_parent sk + OFF_accept_queue))) (\<lambda>st.
     upd_sock st (sk_parent sk) (\<lambda>psk. psk\<lparr>accept_backlog := accept_backlog psk + 1\<rparr>)))))"

definition tcp_sock_accept_dequeue :: "stack \<Rightarrow> addr \<Rightarrow> (addr \<times> stack) res" where
  "tcp_sock_accept_dequeue st tsk =
     rbind (rd_node (nodes st) (tsk + OFF_accept_queue)) (\<lambda>q.
     let new_tsk = list_entry (nxt q) OFF_list in
     rbind (on_nodes st (\<lambda>h. list_delete_entry h (new_tsk + OFF_list))) (\<lambda>st.
     rbind (on_nodes st (\<lambda>h. init_list_head h (new_tsk + OFF_list))) (\<lambda>st.
     rbind (upd_sock st tsk (\<lambda>sk. sk\<lparr>accept_backlog := accept_backlog sk - 1\<rparr>)) (\<lambda>st.
     Inr (new_tsk, st)))))"

definition tcp_sock_accept :: "stack \<Rightarrow> addr \<Rightarrow> (addr call \<times> stack) res" where
  "tcp_sock_accept st tsk =
     rbind (list_empty (nodes st) (tsk + OFF_accept_queue)) (\<lambda>empty.
     if \<not> empty
     then rbind (tcp_sock_accept_dequeue st tsk) (\<lambda>(pop_sock, st). Inr (Done pop_sock, st))
     else
       rbind (sleep_on_sock st tsk wait_accept set_wait_accept) (\<lambda>(blocked, st).
       if blocked then Inr (Asleep, st)
       else rbind (tcp_sock_accept_dequeue st tsk) (\<lambda>(pop_sock, st). Inr (Done pop_sock, st))))"

definition tcp_sock_accept_resume :: "stack \<Rightarrow> addr \<Rightarrow> (addr \<times> stack) res" where
  "tcp_sock_accept_resume st tsk =
     rbind (resume_sock st tsk wait_accept set_wait_accept) (\<lambda>st. tcp_sock_accept_dequeue st tsk)"

section \<open>Reading, writing, closing\<close>

text \<open>The returned value, the bytes stored at \<^verbatim>\<open>buf\<close>, the stack after.\<close>

definition tcp_sock_read :: "stack \<Rightarrow> addr \<Rightarrow> int \<Rightarrow> (int \<times> u8 list \<times> stack) res" where
  "tcp_sock_read st tsk sz =
     rbind (rd_sock st tsk) (\<lambda>sk.
     rbind (read_ring_buffer (rcv_buf sk) sz) (\<lambda>(len, bytes, rbuf).
     let w = rcv_wnd sk + word_of_int len in
     rbind (upd_sock st tsk (\<lambda>sk. sk\<lparr>rcv_buf := rbuf, rcv_wnd := w\<rparr>)) (\<lambda>st.
     Inr (int (unat w), bytes, st))))"

text \<open>The body of \<^verbatim>\<open>tcp_sock_write\<close> is empty; it returns no value.\<close>

definition tcp_sock_write :: "stack \<Rightarrow> addr \<Rightarrow> u8 list \<Rightarrow> int \<Rightarrow> stack res" where
  "tcp_sock_write st tsk buf sz = Inr st"

definition tcp_sock_close :: "ip_init \<Rightarrow> stack \<Rightarrow> addr \<Rightarrow> stack res" where
  "tcp_sock_close ip_init_hdr st tsk =
     rbind (rd_sock st tsk) (\<lambda>sk.
     if sk_state sk = TCP_CLOSED then Inr st
     else
       rbind
         (if sk_state sk = TCP_LISTEN then
            rbind (tcp_unhash st tsk) (\<lambda>st.
            rbind (tcp_bind_unhash st tsk) (\<lambda>st.
            tcp_set_state st tsk TCP_CLOSED))
          else if sk_state sk = TCP_SYN_RECV \<or> sk_state sk = TCP_SYN_SENT then
            tcp_set_state st tsk TCP_CLOSED
          else if sk_state sk = TCP_ESTABLISHED then
            rbind (tcp_send_control_packet ip_init_hdr st tsk TCP_FIN) (\<lambda>st.
            tcp_set_state st tsk TCP_FIN_WAIT_1)
          else if sk_state sk = TCP_CLOSE_WAIT then
            rbind (tcp_send_control_packet ip_init_hdr st tsk TCP_ACK) (\<lambda>st.
            rbind (tcp_send_control_packet ip_init_hdr st tsk TCP_FIN) (\<lambda>st.
            tcp_set_state st tsk TCP_LAST_ACK))
          else Inr st)
         (\<lambda>st. free_tcp_sock st tsk))"

section \<open>The calls in a sound stack\<close>

text \<open>A change of a socket that leaves its key, count and parent alone and does not close it.\<close>

lemma stack_ok_inner:
  assumes "stack_ok st F" "socks st p = Some sk" "sock_key sk' = sock_key sk" "ref_cnt sk' = ref_cnt sk"
    "sk_parent sk' = sk_parent sk"
    "sk_state sk' = sk_state sk \<or>
     sk_state sk' \<notin> {TCP_CLOSED, TCP_FIN_WAIT_1, TCP_LAST_ACK} \<and> (hashed F p \<longrightarrow> \<not> gave_up sk)"
  shows "stack_ok (st\<lparr>socks := (socks st)(p \<mapsto> sk')\<rparr>) F"
proof (rule stack_ok_upd [OF assms(1,2)])
  show "sock_ok F p sk'"
    using stack_okD(3) [OF assms(1,2)] assms(3-6) by (auto simp: sock_ok_def sock_key_def gave_up_def split: if_splits)
qed (simp add: assms(3))

text \<open>
  What a call of a sending function does besides changing the socket: it asks \<^verbatim>\<open>malloc\<close>
  once and, if it gets a block, sends one packet.
\<close>

definition emitted :: "stack \<Rightarrow> tcp_cb \<Rightarrow> stack \<Rightarrow> bool" where
  "emitted st cb st' \<longleftrightarrow> mallocs st' = tl (mallocs st) \<and>
     (if mallocs st = [] \<or> fst (hd (mallocs st)) = 0 then sent st' = sent st
      else \<exists>pkt. sent st' = sent st @ [pkt] \<and> received pkt cb)"

lemma emitted_cong [simp]:
  "emitted (st\<lparr>socks := S\<rparr>) cb st' = emitted st cb st'" "emitted (st\<lparr>nodes := h\<rparr>) cb st' = emitted st cb st'"
  "emitted st cb (st'\<lparr>socks := S\<rparr>) = emitted st cb st'" "emitted st cb (st'\<lparr>nodes := h\<rparr>) = emitted st cb st'"
  by (simp_all add: emitted_def cong: if_cong)

text \<open>A packet with SYN or FIN uses up a sequence number, if it is sent at all.\<close>

definition next_seq :: "stack \<Rightarrow> u32 \<Rightarrow> u8 \<Rightarrow> u32" where
  "next_seq st n flags =
     (if mallocs st = [] \<or> fst (hd (mallocs st)) = 0 \<or> flags AND (TCP_SYN OR TCP_FIN) = 0 then n else n + 1)"

lemma next_seq_cong [simp]: "next_seq (st\<lparr>nodes := h\<rparr>) = next_seq st" "next_seq (st\<lparr>socks := S\<rparr>) = next_seq st"
  by (simp_all add: next_seq_def fun_eq_iff)

lemma stack_ok_send:
  assumes f: "ip_init_hdr_ok f" and ok: "stack_ok st F" and sk: "socks st p = Some sk"
  shows "\<exists>st'. tcp_send_control_packet f st p flags = Inr st' \<and> stack_ok st' F \<and> nodes st' = nodes st \<and>
    socks st' = (socks st)(p \<mapsto> sk\<lparr>snd_nxt := next_seq st (snd_nxt sk) flags\<rparr>) \<and>
    emitted st (cb_of (sk_sip sk) (sk_dip sk) (sk_sport sk) (sk_dport sk) (snd_nxt sk) (rcv_nxt sk) flags (rcv_wnd sk) 0) st'"
proof (cases "mallocs st = [] \<or> fst (hd (mallocs st)) = 0")
  case True
  then have "next_seq st n flags = n" for n by (auto simp: next_seq_def)
  moreover have "(socks st)(p \<mapsto> sk\<lparr>snd_nxt := snd_nxt sk\<rparr>) = socks st" using sk by (simp add: fun_upd_idem)
  ultimately show ?thesis using True send_nomem(1) [OF True] ok
    by (intro exI [of _ "st\<lparr>mallocs := tl (mallocs st)\<rparr>"]) (simp add: emitted_def)
next
  case False
  then obtain a junk ms where m: "mallocs st = (a, junk) # ms" "a \<noteq> 0" by (cases "mallocs st") auto
  let ?n = "snd_nxt sk + (if flags AND (TCP_SYN OR TCP_FIN) \<noteq> 0 then 1 else 0)"
  have n: "next_seq st (snd_nxt sk) flags = ?n" using m by (auto simp: next_seq_def)
  have ok': "stack_ok (st\<lparr>socks := (socks st)(p \<mapsto> sk\<lparr>snd_nxt := ?n\<rparr>)\<rparr>) F"
    by (rule stack_ok_inner [OF ok sk]) (simp_all add: sock_key_def)
  obtain pkt where "tcp_send_control_packet f st p flags = Inr (st\<lparr>mallocs := ms,
      socks := (socks st)(p \<mapsto> sk\<lparr>snd_nxt := ?n\<rparr>), sent := sent st @ [pkt]\<rparr>)"
    "received pkt (cb_of (sk_sip sk) (sk_dip sk) (sk_sport sk) (sk_dport sk) (snd_nxt sk) (rcv_nxt sk) flags (rcv_wnd sk) 0)"
    using tcp_send_control_packet_ok [OF f m sk] by blast
  moreover have "stack_ok (st\<lparr>mallocs := ms, socks := (socks st)(p \<mapsto> sk\<lparr>snd_nxt := ?n\<rparr>), sent := sent st @ [pkt]\<rparr>) F"
    using ok' by (simp add: stack_ok_def)
  ultimately show ?thesis using m unfolding n by (intro exI [of _ "st\<lparr>mallocs := ms,
      socks := (socks st)(p \<mapsto> sk\<lparr>snd_nxt := ?n\<rparr>), sent := sent st @ [pkt]\<rparr>"]) (simp add: emitted_def)
qed

lemma tcp_sock_listen_ok:
  fixes n :: int
  assumes ok: "stack_ok st F" and sk: "socks st p = Some sk" and new: "\<not> hashed F p"
  defines "sk' \<equiv> sk\<lparr>backlog := n, sk_state := TCP_LISTEN, ref_cnt := ref_cnt sk + 1\<rparr>"
  shows "\<exists>h F'. tcp_sock_listen st p n = Inr (0, st\<lparr>nodes := h, socks := (socks st)(p \<mapsto> sk')\<rparr>) \<and>
    stack_ok (st\<lparr>nodes := h, socks := (socks st)(p \<mapsto> sk')\<rparr>) F' \<and>
    dom h = dom (nodes st) \<and> (\<forall>q. bound F' q = bound F q) \<and> (\<forall>q. hashed F' q \<longleftrightarrow> q = p \<or> hashed F q) \<and>
    (\<forall>m. linked F' listen_heads m \<longleftrightarrow> m = p + OFF_hash_list \<or> linked F listen_heads m) \<and>
    (\<forall>m. linked F' est_heads m = linked F est_heads m) \<and> (\<forall>l. l \<notin> listen_heads \<longrightarrow> F' l = F l) \<and>
    (\<forall>ip port. tcp_sock_lookup_listen (st\<lparr>nodes := h, socks := (socks st)(p \<mapsto> sk')\<rparr>) ip port =
      (if port = sk_sport sk then Inr p else tcp_sock_lookup_listen st ip port))"
proof -
  let ?sk = "sk\<lparr>backlog := n, sk_state := TCP_LISTEN\<rparr>"
  let ?st = "st\<lparr>socks := (socks st)(p \<mapsto> ?sk)\<rparr>"
  have ok1: "stack_ok ?st F" using new by (intro stack_ok_inner [OF ok sk]) (simp_all add: sock_key_def)
  have same: "tcp_sock_lookup_listen ?st ip port = tcp_sock_lookup_listen st ip port" for ip port
    by (rule lookup_listen_same [OF ok ok1]) (simp_all add: sk)
  from tcp_hash_listen_ok [OF ok1, of p ?sk] new obtain h F' where
    "tcp_hash ?st p = Inr (0, st\<lparr>nodes := h, socks := (socks st)(p \<mapsto> sk')\<rparr>)"
    "stack_ok (st\<lparr>nodes := h, socks := (socks st)(p \<mapsto> sk')\<rparr>) F'"
    "dom h = dom (nodes st)" "\<forall>q. bound F' q = bound F q" "\<forall>q. hashed F' q \<longleftrightarrow> q = p \<or> hashed F q"
    "\<forall>m. linked F' listen_heads m \<longleftrightarrow> m = p + OFF_hash_list \<or> linked F listen_heads m"
    "\<forall>m. linked F' est_heads m = linked F est_heads m" "\<forall>l. l \<notin> listen_heads \<longrightarrow> F' l = F l"
    "\<forall>ip port. tcp_sock_lookup_listen (st\<lparr>nodes := h, socks := (socks st)(p \<mapsto> sk')\<rparr>) ip port =
      (if port = sk_sport sk then Inr p else tcp_sock_lookup_listen st ip port)"
    by (auto simp: sk'_def same)
  moreover have "tcp_sock_listen st p n = tcp_hash ?st p"
    using sk by (simp add: tcp_sock_listen_def tcp_set_state_def)
  ultimately show ?thesis by (intro exI [of _ h] exI [of _ F']) simp
qed

text \<open>The bind table does not matter to lookup.\<close>

lemma linked_bind_irrelevant:
  "\<forall>l. l \<notin> bind_heads \<longrightarrow> F' l = F l \<Longrightarrow> H \<inter> bind_heads = {} \<Longrightarrow> linked F' H m = linked F H m"
  unfolding linked_def by (metis disjoint_iff)

lemma table_heads_not_bind: "est_heads \<inter> bind_heads = {}" "listen_heads \<inter> bind_heads = {}"
  using heads_disjoint by (auto simp: hash_heads_split)

text \<open>The loop over the interfaces that ends in a semicolon only walks the list.\<close>

lemma empty_scan:
  assumes "stack_ok st F" and "F il = Some ifs"
  shows "list_find (nodes st) il (\<lambda>_. Inr False) = Inr None"
proof -
  have "list_find (nodes st) il (\<lambda>_. Inr False) = Inr (find (\<lambda>_. False) ifs)"
    using lists.search_law [OF lists.family_list [OF mem_ok_family [OF stack_okD(1) [OF assms(1)]] assms(2)]] by simp
  then show ?thesis by (simp add: find_None_iff)
qed

text \<open>
  What \<^verbatim>\<open>tcp_sock_connect\<close> does up to the call of \<^verbatim>\<open>tcp_hash\<close>: the four key
  values are set, the socket is bound, the SYN is out, the state is \<^verbatim>\<open>TCP_SYN_SENT\<close>.
\<close>

definition connecting :: "stack \<Rightarrow> u32 \<Rightarrow> sock_addr \<Rightarrow> tcp_sock \<Rightarrow> tcp_sock" where
  "connecting st ip a sk = sk\<lparr>sk_dip := htonl (sa_ip a), sk_dport := htons (sa_port a), sk_sip := ip, sk_sport := htons 12345,
     snd_nxt := next_seq st (snd_nxt sk) TCP_SYN, sk_state := TCP_SYN_SENT\<rparr>"

definition peer_key :: "u32 \<Rightarrow> sock_addr \<Rightarrow> key" where
  "peer_key ip a = (ip, htonl (sa_ip a), htons 12345, htons (sa_port a))"

definition syn_for :: "u32 \<Rightarrow> sock_addr \<Rightarrow> tcp_sock \<Rightarrow> tcp_cb" where
  "syn_for ip a sk = cb_of ip (htonl (sa_ip a)) (htons 12345) (htons (sa_port a)) (snd_nxt sk) (rcv_nxt sk) TCP_SYN (rcv_wnd sk) 0"

lemma connecting_key: "sock_key ((connecting st ip a sk)\<lparr>ref_cnt := n\<rparr>) = peer_key ip a"
  "sock_key ((connecting st ip a sk)\<lparr>ref_cnt := n, wait_connect := w\<rparr>) = peer_key ip a"
  by (simp_all add: connecting_def sock_key_def peer_key_def)

lemma connect_prefix:
  assumes f: "ip_init_hdr_ok f" and ok: "stack_ok st F" and sk: "socks st p = Some sk"
    and new: "\<not> hashed F p" "\<not> bound F p" "sk_parent sk = 0"
    and il: "F il = Some ifs" and ip: "beyond = Some ip"
  shows "\<exists>st2 F2. tcp_sock_connect f il beyond st p a =
      rbind (tcp_hash st2 p) (\<lambda>(_, st). rbind (sleep_on_sock st p wait_connect set_wait_connect) (\<lambda>(b, st).
        Inr (if b then Asleep else Done 0, st))) \<and>
    stack_ok st2 F2 \<and> socks st2 = (socks st)(p \<mapsto> (connecting st ip a sk)\<lparr>ref_cnt := ref_cnt sk + 1\<rparr>) \<and>
    dom (nodes st2) = dom (nodes st) \<and> emitted st (syn_for ip a sk) st2 \<and>
    (\<forall>q. hashed F2 q = hashed F q) \<and> (\<forall>q. bound F2 q \<longleftrightarrow> q = p \<or> bound F q) \<and>
    (\<forall>l. l \<notin> bind_heads \<longrightarrow> F2 l = F l)"
proof -
  let ?sk = "sk\<lparr>sk_dip := htonl (sa_ip a), sk_dport := htons (sa_port a), sk_sip := ip, sk_sport := htons 12345\<rparr>"
  let ?st1 = "st\<lparr>socks := (socks st)(p \<mapsto> sk\<lparr>sk_dip := htonl (sa_ip a), sk_dport := htons (sa_port a), sk_sip := ip\<rparr>)\<rparr>"
  let ?st = "st\<lparr>socks := (socks st)(p \<mapsto> ?sk)\<rparr>"
  have ok1: "stack_ok ?st1 F" "stack_ok ?st F"
    using stack_okD(3) [OF ok sk] new by (auto intro!: stack_ok_upd [OF ok sk] simp: sock_ok_def split: if_splits)
  have port: "tcp_get_port ?st1 = Inr 12345" using tcp_get_port_first [OF ok1(1)] .
  have nz: "htons 12345 \<noteq> 0" by code_simp
  note scan = empty_scan [OF ok il]
  from tcp_bind_hash_ok [OF ok1(2), of p ?sk] new nz obtain h F2 where
    h: "tcp_bind_hash ?st p = Inr (0, st\<lparr>nodes := h, socks := (socks st)(p \<mapsto> ?sk\<lparr>ref_cnt := ref_cnt sk + 1\<rparr>)\<rparr>)"
      "stack_ok (st\<lparr>nodes := h, socks := (socks st)(p \<mapsto> ?sk\<lparr>ref_cnt := ref_cnt sk + 1\<rparr>)\<rparr>) F2"
      "\<forall>q. hashed F2 q = hashed F q" "\<forall>q. bound F2 q \<longleftrightarrow> q = p \<or> bound F q"
      "\<forall>l. l \<notin> bind_heads \<longrightarrow> F2 l = F l" "dom h = dom (nodes st)" by auto
  let ?sk1 = "?sk\<lparr>ref_cnt := ref_cnt sk + 1\<rparr>"
  let ?st2 = "st\<lparr>nodes := h, socks := (socks st)(p \<mapsto> ?sk1)\<rparr>"
  have "socks ?st2 p = Some ?sk1" by simp
  from stack_ok_send [OF f h(2) this, of TCP_SYN] obtain st3 where
    s: "tcp_send_control_packet f ?st2 p TCP_SYN = Inr st3" "stack_ok st3 F2" "nodes st3 = nodes ?st2"
      "socks st3 = (socks ?st2)(p \<mapsto> ?sk1\<lparr>snd_nxt := next_seq st (snd_nxt sk) TCP_SYN\<rparr>)" "emitted ?st2 (syn_for ip a sk) st3"
    by (auto simp: syn_for_def)
  let ?sk2 = "?sk1\<lparr>snd_nxt := next_seq st (snd_nxt sk) TCP_SYN, sk_state := TCP_SYN_SENT\<rparr>"
  let ?st3 = "st3\<lparr>socks := (socks st3)(p \<mapsto> ?sk2)\<rparr>"
  have "stack_ok ?st3 F2"
    by (rule stack_ok_inner [OF s(2), of p "?sk1\<lparr>snd_nxt := next_seq st (snd_nxt sk) TCP_SYN\<rparr>"])
      (use s(4) h(3) new(1) in \<open>simp_all add: sock_key_def\<close>)
  moreover have "tcp_sock_connect f il beyond st p a =
      rbind (tcp_hash ?st3 p) (\<lambda>(_, st).
        rbind (sleep_on_sock st p wait_connect set_wait_connect) (\<lambda>(b, st). Inr (if b then Asleep else Done 0, st)))"
    using sk scan ip port h(1) s(1,4) by (simp add: tcp_sock_connect_def tcp_set_state_def)
  moreover have "emitted st (syn_for ip a sk) ?st3" using s(5) by simp
  moreover have "?sk2 = (connecting st ip a sk)\<lparr>ref_cnt := ref_cnt sk + 1\<rparr>" by (cases sk) (simp add: connecting_def)
  then have "socks ?st3 = (socks st)(p \<mapsto> (connecting st ip a sk)\<lparr>ref_cnt := ref_cnt sk + 1\<rparr>)" using s(4) by simp
  ultimately show ?thesis using h(3-6) s(3) by (intro exI [of _ ?st3] exI [of _ F2]) simp
qed

text \<open>Going to sleep changes the wait structure only.\<close>

definition after_sleep :: "synch_wait \<Rightarrow> synch_wait" where
  "after_sleep w = (case sleep_on w of Returns r w \<Rightarrow> w | Blocks w \<Rightarrow> w)"

lemma sleep_on_sock_connect:
  assumes ok: "stack_ok st F" and sk: "socks st p = Some sk"
  defines "w \<equiv> after_sleep (wait_connect sk)"
  shows "sleep_on_sock st p wait_connect set_wait_connect =
      Inr (sw_dead (wait_connect sk) = 0 \<and> sw_notified (wait_connect sk) = 0,
        st\<lparr>socks := (socks st)(p \<mapsto> sk\<lparr>wait_connect := w\<rparr>)\<rparr>) \<and>
    stack_ok (st\<lparr>socks := (socks st)(p \<mapsto> sk\<lparr>wait_connect := w\<rparr>)\<rparr>) F"
proof -
  let ?b = "sw_dead (wait_connect sk) = 0 \<and> sw_notified (wait_connect sk) = 0"
  have "stack_ok (st\<lparr>socks := (socks st)(p \<mapsto> sk\<lparr>wait_connect := w\<rparr>)\<rparr>) F" for w
    by (rule stack_ok_inner [OF ok sk]) (simp_all add: sock_key_def)
  moreover obtain r where "sleep_on (wait_connect sk) = (if ?b then Blocks w else Returns r w)"
    by (cases "sleep_on (wait_connect sk)") (auto simp: w_def after_sleep_def sleep_on_def Let_def split: if_splits prod.splits)
  ultimately show ?thesis using sk by (auto simp: sleep_on_sock_def set_wait_connect_def)
qed

text \<open>The call of \<^verbatim>\<open>tcp_hash\<close>, whose result is not tested: the key may be in use.\<close>

lemma connect_hash:
  assumes ok: "stack_ok st F" and sk: "socks st p = Some sk" "sk_state sk = TCP_SYN_SENT" and new: "\<not> hashed F p"
  shows "\<exists>r st' F' n. tcp_hash st p = Inr (r, st') \<and> stack_ok st' F' \<and> socks st' = (socks st)(p \<mapsto> sk\<lparr>ref_cnt := n\<rparr>) \<and>
    dom (nodes st') = dom (nodes st) \<and> sent st' = sent st \<and> mallocs st' = mallocs st \<and> (\<forall>q. bound F' q = bound F q) \<and>
    (\<forall>l. l \<notin> est_heads \<longrightarrow> F' l = F l) \<and>
    (\<forall>m. linked F' est_heads m \<longleftrightarrow> linked F est_heads m \<or> m = p + OFF_hash_list \<and> (\<forall>q. \<not> connected st F (sock_key sk) q))"
proof (cases "\<exists>q. connected st F (sock_key sk) q")
  case True
  then obtain q where q: "connected st F (sock_key sk) q" by blast
  from tcp_hash_dup [OF ok sk(1) _ q] sk(2) have "tcp_hash st p = Inr (- 1, st)" by simp
  moreover have "(socks st)(p \<mapsto> sk\<lparr>ref_cnt := ref_cnt sk\<rparr>) = socks st" using sk(1) by (simp add: fun_upd_idem)
  ultimately show ?thesis using ok q
    by (intro exI [of _ "- 1"] exI [of _ st] exI [of _ F] exI [of _ "ref_cnt sk"]) auto
next
  case False
  from tcp_hash_est_ok [OF ok sk(1) new] sk(2) False obtain h F' where
    h: "tcp_hash st p = Inr (0, st\<lparr>nodes := h, socks := (socks st)(p \<mapsto> sk\<lparr>ref_cnt := ref_cnt sk + 1\<rparr>)\<rparr>)"
      "stack_ok (st\<lparr>nodes := h, socks := (socks st)(p \<mapsto> sk\<lparr>ref_cnt := ref_cnt sk + 1\<rparr>)\<rparr>) F'"
      "dom h = dom (nodes st)" "\<forall>q. bound F' q = bound F q"
      "\<forall>n. linked F' est_heads n \<longleftrightarrow> n = p + OFF_hash_list \<or> linked F est_heads n" "\<forall>l. l \<notin> est_heads \<longrightarrow> F' l = F l"
    by auto
  with False show ?thesis
    by (intro exI [of _ 0] exI [of _ "st\<lparr>nodes := h, socks := (socks st)(p \<mapsto> sk\<lparr>ref_cnt := ref_cnt sk + 1\<rparr>)\<rparr>"]
        exI [of _ F'] exI [of _ "ref_cnt sk + 1"]) auto
qed

lemma tcp_sock_connect_ok:
  assumes f: "ip_init_hdr_ok f" and ok: "stack_ok st F" and sk: "socks st p = Some sk"
    and new: "\<not> hashed F p" "\<not> bound F p" "sk_parent sk = 0"
    and il: "F il = Some ifs" and ip: "beyond = Some ip"
  shows "\<exists>r st' F' n. tcp_sock_connect f il beyond st p a = Inr (r, st') \<and> stack_ok st' F' \<and>
    socks st' = (socks st)(p \<mapsto> (connecting st ip a sk)\<lparr>ref_cnt := n, wait_connect := after_sleep (wait_connect sk)\<rparr>) \<and>
    dom (nodes st') = dom (nodes st) \<and> emitted st (syn_for ip a sk) st' \<and>
    (r = Asleep \<longleftrightarrow> sw_dead (wait_connect sk) = 0 \<and> sw_notified (wait_connect sk) = 0) \<and>
    (\<forall>q. bound F' q \<longleftrightarrow> q = p \<or> bound F q) \<and> (\<forall>l. l \<notin> est_heads \<union> bind_heads \<longrightarrow> F' l = F l) \<and>
    (\<forall>k q. connected st' F' k q \<longleftrightarrow>
       connected st F k q \<or> k = peer_key ip a \<and> q = p \<and> (\<forall>q. \<not> connected st F k q))"
proof -
  let ?sk2 = "(connecting st ip a sk)\<lparr>ref_cnt := ref_cnt sk + 1\<rparr>"
  obtain st2 F2 where p: "tcp_sock_connect f il beyond st p a =
      rbind (tcp_hash st2 p) (\<lambda>(_, st). rbind (sleep_on_sock st p wait_connect set_wait_connect) (\<lambda>(b, st).
        Inr (if b then Asleep else Done 0, st)))"
    "stack_ok st2 F2" "socks st2 = (socks st)(p \<mapsto> ?sk2)" "dom (nodes st2) = dom (nodes st)" "emitted st (syn_for ip a sk) st2"
    "\<forall>q. hashed F2 q = hashed F q" "\<forall>q. bound F2 q \<longleftrightarrow> q = p \<or> bound F q" "\<forall>l. l \<notin> bind_heads \<longrightarrow> F2 l = F l"
    using connect_prefix [OF f ok sk new il ip, of a] by (elim exE conjE) (rule that)
  have sk2: "socks st2 p = Some ?sk2" "sk_state ?sk2 = TCP_SYN_SENT" using p(3) by (simp_all add: connecting_def)
  have est: "linked F2 est_heads m = linked F est_heads m" for m
    by (rule linked_bind_irrelevant [OF p(8) table_heads_not_bind(1)])
  have not_est: "\<not> linked F est_heads (p + OFF_hash_list)" using new(1) by (auto simp: hashed_def hash_heads_split linked_def)
  then have con2: "connected st2 F2 k q \<longleftrightarrow> connected st F k q" for k q
    using p(3) by (auto simp: connected_def est)
  have "\<not> hashed F2 p" using p(6) new(1) by simp
  from connect_hash [OF p(2) sk2 this] obtain r st3 F3 n where
    t: "tcp_hash st2 p = Inr (r, st3)" "stack_ok st3 F3" "socks st3 = (socks st2)(p \<mapsto> ?sk2\<lparr>ref_cnt := n\<rparr>)"
      "dom (nodes st3) = dom (nodes st2)" "sent st3 = sent st2 \<and> mallocs st3 = mallocs st2" "\<forall>q. bound F3 q = bound F2 q"
      "\<forall>l. l \<notin> est_heads \<longrightarrow> F3 l = F2 l"
      "\<forall>m. linked F3 est_heads m \<longleftrightarrow> linked F2 est_heads m \<or>
         m = p + OFF_hash_list \<and> (\<forall>q. \<not> connected st2 F2 (peer_key ip a) q)"
    unfolding connecting_key by blast
  let ?w = "after_sleep (wait_connect sk)" and ?b = "sw_dead (wait_connect sk) = 0 \<and> sw_notified (wait_connect sk) = 0"
  let ?sk = "(connecting st ip a sk)\<lparr>ref_cnt := n, wait_connect := ?w\<rparr>"
  let ?st = "st3\<lparr>socks := (socks st3)(p \<mapsto> ?sk)\<rparr>"
  have w: "sleep_on_sock st3 p wait_connect set_wait_connect = Inr (?b, ?st)" "stack_ok ?st F3"
    using sleep_on_sock_connect [OF t(2), of p "?sk2\<lparr>ref_cnt := n\<rparr>"] t(3) by (simp_all add: connecting_def)
  define N where "N \<longleftrightarrow> (\<forall>q. \<not> connected st F (peer_key ip a) q)"
  have link: "linked F3 est_heads m \<longleftrightarrow> linked F est_heads m \<or> m = p + OFF_hash_list \<and> N" for m
    by (simp add: t(8) con2 est N_def)
  have "connected ?st F3 k q \<longleftrightarrow> connected st F k q \<or> k = peer_key ip a \<and> q = p \<and> N" for k q
    using p(3) t(3) not_est by (auto simp: connected_def link connecting_key)
  then have "connected ?st F3 k q \<longleftrightarrow> connected st F k q \<or> k = peer_key ip a \<and> q = p \<and> (\<forall>q. \<not> connected st F k q)" for k q
    unfolding N_def by blast
  moreover have "emitted st (syn_for ip a sk) ?st" using p(5) t(5) by (simp add: emitted_def)
  moreover have "socks ?st = (socks st)(p \<mapsto> ?sk)" using p(3) t(3) by simp
  moreover have "\<forall>l. l \<notin> est_heads \<union> bind_heads \<longrightarrow> F3 l = F l" using t(7) p(8) by simp
  ultimately show ?thesis using p(1,4,7) t(1,4,6) w
    by (intro exI [of _ "if ?b then Asleep else Done 0"] exI [of _ ?st] exI [of _ F3] exI [of _ n]) simp
qed

section \<open>The accept queue\<close>

text \<open>
  The node \<^verbatim>\<open>list\<close> of a socket that waits nowhere is an empty list of its own; it
  gives that up when it joins a queue and gets it back when it leaves.
\<close>

lemma family_forget:
  assumes "family dll h F"
  shows "family dll h (F(l := None))" and "F l = Some [] \<Longrightarrow> l \<notin> footprint (F(l := None))"
proof -
  show "family dll h (F(l := None))" using assms unfolding family_def by (auto split: if_splits)
  show "l \<notin> footprint (F(l := None))" if "F l = Some []"
    using assms that unfolding family_def footprint_def by (fastforce split: if_splits)
qed

lemma family_deleted:
  assumes "family dll h F" and "F l = Some (xs @ e # ys)"
  shows "e \<notin> footprint (F(l \<mapsto> xs @ ys))"
proof
  assume "e \<in> footprint (F(l \<mapsto> xs @ ys))"
  then obtain l' xs' where l': "(F(l \<mapsto> xs @ ys)) l' = Some xs'" "e \<in> set (l' # xs')" by (auto simp: footprint_def)
  have "e \<notin> set (l # xs @ ys)" using lists.is_list_distinct [OF lists.family_list [OF assms]] by auto
  with l' have "l' \<noteq> l" "F l' = Some xs'" by (auto split: if_splits)
  with assms have "set (l # xs @ e # ys) \<inter> set (l' # xs') = {}" unfolding family_def by metis
  with l'(2) show False by auto
qed

lemma tcp_sock_accept_enqueue_ok:
  assumes fam: "family dll (nodes st) F" and q: "F (p + OFF_accept_queue) = Some qs"
    and own: "F (c + OFF_list) = Some []" and apart: "c + OFF_list \<noteq> p + OFF_accept_queue"
    and sk: "socks st c = Some csk" "sk_parent csk = p" "socks st p = Some psk"
  shows "\<exists>h. tcp_sock_accept_enqueue st c = Inr (st\<lparr>nodes := h,
      socks := (socks st)(p \<mapsto> psk\<lparr>accept_backlog := accept_backlog psk + 1\<rparr>)\<rparr>) \<and>
    family dll h (F(c + OFF_list := None, p + OFF_accept_queue \<mapsto> qs @ [c + OFF_list]))"
proof -
  let ?n = "c + OFF_list" and ?q = "p + OFF_accept_queue"
  note F' = family_forget [OF fam, of ?n]
  have "nodes st ?n \<noteq> None" using dll_in_dom [OF lists.family_list [OF fam own]] by auto
  moreover have "(F(?n := None)) ?q = Some qs" using q apart by simp
  ultimately obtain h where h: "list_add_tail (nodes st) ?n ?q = Inr h"
    "family dll h (F(?n := None, ?q \<mapsto> qs @ [?n]))"
    using lists.family_add_tail [OF F'(1) _ _ F'(2) [OF own]] by blast
  have "list_empty (nodes st) ?n = Inr True"
    using lists.empty_law [OF lists.family_list [OF fam own]] by simp
  with h sk show ?thesis by (auto simp: tcp_sock_accept_enqueue_def on_nodes_def)
qed

text \<open>A socket that waits in a queue leaves it when it joins the accept queue.\<close>

lemma tcp_sock_accept_enqueue_moves:
  assumes fam: "family dll (nodes st) F" and q: "F (p + OFF_accept_queue) = Some qs"
    and own: "F l = Some (xs @ (c + OFF_list) # ys)" and apart: "l \<noteq> p + OFF_accept_queue"
    and sk: "socks st c = Some csk" "sk_parent csk = p" "socks st p = Some psk"
  shows "\<exists>h. tcp_sock_accept_enqueue st c = Inr (st\<lparr>nodes := h,
      socks := (socks st)(p \<mapsto> psk\<lparr>accept_backlog := accept_backlog psk + 1\<rparr>)\<rparr>) \<and>
    family dll h (F(l \<mapsto> xs @ ys, p + OFF_accept_queue \<mapsto> qs @ [c + OFF_list]))"
proof -
  let ?n = "c + OFF_list" and ?q = "p + OFF_accept_queue"
  note dll = lists.family_list [OF fam own]
  obtain h1 where h1: "list_delete_entry (nodes st) ?n = Inr h1" "family dll h1 (F(l \<mapsto> xs @ ys))"
    "same_outside (insert l (set (xs @ ys))) (nodes st) h1"
    using lists.family_delete [OF fam own] by blast
  have out: "?n \<notin> footprint (F(l \<mapsto> xs @ ys))" using family_deleted [OF fam own] .
  have "?n \<notin> insert l (set (xs @ ys))" using lists.is_list_distinct [OF dll] by auto
  then have "h1 ?n = nodes st ?n" using h1(3) by (simp add: same_outside_def)
  then have "h1 ?n \<noteq> None" using dll_in_dom [OF dll] by auto
  moreover have "(F(l \<mapsto> xs @ ys)) ?q = Some qs" using q apart by simp
  ultimately obtain h where h: "list_add_tail h1 ?n ?q = Inr h" "family dll h (F(l \<mapsto> xs @ ys, ?q \<mapsto> qs @ [?n]))"
    using lists.family_add_tail [OF h1(2) _ _ out] by blast
  have "list_empty (nodes st) ?n = Inr False" using dll_entry_linked [OF dll] .
  with h h1(1) sk show ?thesis by (auto simp: tcp_sock_accept_enqueue_def on_nodes_def)
qed

lemma tcp_sock_accept_dequeue_ok:
  assumes fam: "family dll (nodes st) F" and q: "F (p + OFF_accept_queue) = Some ((c + OFF_list) # qs)"
    and sk: "socks st p = Some psk"
  shows "\<exists>h. tcp_sock_accept_dequeue st p = Inr (c, st\<lparr>nodes := h,
      socks := (socks st)(p \<mapsto> psk\<lparr>accept_backlog := accept_backlog psk - 1\<rparr>)\<rparr>) \<and>
    family dll h (F(p + OFF_accept_queue \<mapsto> qs, c + OFF_list \<mapsto> []))"
proof -
  let ?n = "c + OFF_list" and ?q = "p + OFF_accept_queue"
  have q': "F ?q = Some ([] @ ?n # qs)" using q by simp
  obtain h where h: "list_delete_entry (nodes st) ?n = Inr h" "family dll h (F(?q \<mapsto> qs))" "dom h = dom (nodes st)"
    using lists.family_delete [OF fam q'] by (auto simp: same_outside_def)
  have "?n \<in> dom h" using dll_in_dom [OF lists.family_list [OF fam q]] h(3) by auto
  moreover have "?n \<notin> footprint (F(?q \<mapsto> qs))" using footprint_removed [OF fam q'] by simp
  ultimately obtain h' where h': "init_list_head h ?n = Inr h'" "family dll h' (F(?q \<mapsto> qs, ?n \<mapsto> []))"
    using family_new [OF h(2)] by blast
  obtain nd where "nodes st ?q = Some nd" "nxt nd = ?n"
    using dll_first [OF lists.family_list [OF fam q]] by auto
  with h(1) h' sk show ?thesis
    by (auto simp: tcp_sock_accept_dequeue_def rd_node_def list_entry_def on_nodes_def)
qed

text \<open>
  C18: The accept queue is first in, first out. When a connection completes and joins a queue
  that holds others, the next \<^verbatim>\<open>tcp_sock_accept\<close> returns the longest waiting one at
  once; the newcomer is last, the accepted socket is unlinked, and the count of waiting
  connections is what it was.
\<close>

theorem accept_queue_fifo:
  assumes "family dll (nodes st) F" and "F (p + OFF_accept_queue) = Some ((c1 + OFF_list) # qs)"
    and "F (c2 + OFF_list) = Some []" and "c2 + OFF_list \<noteq> p + OFF_accept_queue"
    and "socks st c2 = Some csk" and "sk_parent csk = p" and "socks st p = Some psk"
  shows "\<exists>st1 st2 F2. tcp_sock_accept_enqueue st c2 = Inr st1 \<and> tcp_sock_accept st1 p = Inr (Done c1, st2) \<and>
    family dll (nodes st2) F2 \<and> F2 (p + OFF_accept_queue) = Some (qs @ [c2 + OFF_list]) \<and>
    F2 (c1 + OFF_list) = Some [] \<and> socks st2 = socks st"
proof -
  let ?q = "p + OFF_accept_queue" and ?n1 = "c1 + OFF_list" and ?n2 = "c2 + OFF_list"
  have ne: "?n1 \<noteq> ?q" using lists.is_list_distinct [OF lists.family_list [OF assms(1,2)]] by auto
  obtain h1 where h1: "tcp_sock_accept_enqueue st c2 = Inr (st\<lparr>nodes := h1,
      socks := (socks st)(p \<mapsto> psk\<lparr>accept_backlog := accept_backlog psk + 1\<rparr>)\<rparr>)"
    "family dll h1 (F(?n2 := None, ?q \<mapsto> (?n1 # qs) @ [?n2]))"
    using tcp_sock_accept_enqueue_ok [OF assms] by blast
  let ?st1 = "st\<lparr>nodes := h1, socks := (socks st)(p \<mapsto> psk\<lparr>accept_backlog := accept_backlog psk + 1\<rparr>)\<rparr>"
  let ?F1 = "F(?n2 := None, ?q \<mapsto> (?n1 # qs) @ [?n2])"
  obtain h2 where h2: "tcp_sock_accept_dequeue ?st1 p = Inr (c1, ?st1\<lparr>nodes := h2,
      socks := (socks ?st1)(p \<mapsto> psk\<lparr>accept_backlog := accept_backlog psk\<rparr>)\<rparr>)"
    "family dll h2 (?F1(?q \<mapsto> qs @ [?n2], ?n1 \<mapsto> []))"
    using tcp_sock_accept_dequeue_ok [of ?st1 ?F1 p c1 "qs @ [?n2]" "psk\<lparr>accept_backlog := accept_backlog psk + 1\<rparr>"] h1(2)
    by auto
  have "list_empty (nodes ?st1) ?q = Inr False"
    using lists.empty_law [OF lists.family_list [OF h1(2)], of ?q "(?n1 # qs) @ [?n2]"] by simp
  with h2(1) have "tcp_sock_accept ?st1 p = Inr (Done c1, ?st1\<lparr>nodes := h2,
      socks := (socks ?st1)(p \<mapsto> psk\<lparr>accept_backlog := accept_backlog psk\<rparr>)\<rparr>)"
    by (simp add: tcp_sock_accept_def)
  moreover have "(socks st)(p \<mapsto> psk) = socks st" using assms(7) by (simp add: fun_upd_idem)
  ultimately show ?thesis using h1(1) h2(2) ne
    by (intro exI [of _ ?st1] exI [of _ "?st1\<lparr>nodes := h2, socks := (socks ?st1)
        (p \<mapsto> psk\<lparr>accept_backlog := accept_backlog psk\<rparr>)\<rparr>"] exI [of _ "?F1(?q \<mapsto> qs @ [?n2], ?n1 \<mapsto> [])"]) simp
qed

theorem accept_queue_fifo_witness:
  "\<exists>st1 st2. tcp_sock_accept_enqueue \<lparr>nodes = [1080 \<mapsto> \<lparr>nxt = 2104, prv = 2104\<rparr>, 2104 \<mapsto> \<lparr>nxt = 1080, prv = 1080\<rparr>,
        3104 \<mapsto> \<lparr>nxt = 3104, prv = 3104\<rparr>],
      socks = [1000 \<mapsto> fresh_sock, 2000 \<mapsto> fresh_sock, 3000 \<mapsto> fresh_sock\<lparr>sk_parent := 1000\<rparr>],
      mallocs = [], sent = []\<rparr> 3000 = Inr st1 \<and>
    tcp_sock_accept st1 1000 = Inr (Done 2000, st2)"
proof -
  let ?h = "[1080 \<mapsto> \<lparr>nxt = 2104, prv = 2104\<rparr>, 2104 \<mapsto> \<lparr>nxt = 1080, prv = 1080\<rparr>, 3104 \<mapsto> \<lparr>nxt = 3104, prv = 3104\<rparr>] :: node_heap"
  have "family dll ?h [1080 \<mapsto> [2104], 3104 \<mapsto> []]"
    by (auto simp: family_def dll_def edge_def nx_def pv_def split: if_splits)
  with accept_queue_fifo [of "\<lparr>nodes = ?h, socks = [1000 \<mapsto> fresh_sock, 2000 \<mapsto> fresh_sock,
      3000 \<mapsto> fresh_sock\<lparr>sk_parent := 1000\<rparr>], mallocs = [], sent = []\<rparr>" "[1080 \<mapsto> [2104], 3104 \<mapsto> []]" 1000 2000 "[]" 3000
      "fresh_sock\<lparr>sk_parent := 1000\<rparr>" fresh_sock]
  show ?thesis by (simp add: offsets) blast
qed

text \<open>
  C31: A second accept returns a pointer to nothing. A connection that completes before the
  application calls \<^verbatim>\<open>tcp_sock_accept\<close> leaves the notification pending, because the
  call finds the queue filled and does not sleep. The next call then does not sleep either: it
  takes the head of the empty queue for a socket and returns the address 24 bytes below the
  listening socket, and the count of waiting connections becomes negative.
\<close>

theorem second_accept_bogus:
  assumes "family dll (nodes st) F" and "F (p + OFF_accept_queue) = Some [c + OFF_list]"
    and "socks st p = Some sk" and "sw_dead (wait_accept sk) = 0" and "sw_notified (wait_accept sk) = 1"
    and "accept_backlog sk = 1"
  shows "\<exists>st1 st2 sk2. tcp_sock_accept st p = Inr (Done c, st1) \<and> tcp_sock_accept st1 p = Inr (Done (p - 24), st2) \<and>
    socks st2 p = Some sk2 \<and> accept_backlog sk2 = - 1"
proof -
  let ?q = "p + OFF_accept_queue" and ?n = "c + OFF_list"
  have ne: "?n \<noteq> ?q" using lists.is_list_distinct [OF lists.family_list [OF assms(1,2)]] by auto
  obtain h where h: "tcp_sock_accept_dequeue st p = Inr (c, st\<lparr>nodes := h,
      socks := (socks st)(p \<mapsto> sk\<lparr>accept_backlog := 0\<rparr>)\<rparr>)" "family dll h (F(?q \<mapsto> [], ?n \<mapsto> []))"
    using tcp_sock_accept_dequeue_ok [OF assms(1,2,3)] assms(6) by auto
  let ?st1 = "st\<lparr>nodes := h, socks := (socks st)(p \<mapsto> sk\<lparr>accept_backlog := 0\<rparr>)\<rparr>"
  have one: "tcp_sock_accept st p = Inr (Done c, ?st1)"
    using lists.empty_law [OF lists.family_list [OF assms(1,2)]] h(1) by (simp add: tcp_sock_accept_def)
  have d: "dll h ?q []" using lists.family_list [OF h(2)] ne by simp
  then have self: "h ?q = Some \<lparr>nxt = ?q, prv = ?q\<rparr>"
    by (auto simp: dll_def edge_def nx_def pv_def)
  have two: "list_delete_entry h ?q = Inr h" "init_list_head h ?q = Inr h"
    using self by (simp_all add: list_delete_entry_def init_list_head_def rd_node_def set_simps fun_upd_idem)
  have e: "?q - OFF_list = p - 24" "p - 24 + OFF_list = ?q" by (simp_all add: offsets)
  obtain w r where w: "sleep_on (wait_accept sk) = Returns r w"
    using assms(4,5) by (auto simp: sleep_on_def sleep_on_resume_def Let_def)
  have "tcp_sock_accept ?st1 p = Inr (Done (p - 24), ?st1\<lparr>socks := (socks st)
      (p \<mapsto> sk\<lparr>wait_accept := w, accept_backlog := - 1\<rparr>)\<rparr>)"
    using self two w lists.empty_law [OF d]
    by (simp add: tcp_sock_accept_def sleep_on_sock_def set_wait_accept_def tcp_sock_accept_dequeue_def
        rd_node_def list_entry_def on_nodes_def e)
  with one show ?thesis by auto
qed

theorem second_accept_bogus_witness:
  "\<exists>st1 st2. tcp_sock_accept \<lparr>nodes = [1080 \<mapsto> \<lparr>nxt = 2104, prv = 2104\<rparr>, 2104 \<mapsto> \<lparr>nxt = 1080, prv = 1080\<rparr>],
      socks = [1000 \<mapsto> fresh_sock\<lparr>accept_backlog := 1, wait_accept := \<lparr>sw_notified = 1, sw_dead = 0, sw_sleep = 0\<rparr>\<rparr>],
      mallocs = [], sent = []\<rparr> 1000 = Inr (Done 2000, st1) \<and> tcp_sock_accept st1 1000 = Inr (Done 976, st2)"
proof -
  let ?h = "[1080 \<mapsto> \<lparr>nxt = 2104, prv = 2104\<rparr>, 2104 \<mapsto> \<lparr>nxt = 1080, prv = 1080\<rparr>] :: node_heap"
  let ?sk = "fresh_sock\<lparr>accept_backlog := 1, wait_accept := \<lparr>sw_notified = 1, sw_dead = 0, sw_sleep = 0\<rparr>\<rparr>"
  have "family dll ?h [1080 \<mapsto> [2104]]"
    by (auto simp: family_def dll_def edge_def nx_def pv_def split: if_splits)
  with second_accept_bogus [of "\<lparr>nodes = ?h, socks = [1000 \<mapsto> ?sk], mallocs = [], sent = []\<rparr>" "[1080 \<mapsto> [2104]]" 1000 2000 ?sk]
  show ?thesis by (simp add: offsets) blast
qed

section \<open>Binding, reading and closing\<close>

text \<open>
  Two sockets can bind the same port. In a sound stack \<^verbatim>\<open>tcp_sock_bind\<close> succeeds
  for a fresh socket whatever is bound already, so a second socket gets the port of the first.
\<close>

theorem same_port_bound_twice:
  assumes "stack_ok st F" and "socks st p = Some psk" and "socks st q = Some qsk" and "p \<noteq> q"
    and "\<not> bound F p" and "\<not> hashed F p" and "sk_parent psk = 0"
    and "\<not> bound F q" and "\<not> hashed F q" and "sk_parent qsk = 0"
  shows "\<exists>st1 st2 psk' qsk'. tcp_sock_bind st p a = Inr (0, st1) \<and> tcp_sock_bind st1 q a = Inr (0, st2) \<and>
    socks st2 p = Some psk' \<and> socks st2 q = Some qsk' \<and> sk_sport psk' = sk_sport qsk' \<and> sk_sport psk' \<noteq> 0"
proof -
  let ?port = "chosen_port (ntohs (sa_port a))"
  obtain h1 F1 where 1: "tcp_sock_set_sport st p (ntohs (sa_port a)) = Inr (0, st\<lparr>nodes := h1, socks := (socks st)
      (p \<mapsto> psk\<lparr>sk_sport := ?port, ref_cnt := ref_cnt psk + 1\<rparr>)\<rparr>)"
    "stack_ok (st\<lparr>nodes := h1, socks := (socks st)(p \<mapsto> psk\<lparr>sk_sport := ?port, ref_cnt := ref_cnt psk + 1\<rparr>)\<rparr>) F1"
    "\<forall>r. hashed F1 r = hashed F r" "\<forall>r. bound F1 r \<longleftrightarrow> r = p \<or> bound F r"
    using tcp_sock_set_sport_ok [OF assms(1,2,5,6,7)] by blast
  let ?st1 = "st\<lparr>nodes := h1, socks := (socks st)(p \<mapsto> psk\<lparr>sk_sport := ?port, ref_cnt := ref_cnt psk + 1\<rparr>)\<rparr>"
  have "socks ?st1 q = Some qsk" "\<not> bound F1 q" "\<not> hashed F1 q" using assms 1(3,4) by auto
  from tcp_sock_set_sport_ok [OF 1(2) this assms(10)] obtain h2 where
    "tcp_sock_set_sport ?st1 q (ntohs (sa_port a)) = Inr (0, ?st1\<lparr>nodes := h2, socks := (socks ?st1)
      (q \<mapsto> qsk\<lparr>sk_sport := ?port, ref_cnt := ref_cnt qsk + 1\<rparr>)\<rparr>)" by blast
  with 1(1) assms(4) chosen_port_nonzero show ?thesis by (auto simp: tcp_sock_bind_def)
qed

text \<open>Two sockets in a sound stack, for the examples.\<close>

lemma sample_two_sockets:
  "\<exists>st F. stack_ok st F \<and> socks st = [20480 \<mapsto> fresh_sock, 45056 \<mapsto> fresh_sock] \<and> (\<forall>H m. \<not> linked F H m)"
proof -
  obtain st F where st: "stack_ok st F" "socks st = [20480 \<mapsto> fresh_sock]" "mallocs st = drop 6 (sample_mallocs 12)"
    "dom (nodes st) \<subseteq> {..<24576}" "\<forall>H m. \<not> linked F H m"
    using sample_socket [of 12] by auto
  have "alloc_ready st (HEAP_BASE + 4096 * int 6)"
    by (rule sample_alloc [OF st(1), of 6 12]) (use st in \<open>auto simp: HEAP_BASE_def\<close>)
  then have "alloc_ready st 45056" by (simp add: HEAP_BASE_def)
  from stack_ok_alloc [OF st(1) this] obtain h where
    "stack_ok (st\<lparr>socks := (socks st)(45056 \<mapsto> fresh_sock), nodes := h, mallocs := drop 6 (mallocs st)\<rparr>) (own_lists 45056 F)"
    "\<forall>H n. linked (own_lists 45056 F) H n = linked F H n" by blast
  with st(2,5) show ?thesis
    by (intro exI [of _ "st\<lparr>socks := (socks st)(45056 \<mapsto> fresh_sock), nodes := h, mallocs := drop 6 (mallocs st)\<rparr>"]
        exI [of _ "own_lists 45056 F"]) simp
qed

theorem same_port_bound_twice_witness:
  "\<exists>st st1 st2 psk qsk. dom (socks st) = {20480, 45056} \<and>
     tcp_sock_bind st 20480 \<lparr>sa_ip = 0, sa_port = htons 80\<rparr> = Inr (0, st1) \<and>
     tcp_sock_bind st1 45056 \<lparr>sa_ip = 0, sa_port = htons 80\<rparr> = Inr (0, st2) \<and>
     socks st2 20480 = Some psk \<and> socks st2 45056 = Some qsk \<and> sk_sport psk = sk_sport qsk"
proof -
  obtain st F where st: "stack_ok st F" "socks st = [20480 \<mapsto> fresh_sock, 45056 \<mapsto> fresh_sock]" "\<forall>H m. \<not> linked F H m"
    using sample_two_sockets by blast
  then have "\<exists>st1 st2 psk' qsk'. tcp_sock_bind st 20480 \<lparr>sa_ip = 0, sa_port = htons 80\<rparr> = Inr (0, st1) \<and>
     tcp_sock_bind st1 45056 \<lparr>sa_ip = 0, sa_port = htons 80\<rparr> = Inr (0, st2) \<and>
    socks st2 20480 = Some psk' \<and> socks st2 45056 = Some qsk' \<and> sk_sport psk' = sk_sport qsk' \<and> sk_sport psk' \<noteq> 0"
    by (intro same_port_bound_twice) (auto simp: bound_def hashed_def)
  moreover have "dom (socks st) = {20480, 45056}" using st(2) by auto
  ultimately show ?thesis by blast
qed

text \<open>
  C32: What \<^verbatim>\<open>tcp_sock_read\<close> does. It moves the oldest bytes of the receive buffer, at
  most as many as asked for, to the caller and opens the window by their number; but the value
  it returns is the new window modulo 65536, not the number of bytes. For a socket with an
  empty buffer and the initial window it returns 65535 without storing a byte.
\<close>

theorem tcp_sock_read_returns_window:
  assumes "socks st p = Some sk" and "rb_inv (rcv_buf sk)" and "0 \<le> n"
  shows "\<exists>b'. tcp_sock_read st p n =
      Inr (int (unat (rcv_wnd sk + word_of_nat (min (length (rb_contents (rcv_buf sk))) (nat n)))),
        take (nat n) (rb_contents (rcv_buf sk)),
        st\<lparr>socks := (socks st)(p \<mapsto> sk\<lparr>rcv_buf := b',
          rcv_wnd := rcv_wnd sk + word_of_nat (min (length (rb_contents (rcv_buf sk))) (nat n))\<rparr>)\<rparr>) \<and>
    rb_inv b' \<and> rb_contents b' = drop (nat n) (rb_contents (rcv_buf sk)) \<and>
    (rb_contents (rcv_buf sk) = [] \<and> rcv_wnd sk = 65535 \<longrightarrow>
       (\<exists>st'. tcp_sock_read st p n = Inr (65535, [], st')))"
proof -
  let ?k = "min (length (rb_contents (rcv_buf sk))) (nat n)"
  from rb.rd_law [OF assms(2,3) refl] obtain b' where b: "read_ring_buffer (rcv_buf sk) n =
      Inr (int ?k, take ?k (rb_contents (rcv_buf sk)), b')" "rb_inv b'"
    "rb_contents b' = drop ?k (rb_contents (rcv_buf sk))" by blast
  have "take ?k (rb_contents (rcv_buf sk)) = take (nat n) (rb_contents (rcv_buf sk))"
    "drop ?k (rb_contents (rcv_buf sk)) = drop (nat n) (rb_contents (rcv_buf sk))"
    by (simp_all add: min_def)
  with b assms(1) show ?thesis by (intro exI [of _ b']) (auto simp: tcp_sock_read_def Let_def)
qed

theorem tcp_sock_read_returns_window_witness:
  "\<exists>st'. tcp_sock_read ((boot [])\<lparr>socks := [20480 \<mapsto> fresh_sock]\<rparr>) 20480 1000 = Inr (65535, [], st')"
proof -
  have "rb_inv (rcv_buf fresh_sock)" "rb_contents (rcv_buf fresh_sock) = []"
    by (simp_all add: fresh_sock_def rb_alloc_law TCP_DEFAULT_WINDOW_def)
  moreover have "rcv_wnd fresh_sock = 65535" by (simp add: fresh_sock_def TCP_DEFAULT_WINDOW_def)
  ultimately show ?thesis
    using tcp_sock_read_returns_window [of "(boot [])\<lparr>socks := [20480 \<mapsto> fresh_sock]\<rparr>" 20480 fresh_sock 1000] by auto
qed

text \<open>A server: the calls that \<^verbatim>\<open>tcp_server\<close> makes before it accepts.\<close>

definition bind_listen :: "stack \<Rightarrow> addr \<Rightarrow> sock_addr \<Rightarrow> int \<Rightarrow> (addr \<times> stack) res" where
  "bind_listen st p a n =
     rbind (tcp_sock_bind st p a) (\<lambda>(err, st).
     if err < 0 then Inl (Exit 1)
     else
       rbind (tcp_sock_listen st p n) (\<lambda>(err, st).
       if err < 0 then Inl (Exit 1) else Inr (p, st)))"

definition open_server :: "stack \<Rightarrow> sock_addr \<Rightarrow> int \<Rightarrow> (addr \<times> stack) res" where
  "open_server st a n = rbind (alloc_tcp_sock st) (\<lambda>(p, st). bind_listen st p a n)"

lemma bind_listen_ok:
  fixes a :: sock_addr and n :: int
  assumes ok: "stack_ok st F" and sk: "socks st p = Some sk" and new: "\<not> hashed F p" "\<not> bound F p" "sk_parent sk = 0"
  defines "sk' \<equiv> sk\<lparr>sk_sport := chosen_port (ntohs (sa_port a)), ref_cnt := ref_cnt sk + 1 + 1, backlog := n, sk_state := TCP_LISTEN\<rparr>"
  shows "\<exists>h F'. bind_listen st p a n = Inr (p, st\<lparr>nodes := h, socks := (socks st)(p \<mapsto> sk')\<rparr>) \<and>
    stack_ok (st\<lparr>nodes := h, socks := (socks st)(p \<mapsto> sk')\<rparr>) F' \<and> dom h = dom (nodes st) \<and> hashed F' p \<and> bound F' p \<and>
    (\<forall>m. linked F' listen_heads m \<longleftrightarrow> m = p + OFF_hash_list \<or> linked F listen_heads m) \<and>
    (\<forall>m. linked F' est_heads m = linked F est_heads m) \<and> (\<forall>l. l \<notin> hash_heads \<union> bind_heads \<longrightarrow> F' l = F l)"
proof -
  define sk2 where "sk2 = sk\<lparr>sk_sport := chosen_port (ntohs (sa_port a)), ref_cnt := ref_cnt sk + 1\<rparr>"
  from tcp_sock_set_sport_ok [OF ok sk new(2,1,3), of "ntohs (sa_port a)"] obtain h2 F2 where
    2: "tcp_sock_set_sport st p (ntohs (sa_port a)) = Inr (0, st\<lparr>nodes := h2, socks := (socks st)(p \<mapsto> sk2)\<rparr>)"
      "stack_ok (st\<lparr>nodes := h2, socks := (socks st)(p \<mapsto> sk2)\<rparr>) F2"
      "\<forall>q. hashed F2 q = hashed F q" "\<forall>q. bound F2 q \<longleftrightarrow> q = p \<or> bound F q" "\<forall>l. l \<notin> bind_heads \<longrightarrow> F2 l = F l"
      "dom h2 = dom (nodes st)"
    unfolding sk2_def by blast
  define st2 where "st2 = st\<lparr>nodes := h2, socks := (socks st)(p \<mapsto> sk2)\<rparr>"
  have ok2: "stack_ok st2 F2" and p2: "socks st2 p = Some sk2" using 2(2) by (simp_all add: st2_def)
  have sk3: "sk2\<lparr>backlog := n, sk_state := TCP_LISTEN, ref_cnt := ref_cnt sk2 + 1\<rparr> = sk'" by (simp add: sk2_def sk'_def)
  have "\<not> hashed F2 p" using 2(3) new(1) by simp
  from tcp_sock_listen_ok [OF ok2 p2 this, of n] obtain h3 F3 where
    3: "tcp_sock_listen st2 p n = Inr (0, st2\<lparr>nodes := h3, socks := (socks st2)(p \<mapsto> sk')\<rparr>)"
      "stack_ok (st2\<lparr>nodes := h3, socks := (socks st2)(p \<mapsto> sk')\<rparr>) F3" "dom h3 = dom (nodes st2)"
      "\<forall>q. bound F3 q = bound F2 q" "\<forall>q. hashed F3 q \<longleftrightarrow> q = p \<or> hashed F2 q"
      "\<forall>m. linked F3 listen_heads m \<longleftrightarrow> m = p + OFF_hash_list \<or> linked F2 listen_heads m"
      "\<forall>m. linked F3 est_heads m = linked F2 est_heads m" "\<forall>l. l \<notin> listen_heads \<longrightarrow> F3 l = F2 l"
    unfolding sk3 by blast
  have L: "linked F2 est_heads m = linked F est_heads m" "linked F2 listen_heads m = linked F listen_heads m" for m
    using linked_bind_irrelevant [OF 2(5)] table_heads_not_bind by simp_all
  have "st2\<lparr>nodes := h3, socks := (socks st2)(p \<mapsto> sk')\<rparr> = st\<lparr>nodes := h3, socks := (socks st)(p \<mapsto> sk')\<rparr>" by (simp add: st2_def)
  with 2(1,4-6) 3 L show ?thesis
    by (intro exI [of _ h3] exI [of _ F3]) (simp add: bind_listen_def tcp_sock_bind_def st2_def hash_heads_split)
qed

lemma open_server_ok:
  assumes ok: "stack_ok st F" and ready: "alloc_ready st p"
  shows "\<exists>st' F' sk. open_server st a n = Inr (p, st') \<and> stack_ok st' F' \<and>
    socks st' = (socks st)(p \<mapsto> sk) \<and> sk_sport sk = chosen_port (ntohs (sa_port a)) \<and>
    sk_state sk = TCP_LISTEN \<and> sk_parent sk = 0 \<and> backlog sk = n \<and> hashed F' p \<and> bound F' p \<and>
    (\<forall>port q. listening st' F' port q \<longleftrightarrow> (q = p \<and> port = sk_sport sk) \<or> (q \<noteq> p \<and> listening st F port q)) \<and>
    (\<forall>k q. q \<noteq> p \<longrightarrow> connected st' F' k q = connected st F k q) \<and> (\<forall>k. \<not> connected st' F' k p) \<and>
    mallocs st' = drop 6 (mallocs st) \<and> dom (nodes st') = set (sock_nodes p) \<union> dom (nodes st) \<and>
    rcv_nxt sk = 0 \<and> rcv_wnd sk = 65535 \<and> wait_accept sk = alloc_wait_struct \<and> F' (p + OFF_accept_queue) = Some []"
proof -
  from stack_ok_alloc [OF ok ready] obtain h1 where
    1: "alloc_tcp_sock st = Inr (p, st\<lparr>socks := (socks st)(p \<mapsto> fresh_sock), nodes := h1, mallocs := drop 6 (mallocs st)\<rparr>)"
      "stack_ok (st\<lparr>socks := (socks st)(p \<mapsto> fresh_sock), nodes := h1, mallocs := drop 6 (mallocs st)\<rparr>) (own_lists p F)"
      "\<not> hashed F p" "\<not> bound F p" "\<forall>H n. linked (own_lists p F) H n = linked F H n"
      "dom h1 = set (sock_nodes p) \<union> dom (nodes st)" by blast
  define st1 where "st1 = st\<lparr>socks := (socks st)(p \<mapsto> fresh_sock), nodes := h1, mallocs := drop 6 (mallocs st)\<rparr>"
  define sk where "sk = fresh_sock\<lparr>sk_sport := chosen_port (ntohs (sa_port a)), ref_cnt := ref_cnt fresh_sock + 1 + 1, backlog := n,
    sk_state := TCP_LISTEN\<rparr>"
  have new: "\<not> hashed (own_lists p F) p" "\<not> bound (own_lists p F) p" using 1(3-5) by (simp_all add: hashed_def bound_def)
  have ok1: "stack_ok st1 (own_lists p F)" and p1: "socks st1 p = Some fresh_sock" using 1(2) by (simp_all add: st1_def)
  from bind_listen_ok [OF ok1 p1 new fresh_sock_fields(1), of a n] obtain h F' where
    2: "bind_listen st1 p a n = Inr (p, st1\<lparr>nodes := h, socks := (socks st1)(p \<mapsto> sk)\<rparr>)"
      "stack_ok (st1\<lparr>nodes := h, socks := (socks st1)(p \<mapsto> sk)\<rparr>) F'" "dom h = dom (nodes st1)" "hashed F' p" "bound F' p"
      "\<forall>m. linked F' listen_heads m \<longleftrightarrow> m = p + OFF_hash_list \<or> linked (own_lists p F) listen_heads m"
      "\<forall>m. linked F' est_heads m = linked (own_lists p F) est_heads m" "\<forall>l. l \<notin> hash_heads \<union> bind_heads \<longrightarrow> F' l = own_lists p F l"
    unfolding sk_def by blast
  define st3 where "st3 = st1\<lparr>nodes := h, socks := (socks st1)(p \<mapsto> sk)\<rparr>"
  have run: "open_server st a n = Inr (p, st3)" using 1(1) 2(1) by (simp add: open_server_def st1_def st3_def)
  have old: "\<not> linked F est_heads (p + OFF_hash_list)" using 1(3) by (auto simp: hashed_def hash_heads_split linked_def)
  have socks: "socks st3 = (socks st)(p \<mapsto> sk)" by (simp add: st3_def st1_def)
  have "listening st3 F' port q \<longleftrightarrow> (q = p \<and> port = sk_sport sk) \<or> (q \<noteq> p \<and> listening st F port q)" for port q
    by (auto simp: listening_def socks 2(6) 1(5))
  moreover have "q \<noteq> p \<Longrightarrow> connected st3 F' k q = connected st F k q" "\<not> connected st3 F' k p" for k q
    using old by (auto simp: connected_def socks 2(7) 1(5))
  moreover have "stack_ok st3 F'" using 2(2) by (simp add: st3_def)
  moreover have "sk_sport sk = chosen_port (ntohs (sa_port a))" "sk_state sk = TCP_LISTEN" "sk_parent sk = 0" "backlog sk = n"
    "rcv_nxt sk = 0" "rcv_wnd sk = 65535" "wait_accept sk = alloc_wait_struct"
    by (simp_all add: sk_def fresh_sock_def TCP_DEFAULT_WINDOW_def)
  moreover have "F' (p + OFF_accept_queue) = Some []"
  proof -
    have "HEAP_BASE \<le> p" using ready by (simp add: alloc_ready_def fresh_block_def)
    then have "p + OFF_accept_queue \<notin> hash_heads \<union> bind_heads"
      using heads_low [of "p + OFF_accept_queue"] by (auto simp: offsets HEAP_BASE_def timer_list_def)
    then show ?thesis using 2(8) by (simp add: own_lists_def)
  qed
  moreover have "mallocs st3 = drop 6 (mallocs st)" "dom (nodes st3) = set (sock_nodes p) \<union> dom (nodes st)"
    using 1(6) 2(3) by (simp_all add: st3_def st1_def)
  ultimately show ?thesis using run socks 2(4,5) by blast
qed

lemma sample_server:
  assumes "6 \<le> n"
  shows "\<exists>st F sk. rbind (init_tcp_stack (boot (sample_mallocs n))) (\<lambda>st. open_server st \<lparr>sa_ip = 0, sa_port = htons 80\<rparr> 3) = Inr (20480, st) \<and>
     stack_ok st F \<and> socks st = [20480 \<mapsto> sk] \<and> sk_sport sk = 80 \<and> sk_state sk = TCP_LISTEN \<and> sk_parent sk = 0 \<and>
     hashed F 20480 \<and> bound F 20480 \<and> mallocs st = drop 6 (sample_mallocs n) \<and> dom (nodes st) \<subseteq> {4096..<24576} \<and>
     rcv_nxt sk = 0 \<and> rcv_wnd sk = 65535"
proof -
  obtain st F where st: "init_tcp_stack (boot (sample_mallocs n)) = Inr st" "stack_ok st F" "socks st = Map.empty"
    "mallocs st = sample_mallocs n" "dom (nodes st) \<subseteq> {4096..timer_list}"
    using sample_stack by blast
  have "alloc_ready st 20480" using sample_first_block [OF st(2,3)] st assms by simp
  from open_server_ok [OF st(2) this, of "\<lparr>sa_ip = 0, sa_port = htons 80\<rparr>" 3] obtain st' F' sk where
    s: "open_server st \<lparr>sa_ip = 0, sa_port = htons 80\<rparr> 3 = Inr (20480, st')" "stack_ok st' F'"
      "socks st' = (socks st)(20480 \<mapsto> sk)" "sk_sport sk = chosen_port (ntohs (sa_port \<lparr>sa_ip = 0, sa_port = htons 80\<rparr>))"
      "sk_state sk = TCP_LISTEN" "sk_parent sk = 0" "hashed F' 20480" "bound F' 20480"
      "mallocs st' = drop 6 (mallocs st)" "dom (nodes st') = set (sock_nodes 20480) \<union> dom (nodes st)"
      "rcv_nxt sk = 0" "rcv_wnd sk = 65535" by blast
  from s(4) have "sk_sport sk = 80" by (simp add: chosen_port_def)
  moreover have "dom (nodes st') \<subseteq> {4096..<24576}"
    using s(10) st(5) by (auto simp: sock_nodes_def offsets timer_list_def)
  ultimately show ?thesis using s st(1,3,4) by (intro exI [of _ st'] exI [of _ F'] exI [of _ sk]) simp
qed

text \<open>The first close of a connection: the FIN is out, one of the two references is gone.\<close>

lemma tcp_sock_close_established:
  assumes f: "ip_init_hdr_ok f" and ok: "stack_ok st F" and sk: "socks st p = Some sk" "sk_state sk = TCP_ESTABLISHED"
    and both: "hashed F p" "bound F p"
  shows "\<exists>st'. tcp_sock_close f st p = Inr st' \<and> stack_ok st' F \<and> nodes st' = nodes st \<and>
    socks st' = (socks st)(p \<mapsto> sk\<lparr>snd_nxt := next_seq st (snd_nxt sk) TCP_FIN, sk_state := TCP_FIN_WAIT_1, ref_cnt := 1\<rparr>) \<and>
    emitted st (cb_of (sk_sip sk) (sk_dip sk) (sk_sport sk) (sk_dport sk) (snd_nxt sk) (rcv_nxt sk) TCP_FIN (rcv_wnd sk) 0) st'"
proof -
  let ?sk0 = "sk\<lparr>snd_nxt := next_seq st (snd_nxt sk) TCP_FIN\<rparr>"
  let ?sk1 = "?sk0\<lparr>sk_state := TCP_FIN_WAIT_1, ref_cnt := 1\<rparr>"
  have ref: "ref_cnt sk = 2" and bd: "sk_parent sk = 0" "sk_sport sk \<noteq> 0"
    using stack_okD(3) [OF ok sk(1)] both sk(2) by (simp_all add: sock_ok_def gave_up_def)
  from stack_ok_send [OF f ok sk(1), of TCP_FIN] obtain s where
    s: "tcp_send_control_packet f st p TCP_FIN = Inr s" "stack_ok s F" "nodes s = nodes st" "socks s = (socks st)(p \<mapsto> ?sk0)"
      "emitted st (cb_of (sk_sip sk) (sk_dip sk) (sk_sport sk) (sk_dport sk) (snd_nxt sk) (rcv_nxt sk) TCP_FIN (rcv_wnd sk) 0) s" by blast
  let ?st1 = "s\<lparr>socks := (socks s)(p \<mapsto> ?sk1)\<rparr>"
  have "tcp_sock_close f st p = Inr ?st1"
    using sk s(1,4) ref by (simp add: tcp_sock_close_def tcp_set_state_def free_tcp_sock_def)
  moreover have "stack_ok ?st1 F"
    by (rule stack_ok_upd [OF s(2), of p ?sk0]) (use s(4) both bd in \<open>simp_all add: sock_key_def sock_ok_def gave_up_def\<close>)
  moreover have "emitted st (cb_of (sk_sip sk) (sk_dip sk) (sk_sport sk) (sk_dport sk) (snd_nxt sk) (rcv_nxt sk) TCP_FIN (rcv_wnd sk) 0) ?st1"
    using s(5) by simp
  ultimately show ?thesis using s(3,4) by (intro exI [of _ ?st1]) simp
qed

text \<open>Giving up both references of a listening socket releases it.\<close>

lemma listener_close_releases:
  assumes "stack_ok st F" and "socks st p = Some sk" and "sk_state sk = TCP_LISTEN"
    and "hashed F p" and "bound F p"
  obtains st1 st2 where "tcp_unhash st p = Inr st1" "tcp_bind_unhash st1 p = Inr st2" "socks st2 p = None"
proof -
  obtain h F1 where 1: "tcp_unhash st p = Inr (st\<lparr>nodes := h, socks := (socks st)(p \<mapsto> sk\<lparr>ref_cnt := 1\<rparr>)\<rparr>)"
    "stack_ok (st\<lparr>nodes := h, socks := (socks st)(p \<mapsto> sk\<lparr>ref_cnt := 1\<rparr>)\<rparr>) F1"
    "\<forall>q. bound F1 q = bound F q" "\<forall>q. hashed F1 q \<longleftrightarrow> q \<noteq> p \<and> hashed F q"
    using tcp_unhash_ok [OF assms(1,2,4,5)] assms(3) by (auto simp: gave_up_def)
  let ?st1 = "st\<lparr>nodes := h, socks := (socks st)(p \<mapsto> sk\<lparr>ref_cnt := 1\<rparr>)\<rparr>"
  obtain st2 where 2: "tcp_bind_unhash ?st1 p = Inr st2" "socks st2 = (socks ?st1)(p := None)"
    using tcp_bind_unhash_last [OF 1(2), of p] 1(3,4) assms(5) by auto
  then have "socks st2 p = None" by simp
  with 1(1) 2(1) show ?thesis by (rule that)
qed

text \<open>
  C33: Closing a listening socket uses it after it is freed. The two references of a bound and
  listening socket are dropped by \<^verbatim>\<open>tcp_unhash\<close> and \<^verbatim>\<open>tcp_bind_unhash\<close>, the
  second of which releases the memory; \<^verbatim>\<open>tcp_sock_close\<close> then still writes the state
  into it.
\<close>

theorem listener_close_use_after_free:
  assumes "stack_ok st F" and "socks st p = Some sk" and "sk_state sk = TCP_LISTEN"
    and "hashed F p" and "bound F p"
  shows "tcp_sock_close f st p = Inl Wild_Pointer"
proof -
  obtain st1 st2 where "tcp_unhash st p = Inr st1" "tcp_bind_unhash st1 p = Inr st2" "socks st2 p = None"
    using listener_close_releases [OF assms] .
  with assms(2,3) show ?thesis by (simp add: tcp_sock_close_def tcp_set_state_def)
qed

theorem listener_close_use_after_free_witness:
  "\<exists>st. rbind (init_tcp_stack (boot (sample_mallocs 6))) (\<lambda>st. open_server st \<lparr>sa_ip = 0, sa_port = htons 80\<rparr> 3) = Inr (20480, st) \<and>
     tcp_sock_close sample_ip_init st 20480 = Inl Wild_Pointer"
proof -
  obtain st F sk where st: "rbind (init_tcp_stack (boot (sample_mallocs 6))) (\<lambda>st. open_server st \<lparr>sa_ip = 0, sa_port = htons 80\<rparr> 3) = Inr (20480, st)"
    "stack_ok st F" "socks st = [20480 \<mapsto> sk]" "sk_state sk = TCP_LISTEN" "hashed F 20480" "bound F 20480"
    using sample_server [of 6] by auto
  from listener_close_use_after_free [OF st(2) _ st(4-6), of sample_ip_init] st(1,3) show ?thesis by simp
qed

text \<open>Looking for a connection whose socket was freed while it was in the table.\<close>

lemma lookup_freed:
  assumes ok: "stack_ok st F" and sk: "socks st p = Some sk" and est: "linked F est_heads (p + OFF_hash_list)"
    and st': "nodes st' = set_nodes (sock_nodes p) None (nodes st)" "socks st' = (socks st)(p := None)"
  shows "tcp_sock_lookup_established st' (sk_sip sk) (sk_dip sk) (sk_sport sk) (sk_dport sk) = Inl Wild_Pointer"
proof -
  let ?n = "p + OFF_hash_list" and ?l = "established_table (key_bucket (sock_key sk))"
  from est established_iff [OF ok sk] obtain ns where ns: "F ?l = Some ns" "?n \<in> set ns" by blast
  from split_list_first [OF ns(2)] obtain xs ys where xs: "ns = xs @ ?n # ys" "?n \<notin> set xs" by blast
  have l: "?l \<in> hash_heads" using key_bucket_less by (auto simp: hash_heads_def)
  have d: "dll (nodes st) ?l (xs @ ?n # ys)"
    using lists.family_list mem_ok_family [OF stack_okD(1) [OF ok]] ns(1) xs(1) by blast
  have apart: "socks_apart (nodes st) (dom (socks st))" using stack_okD(1) [OF ok] by (simp add: mem_ok_def)
  have low: "?l \<notin> set (sock_nodes p)"
    using heads_low [of ?l] l mem_ok_low [OF stack_okD(1) [OF ok] domI [of "socks st" p, OF sk]]
    by (auto simp: sock_nodes_def offsets HEAP_BASE_def timer_list_def)
  let ?test = "\<lambda>n. rbind (rd_sock st' (hash_entry n)) (\<lambda>tmp. Inr (sk_sip tmp = sk_sip sk \<and> sk_sport tmp = sk_sport sk \<and>
      sk_dip tmp = sk_dip sk \<and> sk_dport tmp = sk_dport sk))"
  have pre: "nodes st' x = nodes st x \<and> ?test x = Inr False" if x: "x \<in> set xs" for x
  proof -
    have xn: "x \<in> set ns" using x xs(1) by simp
    obtain q qsk where q: "x = q + OFF_hash_list" "socks st q = Some qsk"
      using bucket_sock [OF ok l ns(1) xn] by (auto simp: hash_entry_def list_entry_def intro: that [of "x - OFF_hash_list"])
    have "q \<noteq> p" using q(1) x xs(2) by auto
    then have far: "SOCK_SIZE \<le> \<bar>q - p\<bar>" using apart q(2) sk unfolding socks_apart_def by blast
    then have "x \<notin> set (sock_nodes p)" by (auto simp: q(1) sock_nodes_def offsets)
    moreover have "sock_key qsk \<noteq> sock_key sk"
    proof
      assume "sock_key qsk = sock_key sk"
      then have "x = ?n" using q sk
        by (intro inj_onD [OF keys_ok_inj [OF stack_okD(2) [OF ok] key_bucket_less ns(1)] _ xn ns(2)]) simp
      with x xs(2) show False by simp
    qed
    then have "?test x = Inr False" using q st'(2) \<open>q \<noteq> p\<close> by (auto simp: sock_key_def)
    ultimately show ?thesis using st'(1) by (simp add: set_nodes_apply)
  qed
  have dead: "?test ?n = Inl Wild_Pointer" using st'(2) by simp
  have "list_find (nodes st') ?l ?test = Inl Wild_Pointer"
    by (rule list_find_fault [OF d]) (use st'(1) low pre dead in \<open>simp_all add: set_nodes_apply\<close>)
  then show ?thesis by (simp add: tcp_sock_lookup_established_def sock_key_def)
qed

text \<open>
  C34: Closing an established connection twice leaves a dangling table entry. The first
  \<^verbatim>\<open>tcp_sock_close\<close> sends a FIN, enters \<^verbatim>\<open>TCP_FIN_WAIT_1\<close> and gives up one of
  the two references without leaving a table; the second one, for instance on a FIN or RST
  from the peer, frees the socket, and the next segment of that connection makes the lookup
  read freed memory.
\<close>

theorem double_close_dangles:
  assumes "ip_init_hdr_ok f" and "stack_ok st F" and "socks st p = Some sk" and "sk_state sk = TCP_ESTABLISHED"
    and "linked F est_heads (p + OFF_hash_list)" and "bound F p"
  shows "\<exists>st1 sk1 st2. tcp_sock_close f st p = Inr st1 \<and> socks st1 p = Some sk1 \<and> sk_state sk1 = TCP_FIN_WAIT_1 \<and>
    ref_cnt sk1 = 1 \<and> tcp_sock_close f st1 p = Inr st2 \<and> socks st2 p = None \<and>
    tcp_sock_lookup_established st2 (sk_sip sk) (sk_dip sk) (sk_sport sk) (sk_dport sk) = Inl Wild_Pointer"
proof -
  have "hashed F p" using assms(5) by (auto simp: hashed_def hash_heads_split linked_def)
  from tcp_sock_close_established [OF assms(1-4) this assms(6)] obtain st1 where
    1: "tcp_sock_close f st p = Inr st1" "nodes st1 = nodes st" "socks st1 = (socks st)(p \<mapsto> sk\<lparr>snd_nxt := next_seq st (snd_nxt sk) TCP_FIN,
      sk_state := TCP_FIN_WAIT_1, ref_cnt := 1\<rparr>)" by blast
  let ?st2 = "st1\<lparr>socks := (socks st)(p := None), nodes := set_nodes (sock_nodes p) None (nodes st)\<rparr>"
  have 2: "tcp_sock_close f st1 p = Inr ?st2"
    using 1(2,3) by (simp add: tcp_sock_close_def free_tcp_sock_def)
  have "tcp_sock_lookup_established ?st2 (sk_sip sk) (sk_dip sk) (sk_sport sk) (sk_dport sk) = Inl Wild_Pointer"
    by (rule lookup_freed [OF assms(2,3,5)]) simp_all
  with 1 2 show ?thesis by (intro exI [of _ st1] exI [of _ "the (socks st1 p)"] exI [of _ ?st2]) simp
qed

text \<open>A connection in a sound stack, for the examples.\<close>

lemma sample_connection:
  "\<exists>st F sk. stack_ok st F \<and> socks st 20480 = Some sk \<and> sk_state sk = TCP_ESTABLISHED \<and>
     linked F est_heads (20480 + OFF_hash_list) \<and> bound F 20480 \<and> sock_key sk = (1, 2, 80, 4)"
proof -
  obtain st F where st: "stack_ok st F" "socks st = [20480 \<mapsto> fresh_sock]" "\<forall>H m. \<not> linked F H m"
    using sample_socket [of 6] by auto
  let ?sk1 = "fresh_sock\<lparr>sk_state := TCP_ESTABLISHED, sk_sip := 1, sk_dip := 2, sk_dport := 4\<rparr>"
  let ?st1 = "st\<lparr>socks := (socks st)(20480 \<mapsto> ?sk1)\<rparr>"
  have ok1: "stack_ok ?st1 F"
    by (rule stack_ok_upd [OF st(1), of _ fresh_sock]) (use st in \<open>simp_all add: sock_ok_def gave_up_def hashed_def bound_def\<close>)
  let ?sk2 = "?sk1\<lparr>sk_sport := chosen_port 80, ref_cnt := ref_cnt ?sk1 + 1\<rparr>"
  obtain h2 F2 where 2: "stack_ok (?st1\<lparr>nodes := h2, socks := (socks ?st1)(20480 \<mapsto> ?sk2)\<rparr>) F2"
    "\<forall>q. hashed F2 q = hashed F q" "\<forall>q. bound F2 q \<longleftrightarrow> q = 20480 \<or> bound F q" "\<forall>l. l \<notin> bind_heads \<longrightarrow> F2 l = F l"
    using tcp_sock_set_sport_ok [OF ok1, of 20480 ?sk1 80] st(3) by (auto simp: hashed_def bound_def)
  let ?st2 = "?st1\<lparr>nodes := h2, socks := (socks ?st1)(20480 \<mapsto> ?sk2)\<rparr>"
  have none: "\<forall>q. \<not> connected ?st2 F2 (sock_key ?sk2) q" "\<not> hashed F2 20480"
    using linked_bind_irrelevant [OF 2(4) table_heads_not_bind(1)] st(3) 2(2) by (auto simp: connected_def hashed_def)
  obtain h3 F3 where 3: "stack_ok (?st2\<lparr>nodes := h3, socks := (socks ?st2)(20480 \<mapsto> ?sk2\<lparr>ref_cnt := ref_cnt ?sk2 + 1\<rparr>)\<rparr>) F3"
    "\<forall>q. bound F3 q = bound F2 q" "\<forall>m. linked F3 est_heads m \<longleftrightarrow> m = 20480 + OFF_hash_list \<or> linked F2 est_heads m"
    using tcp_hash_est_ok [OF 2(1), of 20480 ?sk2] none by auto
  from 3 2(3) show ?thesis
    by (intro exI [of _ "?st2\<lparr>nodes := h3, socks := (socks ?st2)(20480 \<mapsto> ?sk2\<lparr>ref_cnt := ref_cnt ?sk2 + 1\<rparr>)\<rparr>"]
        exI [of _ F3] exI [of _ "?sk2\<lparr>ref_cnt := ref_cnt ?sk2 + 1\<rparr>"]) (simp add: sock_key_def chosen_port_def)
qed

theorem double_close_dangles_witness:
  "\<exists>st st1 st2. tcp_sock_close sample_ip_init st 20480 = Inr st1 \<and> tcp_sock_close sample_ip_init st1 20480 = Inr st2 \<and>
     tcp_sock_lookup_established st2 1 2 80 4 = Inl Wild_Pointer"
proof -
  obtain st F sk where st: "stack_ok st F" "socks st 20480 = Some sk" "sk_state sk = TCP_ESTABLISHED"
    "linked F est_heads (20480 + OFF_hash_list)" "bound F 20480" "sock_key sk = (1, 2, 80, 4)"
    using sample_connection by blast
  from st(6) have "sk_sip sk = 1" "sk_dip sk = 2" "sk_sport sk = 80" "sk_dport sk = 4" by (simp_all add: sock_key_def)
  with double_close_dangles [OF sample_ip_init_ok st(1-5)] show ?thesis by auto
qed

end
