(* ===== verification/Tcp_In.thy ===== *)
theory Tcp_In
  imports Tcp_Api
begin

text \<open>
  Processing of incoming segments: \<^verbatim>\<open>tcp_in.c\<close> and \<^verbatim>\<open>handle_tcp_packet\<close> of
  \<^verbatim>\<open>tcp.c\<close>.

  Five places of \<^verbatim>\<open>tcp_process\<close> do not compile as written and are read as follows:
  \<^verbatim>\<open>LISTEN\<close> is \<^verbatim>\<open>TCP_LISTEN\<close>; \<^verbatim>\<open>struct *tcp_sock tmp\<close> declares a
  pointer to a socket; the missing semicolon after \<^verbatim>\<open>list_add_tail\<close> is there;
  \<^verbatim>\<open>cb->flag\<close>, twice, is \<^verbatim>\<open>cb->flags\<close>. The condition
  \<^verbatim>\<open>cb->flags == TCP_SYN|TCP_ACK\<close> is kept as C parses it,
  \<^verbatim>\<open>(cb->flags == TCP_SYN) | TCP_ACK\<close>.
\<close>

definition tcp_update_window :: "stack \<Rightarrow> addr \<Rightarrow> tcp_cb \<Rightarrow> stack res" where
  "tcp_update_window st tsk cb =
     rbind (rd_sock st tsk) (\<lambda>sk.
     let old_snd_wnd = ucast (snd_wnd sk) :: u16 in
     rbind (upd_sock st tsk (\<lambda>sk. sk\<lparr>snd_wnd := cb_rwnd cb\<rparr>)) (\<lambda>st.
     if old_snd_wnd = 0 then wake_up_sock st tsk wait_send set_wait_send else Inr st))"

definition tcp_update_window_safe :: "stack \<Rightarrow> addr \<Rightarrow> tcp_cb \<Rightarrow> stack res" where
  "tcp_update_window_safe st tsk cb =
     rbind (rd_sock st tsk) (\<lambda>sk.
     if less_or_equal_32b (snd_una sk) (cb_ack cb) \<and> less_or_equal_32b (cb_ack cb) (snd_nxt sk)
     then tcp_update_window st tsk cb else Inr st)"

definition is_tcp_seq_valid :: "tcp_sock \<Rightarrow> tcp_cb \<Rightarrow> bool" where
  "is_tcp_seq_valid sk cb =
     (let rcv_end = rcv_nxt sk + word_of_int (max (int (unat (rcv_wnd sk))) 1) in
      less_than_32b (cb_seq cb) rcv_end \<and> less_or_equal_32b (rcv_nxt sk) (cb_seq_end cb))"

text \<open>The value of a C comparison.\<close>

definition c_bool :: "bool \<Rightarrow> u8" where
  "c_bool b = (if b then 1 else 0)"

definition tcp_process :: "ip_init \<Rightarrow> stack \<Rightarrow> addr \<Rightarrow> tcp_cb \<Rightarrow> stack res" where
  "tcp_process ip_init_hdr st tsk cb =
     rbind (rd_sock st tsk) (\<lambda>sk.
     if \<not> is_tcp_seq_valid sk cb then Inr st
     else if cb_flags cb = TCP_RST then
       rbind (tcp_send_control_packet ip_init_hdr st tsk TCP_ACK) (\<lambda>st.
       tcp_sock_close ip_init_hdr st tsk)
     else if cb_flags cb = TCP_FIN then tcp_sock_close ip_init_hdr st tsk
     else
       let state = sk_state sk in
       if state = TCP_CLOSED then tcp_send_reset ip_init_hdr st cb
       else if state = TCP_LISTEN then
         if cb_flags cb = TCP_SYN then
           rbind (alloc_tcp_sock st) (\<lambda>(tmp, st).
           rbind (upd_sock st tmp (\<lambda>t. t\<lparr>sk_sip := cb_daddr cb, sk_sport := cb_dport cb,
                    sk_dip := cb_saddr cb, sk_dport := cb_sport cb, sk_parent := tsk\<rparr>)) (\<lambda>st.
           rbind (rd_sock st tsk) (\<lambda>sk.
           rbind (on_nodes st (\<lambda>h. list_add_tail h (tmp + OFF_list) (sk_parent sk + OFF_listen_queue))) (\<lambda>st.
           rbind (tcp_send_control_packet ip_init_hdr st tmp (TCP_SYN OR TCP_ACK)) (\<lambda>st.
           rbind (tcp_set_state st tmp TCP_SYN_RECV) (\<lambda>st.
           rbind (tcp_hash st tmp) (\<lambda>(_, st). Inr st)))))))
         else tcp_send_reset ip_init_hdr st cb
       else if state = TCP_SYN_RECV then
         if cb_flags cb = TCP_ACK then
           rbind (tcp_sock_accept_enqueue st tsk) (\<lambda>st.
           rbind (tcp_set_state st tsk TCP_ESTABLISHED) (\<lambda>st.
           rbind (rd_sock st tsk) (\<lambda>sk.
           wake_up_sock st (sk_parent sk) wait_accept set_wait_accept)))
         else tcp_send_reset ip_init_hdr st cb
       else if state = TCP_SYN_SENT then
         if c_bool (cb_flags cb = TCP_SYN) OR TCP_ACK \<noteq> 0 then
           rbind (tcp_set_state st tsk TCP_ESTABLISHED) (\<lambda>st.
           rbind (tcp_send_control_packet ip_init_hdr st tsk TCP_ACK) (\<lambda>st.
           wake_up_sock st tsk wait_connect set_wait_connect))
         else tcp_send_reset ip_init_hdr st cb
       else Inr st)"

definition handle_tcp_packet :: "ip_init \<Rightarrow> stack \<Rightarrow> u8 list \<Rightarrow> nat \<Rightarrow> nat \<Rightarrow> stack res" where
  "handle_tcp_packet ip_init_hdr st packet ip tcp =
     rbind (tcp_checksum packet ip tcp) (\<lambda>c.
     rbind (rd16 packet (tcp + 16)) (\<lambda>field.
     if c \<noteq> field then Inr st
     else
       rbind (tcp_cb_init packet ip tcp) (\<lambda>cb.
       rbind (tcp_sock_lookup st cb) (\<lambda>tsk.
       tcp_process ip_init_hdr st tsk cb))))"

section \<open>The window test\<close>

lemma seq_diff:
  fixes base :: u32
  assumes "\<bar>d\<bar> < 2 ^ 30" "\<bar>e\<bar> < 2 ^ 30"
  shows "sint ((base + word_of_int d) - (base + word_of_int e)) = d - e"
proof -
  have "(base + word_of_int d) - (base + word_of_int e) = word_of_int (d - e)" by simp
  moreover have "sint (word_of_int (d - e) :: u32) = d - e"
    using to_int32_id [of "d - e"] assms by (simp add: to_int32_def)
  ultimately show ?thesis by metis
qed

lemma sint_shift:
  "- (2 ^ 31) \<le> d \<Longrightarrow> d < 2 ^ 31 \<Longrightarrow> sint (word_of_int d :: u32) = d"
  "2 ^ 31 \<le> d \<Longrightarrow> d < 2 ^ 32 \<Longrightarrow> sint (word_of_int d :: u32) = d - 2 ^ 32"
  "- (2 ^ 32) \<le> d \<Longrightarrow> d < - (2 ^ 31) \<Longrightarrow> sint (word_of_int d :: u32) = d + 2 ^ 32"
proof -
  have id: "- (2 ^ 31) \<le> d \<Longrightarrow> d < 2 ^ 31 \<Longrightarrow> sint (word_of_int d :: u32) = d" for d
    using to_int32_id [of d] by (simp add: to_int32_def)
  show "- (2 ^ 31) \<le> d \<Longrightarrow> d < 2 ^ 31 \<Longrightarrow> sint (word_of_int d :: u32) = d" by (rule id)
  have e: "word_of_int d = (word_of_int (d - 2 ^ 32) :: u32)" "word_of_int d = (word_of_int (d + 2 ^ 32) :: u32)"
    by (simp_all add: word_of_int_eq_iff take_bit_eq_mod)
  show "sint (word_of_int d :: u32) = d - 2 ^ 32" if "2 ^ 31 \<le> d" "d < 2 ^ 32"
    unfolding e(1) by (rule id) (use that in simp_all)
  show "sint (word_of_int d :: u32) = d + 2 ^ 32" if "- (2 ^ 32) \<le> d" "d < - (2 ^ 31)"
    unfolding e(2) by (rule id) (use that in simp_all)
qed

text \<open>
  Before the first segment of the peer is known, \<^verbatim>\<open>rcv_nxt\<close> is zero: a segment that
  occupies one sequence number passes if it starts in the first window or at \<open>2 ^ 32 - 1\<close>.
\<close>

lemma first_segment_window:
  assumes "rcv_nxt sk = 0" "rcv_wnd sk = 65535" "cb_seq_end cb = cb_seq cb + 1"
  shows "is_tcp_seq_valid sk cb \<longleftrightarrow> unat (cb_seq cb) < 65535 \<or> cb_seq cb = - 1"
proof -
  define x where "x = uint (cb_seq cb)"
  have x: "0 \<le> x" "x < 2 ^ 32" using unsigned_less [of "cb_seq cb", where ?'a = int] by (simp_all add: x_def)
  have sq: "cb_seq cb = word_of_int x" by (simp add: x_def)
  have w: "cb_seq cb - 65535 = word_of_int (x - 65535)" "- (cb_seq cb + 1) = word_of_int (- (x + 1))"
    by (simp_all add: sq)
  have 1: "sint (cb_seq cb - 65535) < 0 \<longleftrightarrow> x < 65535 \<or> 2 ^ 31 + 65535 \<le> x"
    unfolding w(1) using x sint_shift(1,2) [of "x - 65535"] by (cases "x - 65535 < 2 ^ 31") auto
  have 2: "sint (- (cb_seq cb + 1)) \<le> 0 \<longleftrightarrow> x < 2 ^ 31 \<or> x = 2 ^ 32 - 1"
    unfolding w(2) using x sint_shift(1,3) [of "- (x + 1)"] by (cases "x < 2 ^ 31") auto
  have "uint (- 1 :: u32) = 2 ^ 32 - 1" by (simp add: unsigned_minus_1_eq_mask mask_eq_exp_minus_1)
  then have "cb_seq cb = - 1 \<longleftrightarrow> x = 2 ^ 32 - 1" unfolding x_def by (metis word_uint_eq_iff)
  moreover have "unat (cb_seq cb) < 65535 \<longleftrightarrow> x < 65535"
    unfolding x_def uint_nat by linarith
  moreover have "is_tcp_seq_valid sk cb \<longleftrightarrow> sint (cb_seq cb - 65535) < 0 \<and> sint (- (cb_seq cb + 1)) \<le> 0"
    using assms by (simp add: is_tcp_seq_valid_def less_than_32b_def less_or_equal_32b_def)
  ultimately show ?thesis using 1 2 x by auto
qed

text \<open>
  C14: The window test. For a segment that starts at offset \<open>d\<close> and ends before offset \<open>e\<close>
  relative to \<^verbatim>\<open>rcv_nxt\<close>, both less than \<open>2 ^ 30\<close> away from it and possibly across the
  wrap of the sequence space, \<^verbatim>\<open>is_tcp_seq_valid\<close> holds if and only if \<open>d\<close> is before the
  end of the window, an empty window counting as one byte, and \<open>e\<close> is not before
  \<^verbatim>\<open>rcv_nxt\<close>. The second bound lets through old segments that end exactly at
  \<^verbatim>\<open>rcv_nxt\<close> and contain no byte of the window.
\<close>

theorem is_tcp_seq_valid_window:
  assumes "cb_seq cb = rcv_nxt sk + word_of_int d" and "cb_seq_end cb = rcv_nxt sk + word_of_int e"
    and "\<bar>d\<bar> < 2 ^ 30" and "\<bar>e\<bar> < 2 ^ 30"
  shows "is_tcp_seq_valid sk cb \<longleftrightarrow> d < max (int (unat (rcv_wnd sk))) 1 \<and> 0 \<le> e"
proof -
  have "uint (rcv_wnd sk) < 65536" using unsigned_less [of "rcv_wnd sk", where ?'a = int] by simp
  then have w: "\<bar>max (int (unat (rcv_wnd sk))) 1\<bar> < 2 ^ 30" by simp
  have "sint (cb_seq cb - (rcv_nxt sk + word_of_int (max (int (unat (rcv_wnd sk))) 1))) =
      d - max (int (unat (rcv_wnd sk))) 1"
    unfolding assms(1) by (rule seq_diff [OF assms(3) w])
  moreover have "sint (rcv_nxt sk - cb_seq_end cb) = - e"
    using seq_diff [of 0 e "rcv_nxt sk"] assms(2,4) by simp
  ultimately show ?thesis
    by (simp add: is_tcp_seq_valid_def Let_def less_than_32b_def less_or_equal_32b_def)
qed

theorem is_tcp_seq_valid_window_witness:
  "is_tcp_seq_valid (fresh_sock\<lparr>rcv_nxt := 0xfffffff0\<rparr>) (cb_of 1 2 3 4 0x10 0 TCP_ACK 0 8) \<and>
   \<not> is_tcp_seq_valid (fresh_sock\<lparr>rcv_nxt := 0xfffffff0\<rparr>) (cb_of 1 2 3 4 0xffffff00 0 TCP_ACK 0 8)"
  using is_tcp_seq_valid_window [of "cb_of 1 2 3 4 0x10 0 TCP_ACK 0 8" "fresh_sock\<lparr>rcv_nxt := 0xfffffff0\<rparr>" 32 40]
    is_tcp_seq_valid_window [of "cb_of 1 2 3 4 0xffffff00 0 TCP_ACK 0 8" "fresh_sock\<lparr>rcv_nxt := 0xfffffff0\<rparr>" "- 240" "- 232"]
  by (simp add: cb_of_def fresh_sock_def TCP_DEFAULT_WINDOW_def flag_defs)

section \<open>Segments without a socket\<close>

text \<open>
  C28: A segment that matches no socket crashes the stack. When the addresses and ports of a
  well-formed segment belong neither to a connection nor to a listener, lookup returns
  \<^verbatim>\<open>NULL\<close> and \<^verbatim>\<open>tcp_process\<close> dereferences it instead of sending a reset.
\<close>

theorem unmatched_segment_faults:
  assumes "stack_ok st F" and "received pkt cb"
    and "\<forall>q. \<not> connected st F (cb_daddr cb, cb_saddr cb, cb_dport cb, cb_sport cb) q"
    and "\<forall>q. \<not> listening st F (cb_dport cb) q"
  shows "handle_tcp_packet f st pkt 14 34 = Inl Wild_Pointer"
proof -
  obtain p where p: "tcp_sock_lookup_established st (cb_daddr cb) (cb_saddr cb) (cb_dport cb) (cb_sport cb) = Inr p"
    "\<forall>q. connected st F (cb_daddr cb, cb_saddr cb, cb_dport cb, cb_sport cb) q \<longleftrightarrow> q = p \<and> p \<noteq> 0"
    using lookup_established_iff [OF assms(1)] by blast
  obtain r where r: "tcp_sock_lookup_listen st (cb_daddr cb) (cb_dport cb) = Inr r"
    "r \<noteq> 0 \<longrightarrow> listening st F (cb_dport cb) r"
    using lookup_listen_iff [OF assms(1)] by blast
  have "p = 0" "r = 0" using p(2) r(2) assms(3,4) by blast+
  with p(1) r(1) have "tcp_sock_lookup st cb = Inr 0" by (simp add: tcp_sock_lookup_def)
  moreover have "rd_sock st 0 = Inl Wild_Pointer"
    using sock_nonzero [OF assms(1)] by (cases "socks st 0") auto
  moreover obtain c where "tcp_checksum pkt 14 34 = Inr c" "rd16 pkt 50 = Inr c" "tcp_cb_init pkt 14 34 = Inr cb"
    using assms(2) by (auto simp: received_def)
  ultimately show ?thesis by (simp add: handle_tcp_packet_def tcp_process_def)
qed

theorem unmatched_segment_faults_witness:
  "\<exists>st pkt. init_tcp_stack (boot (sample_mallocs 6)) = Inr st \<and> received pkt (cb_of 1 2 3 4 0 0 TCP_SYN 9 0) \<and>
     handle_tcp_packet sample_ip_init st pkt 14 34 = Inl Wild_Pointer"
proof -
  obtain st F where st: "init_tcp_stack (boot (sample_mallocs 6)) = Inr st" "stack_ok st F" "socks st = Map.empty"
    using sample_stack by blast
  obtain pkt where pkt: "received pkt (cb_of 1 2 3 4 0 0 TCP_SYN 9 0)"
    using build_header_only [OF sample_ip_init_ok] by blast
  have "handle_tcp_packet sample_ip_init st pkt 14 34 = Inl Wild_Pointer"
    by (rule unmatched_segment_faults [OF st(2) pkt]) (simp_all add: connected_def listening_def st(3))
  with st(1) pkt show ?thesis by blast
qed

section \<open>The state machine\<close>

text \<open>A refused segment, whether a reset can be sent or not.\<close>

lemma stack_ok_reset:
  assumes "ip_init_hdr_ok f" "stack_ok st F"
  shows "\<exists>st'. tcp_send_reset f st cb = Inr st' \<and> stack_ok st' F \<and> nodes st' = nodes st \<and> socks st' = socks st \<and>
    emitted st (cb_of (cb_daddr cb) (cb_saddr cb) (cb_dport cb) (cb_sport cb) 0 (cb_seq_end cb) (TCP_RST OR TCP_ACK) 0 0) st'"
proof (cases "mallocs st = [] \<or> fst (hd (mallocs st)) = 0")
  case True
  with send_nomem(2) [OF True] assms(2) show ?thesis by (simp add: emitted_def)
next
  case False
  then obtain a junk ms where m: "mallocs st = (a, junk) # ms" "a \<noteq> 0" by (cases "mallocs st") auto
  from tcp_send_reset_ok [OF assms(1) m, of cb] obtain pkt where
    "tcp_send_reset f st cb = Inr (st\<lparr>mallocs := ms, sent := sent st @ [pkt]\<rparr>)"
    "received pkt (cb_of (cb_daddr cb) (cb_saddr cb) (cb_dport cb) (cb_sport cb) 0 (cb_seq_end cb) (TCP_RST OR TCP_ACK) 0 0)" by blast
  with assms(2) m show ?thesis by (simp add: stack_ok_def emitted_def)
qed

text \<open>The SYN of a new connection is queued at the parent of the listening socket, which has none.\<close>

lemma listener_syn_wild:
  assumes "stack_ok st F" and "socks st p = Some sk" and "sk_state sk = TCP_LISTEN" and "sk_parent sk = 0"
    and "alloc_ready st q" and "\<forall>a\<in>dom (nodes st). 4096 \<le> a"
    and "is_tcp_seq_valid sk cb" and "cb_flags cb = TCP_SYN"
  shows "tcp_process f st p cb = Inl Wild_Pointer"
proof -
  obtain h where h: "alloc_tcp_sock st = Inr (q, st\<lparr>socks := (socks st)(q \<mapsto> fresh_sock), nodes := h,
      mallocs := drop 6 (mallocs st)\<rparr>)" "dom h = set (sock_nodes q) \<union> dom (nodes st)"
    using stack_ok_alloc [OF assms(1,5)] by blast
  have "SOCK_SIZE \<le> \<bar>q - p\<bar>"
    using assms(2,5) unfolding alloc_ready_def fresh_block_def by blast
  then have "q \<noteq> p" by (auto simp: SOCK_SIZE_def)
  moreover have "h 64 = None"
  proof -
    have "HEAP_BASE \<le> q" using assms(5) by (simp add: alloc_ready_def fresh_block_def)
    then have "64 \<notin> set (sock_nodes q)" by (auto simp: sock_nodes_def offsets HEAP_BASE_def)
    moreover have "64 \<notin> dom (nodes st)" using assms(6) by force
    ultimately show ?thesis using h(2) by blast
  qed
  ultimately show ?thesis
    using h(1) assms(2-4,7,8)
    by (simp add: tcp_process_def flag_defs on_nodes_def list_add_tail_def rd_node_def OFF_listen_queue_def)
qed

text \<open>A RST or FIN closes the listening socket, which is freed and then used.\<close>

lemma listener_close_wild:
  assumes f: "ip_init_hdr_ok f" and ok: "stack_ok st F" and sk: "socks st p = Some sk" "sk_state sk = TCP_LISTEN"
    and both: "hashed F p" "bound F p" and cb: "is_tcp_seq_valid sk cb" "cb_flags cb \<in> {TCP_RST, TCP_FIN}"
  shows "tcp_process f st p cb = Inl Wild_Pointer"
proof -
  have wild: "tcp_sock_close f s p = Inl Wild_Pointer"
    if s: "stack_ok s F" "socks s p = Some t" "sk_state t = TCP_LISTEN" for s t
  proof -
    obtain s1 s2 where "tcp_unhash s p = Inr s1" "tcp_bind_unhash s1 p = Inr s2" "socks s2 p = None"
      using listener_close_releases [OF s both] .
    with s(2,3) show ?thesis by (simp add: tcp_sock_close_def tcp_set_state_def)
  qed
  from stack_ok_send [OF f ok sk(1), of TCP_ACK] obtain s where
    s: "tcp_send_control_packet f st p TCP_ACK = Inr s" "stack_ok s F"
      "socks s = (socks st)(p \<mapsto> sk\<lparr>snd_nxt := next_seq st (snd_nxt sk) TCP_ACK\<rparr>)" by blast
  show ?thesis using wild [OF ok sk] wild [OF s(2)] s(1,3) sk cb by (auto simp: tcp_process_def flag_defs)
qed

text \<open>
  C29: What a listening socket can take. Of the segments in its window, a SYN makes the stack
  follow the null pointer to the parent of the listening socket, and a RST or FIN closes the
  listening socket, which is freed and then written to. Every other segment in the window is
  answered with a reset, every segment outside it is dropped, and the sockets stay as they are.
  A server thus survives exactly the segments that open no connection.
\<close>

theorem listener_segments:
  assumes "ip_init_hdr_ok f" and "stack_ok st F" and "socks st p = Some sk" and "sk_state sk = TCP_LISTEN"
    and "hashed F p" and "bound F p" and "alloc_ready st q" and "\<forall>a\<in>dom (nodes st). 4096 \<le> a"
  shows "if is_tcp_seq_valid sk cb \<and> cb_flags cb \<in> {TCP_SYN, TCP_RST, TCP_FIN} then tcp_process f st p cb = Inl Wild_Pointer
    else \<exists>st'. tcp_process f st p cb = Inr st' \<and> stack_ok st' F \<and> socks st' = socks st \<and>
      (if is_tcp_seq_valid sk cb
       then emitted st (cb_of (cb_daddr cb) (cb_saddr cb) (cb_dport cb) (cb_sport cb) 0 (cb_seq_end cb) (TCP_RST OR TCP_ACK) 0 0) st'
       else st' = st)"
proof -
  have par: "sk_parent sk = 0" using stack_okD(3) [OF assms(2,3)] assms(4-6) by (simp add: sock_ok_def gave_up_def)
  have syn: "tcp_process f st p cb = Inl Wild_Pointer" if "is_tcp_seq_valid sk cb" "cb_flags cb = TCP_SYN"
    using listener_syn_wild [OF assms(2-4) par assms(7,8) that] .
  have close: "tcp_process f st p cb = Inl Wild_Pointer" if "is_tcp_seq_valid sk cb" "cb_flags cb \<in> {TCP_RST, TCP_FIN}"
    using listener_close_wild [OF assms(1-6) that] .
  have drop: "tcp_process f st p cb = Inr st" if "\<not> is_tcp_seq_valid sk cb"
    using that assms(3) by (simp add: tcp_process_def)
  have reset: "tcp_process f st p cb = tcp_send_reset f st cb"
    if "is_tcp_seq_valid sk cb" "cb_flags cb \<notin> {TCP_SYN, TCP_RST, TCP_FIN}"
    using that assms(3,4) by (simp add: tcp_process_def)
  show ?thesis
  proof (cases "is_tcp_seq_valid sk cb")
    case True
    then show ?thesis using syn close reset stack_ok_reset [OF assms(1,2), of cb] by auto
  qed (use drop assms(2) in simp)
qed

theorem listener_segments_witness:
  "\<exists>st st'. rbind (init_tcp_stack (boot (sample_mallocs 12))) (\<lambda>st. open_server st \<lparr>sa_ip = 0, sa_port = htons 80\<rparr> 3) = Inr (20480, st) \<and>
     tcp_process sample_ip_init st 20480 (cb_of 1 2 3 80 100 0 TCP_SYN 9 0) = Inl Wild_Pointer \<and>
     tcp_process sample_ip_init st 20480 (cb_of 1 2 3 80 100 0 TCP_ACK 9 0) = Inr st' \<and> socks st' = socks st"
proof -
  let ?cb = "\<lambda>fl. cb_of 1 2 3 80 100 0 fl 9 0"
  obtain st F sk where st: "rbind (init_tcp_stack (boot (sample_mallocs 12))) (\<lambda>st. open_server st \<lparr>sa_ip = 0, sa_port = htons 80\<rparr> 3) = Inr (20480, st)"
    "stack_ok st F" "socks st = [20480 \<mapsto> sk]" "sk_state sk = TCP_LISTEN" "hashed F 20480" "bound F 20480"
    "mallocs st = drop 6 (sample_mallocs 12)" "dom (nodes st) \<subseteq> {4096..<24576}" "rcv_nxt sk = 0" "rcv_wnd sk = 65535"
    using sample_server [of 12] by auto
  have a: "alloc_ready st (HEAP_BASE + 4096 * int 6)"
    by (rule sample_alloc [OF st(2), of 6 12]) (use st in \<open>auto simp: HEAP_BASE_def\<close>)
  have v: "is_tcp_seq_valid sk (?cb fl)" for fl
    using st(9,10) by (simp add: is_tcp_seq_valid_def cb_of_def less_than_32b_def less_or_equal_32b_def flag_defs)
  have p: "socks st 20480 = Some sk" "\<forall>a\<in>dom (nodes st). 4096 \<le> a" using st(3,8) by auto
  have fl: "cb_flags (?cb fl) = fl" for fl by (simp add: cb_of_def)
  note seg = listener_segments [OF sample_ip_init_ok st(2) p(1) st(4-6) a p(2)]
  have "tcp_process sample_ip_init st 20480 (?cb TCP_SYN) = Inl Wild_Pointer"
    using seg [of "?cb TCP_SYN"] v [of TCP_SYN] fl [of TCP_SYN] by simp
  moreover have "\<exists>st'. tcp_process sample_ip_init st 20480 (?cb TCP_ACK) = Inr st' \<and> socks st' = socks st"
  proof -
    have "cb_flags (?cb TCP_ACK) \<notin> {TCP_SYN, TCP_RST, TCP_FIN}" using fl [of TCP_ACK] by (simp add: flag_defs)
    then show ?thesis using seg [of "?cb TCP_ACK"] by auto
  qed
  ultimately show ?thesis using st(1) by blast
qed

lemma syn_sent_step:
  assumes f: "ip_init_hdr_ok f" and ok: "stack_ok st F" and sk: "socks st p = Some sk" "sk_state sk = TCP_SYN_SENT"
    and cb: "is_tcp_seq_valid sk cb" "cb_flags cb \<notin> {TCP_RST, TCP_FIN}"
  shows "\<exists>st'. tcp_process f st p cb = Inr st' \<and> stack_ok st' F \<and> nodes st' = nodes st \<and>
    socks st' = (socks st)(p \<mapsto> sk\<lparr>sk_state := TCP_ESTABLISHED, wait_connect := fst (snd (wake_up (wait_connect sk)))\<rparr>) \<and>
    emitted st (cb_of (sk_sip sk) (sk_dip sk) (sk_sport sk) (sk_dport sk) (snd_nxt sk) (rcv_nxt sk) TCP_ACK (rcv_wnd sk) 0) st'"
proof -
  let ?sk1 = "sk\<lparr>sk_state := TCP_ESTABLISHED\<rparr>"
  let ?st1 = "st\<lparr>socks := (socks st)(p \<mapsto> ?sk1)\<rparr>"
  have "stack_ok ?st1 F" by (rule stack_ok_inner [OF ok sk(1)]) (simp_all add: sock_key_def gave_up_def sk(2))
  moreover have "next_seq ?st1 n TCP_ACK = n" for n by (simp add: next_seq_def flag_defs)
  ultimately obtain s where
    s: "tcp_send_control_packet f ?st1 p TCP_ACK = Inr s" "stack_ok s F" "nodes s = nodes st" "socks s = (socks st)(p \<mapsto> ?sk1)"
      "emitted ?st1 (cb_of (sk_sip sk) (sk_dip sk) (sk_sport sk) (sk_dport sk) (snd_nxt sk) (rcv_nxt sk) TCP_ACK (rcv_wnd sk) 0) s"
    using stack_ok_send [OF f, of ?st1 F p ?sk1 TCP_ACK] by auto
  let ?sk2 = "?sk1\<lparr>wait_connect := fst (snd (wake_up (wait_connect sk)))\<rparr>"
  let ?st2 = "s\<lparr>socks := (socks s)(p \<mapsto> ?sk2)\<rparr>"
  have "stack_ok ?st2 F" by (rule stack_ok_inner [OF s(2), of p ?sk1]) (use s(4) in \<open>simp_all add: sock_key_def\<close>)
  moreover have "c_bool (cb_flags cb = TCP_SYN) OR TCP_ACK \<noteq> 0" by (simp add: c_bool_def flag_defs)
  then have "tcp_process f st p cb = Inr ?st2"
    using sk cb s(1,4)
    by (simp add: tcp_process_def tcp_set_state_def wake_up_sock_def set_wait_connect_def Let_def)
  moreover have "emitted st (cb_of (sk_sip sk) (sk_dip sk) (sk_sport sk) (sk_dport sk) (snd_nxt sk) (rcv_nxt sk) TCP_ACK (rcv_wnd sk) 0) ?st2"
    using s(5) by simp
  ultimately show ?thesis using s(3,4) by (intro exI [of _ ?st2]) simp
qed

text \<open>
  C20: In \<^verbatim>\<open>TCP_SYN_SENT\<close> every segment completes the connection. Because the
  condition \<^verbatim>\<open>cb->flags == TCP_SYN|TCP_ACK\<close> is never false, any segment in the window
  whose flags are not exactly RST or FIN moves the socket to \<^verbatim>\<open>TCP_ESTABLISHED\<close>,
  sends an ACK and notifies the thread in \<^verbatim>\<open>tcp_sock_connect\<close>; the right answer, SYN
  and ACK, is one of them. \<^verbatim>\<open>rcv_nxt\<close> stays as it was.
\<close>

theorem syn_sent_accepts_any_segment:
  assumes "ip_init_hdr_ok f" and "stack_ok st F" and "socks st p = Some sk" and "sk_state sk = TCP_SYN_SENT"
    and "is_tcp_seq_valid sk cb" and "cb_flags cb \<notin> {TCP_RST, TCP_FIN}"
    and "mallocs st = (a, junk) # ms" and "a \<noteq> 0" and "sw_dead (wait_connect sk) = 0"
  shows "\<exists>st' sk' pkt. tcp_process f st p cb = Inr st' \<and> stack_ok st' F \<and> socks st' = (socks st)(p \<mapsto> sk') \<and>
    sk_state sk' = TCP_ESTABLISHED \<and> sw_notified (wait_connect sk') \<noteq> 0 \<and> rcv_nxt sk' = rcv_nxt sk \<and>
    sock_key sk' = sock_key sk \<and> sent st' = sent st @ [pkt] \<and>
    received pkt (cb_of (sk_sip sk) (sk_dip sk) (sk_sport sk) (sk_dport sk) (snd_nxt sk) (rcv_nxt sk) TCP_ACK (rcv_wnd sk) 0)"
proof -
  let ?sk = "sk\<lparr>sk_state := TCP_ESTABLISHED, wait_connect := fst (snd (wake_up (wait_connect sk)))\<rparr>"
  obtain st' where st': "tcp_process f st p cb = Inr st'" "stack_ok st' F" "socks st' = (socks st)(p \<mapsto> ?sk)"
    "emitted st (cb_of (sk_sip sk) (sk_dip sk) (sk_sport sk) (sk_dport sk) (snd_nxt sk) (rcv_nxt sk) TCP_ACK (rcv_wnd sk) 0) st'"
    using syn_sent_step [OF assms(1-6)] by blast
  obtain pkt where "sent st' = sent st @ [pkt]"
    "received pkt (cb_of (sk_sip sk) (sk_dip sk) (sk_sport sk) (sk_dport sk) (snd_nxt sk) (rcv_nxt sk) TCP_ACK (rcv_wnd sk) 0)"
    using st'(4) assms(7,8) by (auto simp: emitted_def)
  moreover have "sw_notified (wait_connect ?sk) \<noteq> 0" using assms(9) by (simp add: wake_up_def Let_def)
  ultimately show ?thesis using st'(1-3)
    by (intro exI [of _ st'] exI [of _ ?sk] exI [of _ pkt]) (simp add: sock_key_def)
qed

theorem syn_sent_accepts_any_segment_witness:
  "\<exists>st st' sk'. socks st 20480 \<noteq> None \<and>
     tcp_process sample_ip_init st 20480 (cb_of 2 1 4 80 0 7 TCP_URG 9 0) = Inr st' \<and>
     socks st' 20480 = Some sk' \<and> sk_state sk' = TCP_ESTABLISHED"
proof -
  obtain st F where st: "stack_ok st F" "socks st = [20480 \<mapsto> fresh_sock]" "\<forall>H m. \<not> linked F H m"
    "mallocs st = drop 6 (sample_mallocs 7)"
    using sample_socket [of 7] by auto
  let ?sk = "fresh_sock\<lparr>sk_state := TCP_SYN_SENT, sk_sip := 1, sk_dip := 2, sk_sport := 80, sk_dport := 4\<rparr>"
  let ?st = "st\<lparr>socks := (socks st)(20480 \<mapsto> ?sk)\<rparr>"
  have ok: "stack_ok ?st F"
    by (rule stack_ok_upd [OF st(1), of _ fresh_sock]) (use st in \<open>simp_all add: sock_ok_def gave_up_def hashed_def bound_def\<close>)
  have m: "mallocs ?st = [(45056, \<lambda>_. 0)]" using st(4) by (simp add: sample_mallocs_def upt_rec HEAP_BASE_def)
  have "is_tcp_seq_valid ?sk (cb_of 2 1 4 80 0 7 TCP_URG 9 0)"
    by (simp add: is_tcp_seq_valid_def cb_of_def less_than_32b_def less_or_equal_32b_def flag_defs fresh_sock_def
        TCP_DEFAULT_WINDOW_def)
  moreover have "cb_flags (cb_of 2 1 4 80 0 7 TCP_URG 9 0) \<notin> {TCP_RST, TCP_FIN}" "sw_dead (wait_connect ?sk) = 0"
    by (simp_all add: cb_of_def flag_defs fresh_sock_def alloc_wait_struct_def wait_init_def)
  ultimately obtain st' sk' where "tcp_process sample_ip_init ?st 20480 (cb_of 2 1 4 80 0 7 TCP_URG 9 0) = Inr st'"
    "socks st' = (socks ?st)(20480 \<mapsto> sk')" "sk_state sk' = TCP_ESTABLISHED"
    using syn_sent_accepts_any_segment [OF sample_ip_init_ok ok, of 20480 ?sk "cb_of 2 1 4 80 0 7 TCP_URG 9 0", OF _ _ _ _ m]
    by auto
  then show ?thesis by (intro exI [of _ ?st] exI [of _ st'] exI [of _ sk']) simp
qed

text \<open>
  C17: The third segment of the handshake hands the connection to the acceptor. Let the socket in
  \<^verbatim>\<open>TCP_SYN_RECV\<close> wait in a \<^verbatim>\<open>listen_queue\<close>, at any place, as the code that makes such
  sockets intends. An ACK in its window takes the socket out of that queue and appends it to its
  parent's accept queue, all other lists stay as they are, the socket becomes
  \<^verbatim>\<open>TCP_ESTABLISHED\<close>, the parent counts one more waiting connection and its
  \<^verbatim>\<open>wait_accept\<close> is notified. The limit given to \<^verbatim>\<open>tcp_sock_listen\<close> plays no part.
\<close>

theorem syn_recv_ack_enqueues:
  assumes "family dll (nodes st) F" and "F (p + OFF_accept_queue) = Some qs"
    and "F (g + OFF_listen_queue) = Some (xs @ (c + OFF_list) # ys)"
    and "g + OFF_listen_queue \<noteq> p + OFF_accept_queue" and "c \<noteq> p"
    and "socks st c = Some csk" and "sk_parent csk = p" and "sk_state csk = TCP_SYN_RECV" and "socks st p = Some psk"
    and "is_tcp_seq_valid csk cb" and "cb_flags cb = TCP_ACK" and "sw_dead (wait_accept psk) = 0"
  shows "\<exists>h w. tcp_process f st c cb = Inr (st\<lparr>nodes := h, socks := (socks st)
      (p \<mapsto> psk\<lparr>accept_backlog := accept_backlog psk + 1, wait_accept := w\<rparr>, c \<mapsto> csk\<lparr>sk_state := TCP_ESTABLISHED\<rparr>)\<rparr>) \<and>
    family dll h (F(g + OFF_listen_queue \<mapsto> xs @ ys, p + OFF_accept_queue \<mapsto> qs @ [c + OFF_list])) \<and> sw_notified w \<noteq> 0"
proof -
  obtain h where h: "tcp_sock_accept_enqueue st c = Inr (st\<lparr>nodes := h,
      socks := (socks st)(p \<mapsto> psk\<lparr>accept_backlog := accept_backlog psk + 1\<rparr>)\<rparr>)"
    "family dll h (F(g + OFF_listen_queue \<mapsto> xs @ ys, p + OFF_accept_queue \<mapsto> qs @ [c + OFF_list]))"
    using tcp_sock_accept_enqueue_moves [OF assms(1-4,6,7,9)] by blast
  let ?w = "fst (snd (wake_up (wait_accept psk)))"
  have "tcp_process f st c cb = Inr (st\<lparr>nodes := h, socks := (socks st)
      (p \<mapsto> psk\<lparr>accept_backlog := accept_backlog psk + 1, wait_accept := ?w\<rparr>, c \<mapsto> csk\<lparr>sk_state := TCP_ESTABLISHED\<rparr>)\<rparr>)"
    using assms(5-11) h(1)
    by (simp add: tcp_process_def tcp_set_state_def wake_up_sock_def set_wait_accept_def flag_defs fun_upd_twist)
  moreover have "sw_notified ?w \<noteq> 0" using assms(12) by (simp add: wake_up_def Let_def)
  ultimately show ?thesis using h(2) by blast
qed

text \<open>The child at 3000 waits behind another one in the \<^verbatim>\<open>listen_queue\<close> of its parent at 1000.\<close>

theorem syn_recv_ack_enqueues_witness:
  "\<exists>st'. tcp_process sample_ip_init \<lparr>nodes = [1080 \<mapsto> \<lparr>nxt = 1080, prv = 1080\<rparr>, 1064 \<mapsto> \<lparr>nxt = 2104, prv = 3104\<rparr>,
        2104 \<mapsto> \<lparr>nxt = 3104, prv = 1064\<rparr>, 3104 \<mapsto> \<lparr>nxt = 1064, prv = 2104\<rparr>],
      socks = [1000 \<mapsto> fresh_sock, 3000 \<mapsto> fresh_sock\<lparr>sk_parent := 1000, sk_state := TCP_SYN_RECV\<rparr>],
      mallocs = [], sent = []\<rparr> 3000 (cb_of 1 2 3 4 0 0 TCP_ACK 0 0) = Inr st' \<and>
     dll (nodes st') 1064 [2104] \<and> dll (nodes st') 1080 [3104]"
proof -
  let ?h = "[1080 \<mapsto> \<lparr>nxt = 1080, prv = 1080\<rparr>, 1064 \<mapsto> \<lparr>nxt = 2104, prv = 3104\<rparr>,
        2104 \<mapsto> \<lparr>nxt = 3104, prv = 1064\<rparr>, 3104 \<mapsto> \<lparr>nxt = 1064, prv = 2104\<rparr>] :: node_heap"
  let ?csk = "fresh_sock\<lparr>sk_parent := 1000, sk_state := TCP_SYN_RECV\<rparr>"
  let ?st = "\<lparr>nodes = ?h, socks = [1000 \<mapsto> fresh_sock, 3000 \<mapsto> ?csk], mallocs = [], sent = []\<rparr>"
  let ?cb = "cb_of 1 2 3 4 0 0 TCP_ACK 0 0" and ?F = "[1080 \<mapsto> [], 1064 \<mapsto> [2104, 3104]] :: addr \<Rightarrow> addr list option"
  have fam: "family dll ?h ?F"
    by (auto simp: family_def dll_def edge_def nx_def pv_def split: if_splits)
  have seq: "is_tcp_seq_valid ?csk ?cb"
    by (simp add: is_tcp_seq_valid_def cb_of_def less_than_32b_def less_or_equal_32b_def flag_defs fresh_sock_def
        TCP_DEFAULT_WINDOW_def)
  obtain h w where h: "tcp_process sample_ip_init ?st 3000 ?cb = Inr (?st\<lparr>nodes := h, socks := (socks ?st)
      (1000 \<mapsto> fresh_sock\<lparr>accept_backlog := accept_backlog fresh_sock + 1, wait_accept := w\<rparr>,
       3000 \<mapsto> ?csk\<lparr>sk_state := TCP_ESTABLISHED\<rparr>)\<rparr>)"
    "family dll h (?F(1000 + OFF_listen_queue \<mapsto> [2104] @ [], 1000 + OFF_accept_queue \<mapsto> [] @ [3000 + OFF_list]))"
    using syn_recv_ack_enqueues [of ?st ?F 1000 "[]" 1000 "[2104]" 3000 "[]" ?csk fresh_sock ?cb sample_ip_init] fam seq
    by (auto simp: offsets cb_of_def fresh_sock_def alloc_wait_struct_def wait_init_def)
  have "dll h 1080 [3104]" "dll h 1064 [2104]"
    using lists.family_list [OF h(2), of 1080 "[3104]"] lists.family_list [OF h(2), of 1064 "[2104]"] by (simp_all add: offsets)
  with h(1) show ?thesis by simp
qed

text \<open>
  No data is ever received. From \<^verbatim>\<open>TCP_ESTABLISHED\<close> on, a segment whose flags are not
  exactly RST or FIN changes nothing at all: its payload does not reach the receive buffer,
  nothing is acknowledged, the send window is not updated, and a segment with FIN and ACK does
  not close the connection.
\<close>

theorem established_ignores_segments:
  assumes "socks st p = Some sk" and "sk_state sk \<notin> {TCP_CLOSED, TCP_LISTEN, TCP_SYN_RECV, TCP_SYN_SENT}"
    and "cb_flags cb \<notin> {TCP_RST, TCP_FIN}"
  shows "tcp_process f st p cb = Inr st"
  using assms by (simp add: tcp_process_def Let_def)

theorem established_ignores_segments_witness:
  "tcp_process sample_ip_init ((boot [])\<lparr>socks := [20480 \<mapsto> fresh_sock\<lparr>sk_state := TCP_ESTABLISHED\<rparr>]\<rparr>) 20480
     (cb_of 1 2 3 4 0 0 (TCP_FIN OR TCP_ACK) 0 0) =
   Inr ((boot [])\<lparr>socks := [20480 \<mapsto> fresh_sock\<lparr>sk_state := TCP_ESTABLISHED\<rparr>]\<rparr>)"
  by (rule established_ignores_segments [of _ _ "fresh_sock\<lparr>sk_state := TCP_ESTABLISHED\<rparr>"])
    (simp_all add: cb_of_def flag_defs)

text \<open>
  C27: \<^verbatim>\<open>tcp_update_window_safe\<close> for every acknowledgement number. Let \<open>n < 2 ^ 31\<close> be
  the number of bytes in flight, from \<^verbatim>\<open>snd_una\<close> to \<^verbatim>\<open>snd_nxt\<close>. The advertised window is
  taken over exactly if the acknowledgement is at most \<open>n\<close> above \<^verbatim>\<open>snd_una\<close>, modulo
  \<open>2 ^ 32\<close>, or if nothing is in flight and it is exactly \<open>2 ^ 31\<close> away; otherwise nothing
  changes. A waiting sender is notified if the old window was zero modulo 65536: a window of
  65536 bytes counts as closed.
\<close>

theorem tcp_update_window_safe_exact:
  assumes "socks st p = Some sk" and "snd_nxt sk = snd_una sk + word_of_nat n" and "n < 2 ^ 31"
  shows "tcp_update_window_safe st p cb =
    Inr (if unat (cb_ack cb - snd_una sk) \<le> n \<or> n = 0 \<and> unat (cb_ack cb - snd_una sk) = 2 ^ 31
         then st\<lparr>socks := (socks st)(p \<mapsto> sk\<lparr>snd_wnd := cb_rwnd cb,
           wait_send := (if unat (snd_wnd sk) mod 65536 = 0 then fst (snd (wake_up (wait_send sk))) else wait_send sk)\<rparr>)\<rparr>
         else st)"
proof -
  let ?i = "cb_ack cb - snd_una sk"
  have n: "unat (word_of_nat n :: u32) = n" using assms(3) by (simp add: unsigned_of_nat take_bit_nat_eq_self)
  have "snd_nxt sk - cb_ack cb = word_of_nat n - ?i" using assms(2) by simp
  then have ack: "less_or_equal_32b (snd_una sk) (cb_ack cb) \<and> less_or_equal_32b (cb_ack cb) (snd_nxt sk) \<longleftrightarrow>
      unat ?i \<le> n \<or> n = 0 \<and> unat ?i = 2 ^ 31"
    using flight_window [OF assms(3) n, of ?i] by (simp only: less_or_equal_32b_offset)
  have "unat (ucast (snd_wnd sk) :: u16) = unat (snd_wnd sk) mod 65536"
    by (simp only: unsigned_ucast_eq) (simp add: take_bit_eq_mod)
  then have "(ucast (snd_wnd sk) = (0 :: u16)) \<longleftrightarrow> unat (snd_wnd sk) mod 65536 = 0"
    by (metis unsigned_0 unsigned_word_eqI)
  with ack assms(1) show ?thesis
    by (simp add: tcp_update_window_safe_def tcp_update_window_def wake_up_sock_def set_wait_send_def Let_def)
qed

theorem tcp_update_window_safe_exact_witness:
  "tcp_update_window_safe ((boot [])\<lparr>socks := [8 \<mapsto> fresh_sock\<lparr>snd_nxt := 5, snd_wnd := 65536\<rparr>]\<rparr>) 8 (cb_of 1 2 3 4 0 3 TCP_ACK 77 0) =
   Inr ((boot [])\<lparr>socks := [8 \<mapsto> fresh_sock\<lparr>snd_nxt := 5, snd_wnd := 77, wait_send := \<lparr>sw_notified = 1, sw_dead = 0, sw_sleep = 0\<rparr>\<rparr>]\<rparr>)"
  using tcp_update_window_safe_exact [of "(boot [])\<lparr>socks := [8 \<mapsto> fresh_sock\<lparr>snd_nxt := 5, snd_wnd := 65536\<rparr>]\<rparr>" 8
      "fresh_sock\<lparr>snd_nxt := 5, snd_wnd := 65536\<rparr>" 5 "cb_of 1 2 3 4 0 3 TCP_ACK 77 0"]
  by (simp add: cb_of_def fresh_sock_def alloc_wait_struct_def wait_init_def wake_up_def)

end
