(* ===== verification/Interfaces.thy ===== *)
theory Interfaces
  imports Tcp_In
begin

text \<open>
  The interfaces of \<^verbatim>\<open>include/base.h\<close>, the way a frame takes from an interface to the
  TCP code (\<^verbatim>\<open>fd_to_iface\<close>, \<^verbatim>\<open>handle_packet\<close> and \<^verbatim>\<open>ustack_run\<close> of
  \<^verbatim>\<open>main.c\<close>, \<^verbatim>\<open>handle_ip_packet\<close> of \<^verbatim>\<open>ip.c\<close>), and the set-up of the
  interfaces (\<^verbatim>\<open>open_device\<close>, \<^verbatim>\<open>read_iface_info\<close>,
  \<^verbatim>\<open>find_available_ifaces\<close>, \<^verbatim>\<open>init_all_ifaces\<close>).

  \<^verbatim>\<open>icmp_send_packet\<close> and \<^verbatim>\<open>handle_arp_packet\<close> belong to the prebuilt library and
  are parameters: what they do to the stack and, for the second, to the packet is theirs.
  The answers of the kernel are inputs: the interfaces \<^verbatim>\<open>getifaddrs\<close> reports, the
  results of the system calls on a device, and what each \<^verbatim>\<open>poll\<close> and
  \<^verbatim>\<open>recvfrom\<close> delivers.
\<close>

section \<open>Data\<close>

record iface_info =
  if_fd :: int
  if_index :: int
  if_mac :: "u8 list"
  if_ip :: u32
  if_mask :: u32
  if_name :: string
  if_ip_str :: string

text \<open>
  The memory of the program: the TCP stack, the interfaces by address (their list node is at
  offset zero), the members of the \<^verbatim>\<open>ustack_t\<close> at \<open>instance\<close>, whose first member is the
  head of the interface list, and the number of packets that were received and not freed.
\<close>

record machine =
  stk :: stack
  ifaces :: "addr \<Rightarrow> iface_info option"
  the_instance :: addr
  nifs :: int
  fds :: "int list"
  leaked :: nat

definition rd_iface :: "machine \<Rightarrow> addr \<Rightarrow> iface_info res" where
  "rd_iface m p = (case ifaces m p of None \<Rightarrow> Inl Wild_Pointer | Some i \<Rightarrow> Inr i)"

section \<open>Receiving\<close>

definition fd_to_iface :: "machine \<Rightarrow> int \<Rightarrow> addr res" where
  "fd_to_iface m fd =
     rbind (list_find (nodes (stk m)) (the_instance m) (\<lambda>n.
       rbind (rd_iface m (list_entry n 0)) (\<lambda>iface. Inr (if_fd iface = fd))))
     (\<lambda>r. Inr (case r of None \<Rightarrow> 0 | Some n \<Rightarrow> list_entry n 0))"

definition ICMP_ECHOREQUEST :: u8 where "ICMP_ECHOREQUEST = 8"
definition ICMP_ECHOREPLY :: u8 where "ICMP_ECHOREPLY = 0"
definition ETH_P_IP :: u16 where "ETH_P_IP = 0x0800"
definition ETH_P_ARP :: u16 where "ETH_P_ARP = 0x0806"
definition ETH_FRAME_LEN :: nat where "ETH_FRAME_LEN = 1514"

type_synonym icmp_send = "stack \<Rightarrow> u8 list \<Rightarrow> int \<Rightarrow> u8 \<Rightarrow> u8 \<Rightarrow> stack"
type_synonym arp_input = "machine \<Rightarrow> addr \<Rightarrow> u8 list \<Rightarrow> int \<Rightarrow> machine res"

text \<open>\<^verbatim>\<open>free (packet)\<close> is only reached for packets addressed to the interface.\<close>

definition handle_ip_packet ::
  "ip_init \<Rightarrow> icmp_send \<Rightarrow> machine \<Rightarrow> addr \<Rightarrow> u8 list \<Rightarrow> int \<Rightarrow> machine res" where
  "handle_ip_packet ip_init_hdr icmp_send_packet m iface packet len =
     (let ip = packet_to_ip_hdr in
      rbind (rd32 packet (ip + 16)) (\<lambda>daddr.
      rbind (rd_iface m iface) (\<lambda>i.
      if ntohl daddr = if_ip i then
        rbind (rd8 packet (ip + 9)) (\<lambda>protocol.
        if protocol = IPPROTO_ICMP then
          rbind (IP_DATA packet ip) (\<lambda>icmp.
          rbind (rd8 packet icmp) (\<lambda>type.
          if type = ICMP_ECHOREQUEST
          then Inr (m\<lparr>stk := icmp_send_packet (stk m) packet len ICMP_ECHOREPLY 0\<rparr>)
          else Inr m))
        else if protocol = IPPROTO_TCP then
          rbind (IP_DATA packet ip) (\<lambda>tcp.
          rbind (handle_tcp_packet ip_init_hdr (stk m) packet ip tcp) (\<lambda>st. Inr (m\<lparr>stk := st\<rparr>)))
        else Inr m)
      else Inr (m\<lparr>leaked := leaked m + 1\<rparr>))))"

definition handle_packet ::
  "ip_init \<Rightarrow> icmp_send \<Rightarrow> arp_input \<Rightarrow> machine \<Rightarrow> addr \<Rightarrow> u8 list \<Rightarrow> int \<Rightarrow> machine res" where
  "handle_packet ip_init_hdr icmp_send_packet handle_arp_packet m iface packet len =
     rbind (rd16 packet 12) (\<lambda>ether_type.
     if ntohs ether_type = ETH_P_IP then handle_ip_packet ip_init_hdr icmp_send_packet m iface packet len
     else if ntohs ether_type = ETH_P_ARP then handle_arp_packet m iface packet len
     else Inr (m\<lparr>leaked := leaked m + 1\<rparr>))"

text \<open>What \<^verbatim>\<open>poll\<close> and then \<^verbatim>\<open>recvfrom\<close> report for one descriptor.\<close>

datatype rx = Not_Ready | Rx_Error | Outgoing "u8 list" | Incoming "u8 list"

datatype poll_result = Poll_Failed | Poll_Timeout | Poll_Ready "rx list"

text \<open>The body of the \<^verbatim>\<open>for\<close> loop of \<^verbatim>\<open>ustack_run\<close> for one descriptor.\<close>

definition receive_on ::
  "ip_init \<Rightarrow> icmp_send \<Rightarrow> arp_input \<Rightarrow> machine \<Rightarrow> int \<Rightarrow> rx \<Rightarrow> machine res" where
  "receive_on ip_init_hdr icmp_send_packet handle_arp_packet m fd r =
     (case r of
        Incoming frame \<Rightarrow>
          let buf = take ETH_FRAME_LEN frame in
          if buf = [] then Inr m
          else
            rbind (fd_to_iface m fd) (\<lambda>iface.
            case malloc (stk m) of (p, junk, st) \<Rightarrow>
              let m = m\<lparr>stk := st\<rparr> in
              if p = 0 then Inr m
              else handle_packet ip_init_hdr icmp_send_packet handle_arp_packet m iface buf (int (length buf)))
      | _ \<Rightarrow> Inr m)"

fun receive_all ::
  "ip_init \<Rightarrow> icmp_send \<Rightarrow> arp_input \<Rightarrow> machine \<Rightarrow> int list \<Rightarrow> rx list \<Rightarrow> machine res" where
  "receive_all f g a m (fd # ds) (r # rs) = rbind (receive_on f g a m fd r) (\<lambda>m. receive_all f g a m ds rs)"
| "receive_all f g a m _ _ = Inr m"

text \<open>The loop of \<^verbatim>\<open>ustack_run\<close>, for the results of the coming \<^verbatim>\<open>poll\<close> calls; a
  failing one ends it.\<close>

fun ustack_run :: "ip_init \<Rightarrow> icmp_send \<Rightarrow> arp_input \<Rightarrow> machine \<Rightarrow> poll_result list \<Rightarrow> machine res" where
  "ustack_run f g a m [] = Inr m"
| "ustack_run f g a m (Poll_Failed # ps) = Inr m"
| "ustack_run f g a m (Poll_Timeout # ps) = ustack_run f g a m ps"
| "ustack_run f g a m (Poll_Ready rs # ps) =
     rbind (receive_all f g a m (fds m) rs) (\<lambda>m. ustack_run f g a m ps)"

lemma receive_all_one:
  "i < length ds \<Longrightarrow> receive_all f g a m ds (replicate i Not_Ready @ [r]) = receive_on f g a m (ds ! i) r"
proof (induction i arbitrary: ds)
  case 0
  then show ?case by (cases ds; cases "receive_on f g a m (hd ds) r") auto
next
  case (Suc i)
  then obtain d es where "ds = d # es" "i < length es" by (cases ds) auto
  with Suc.IH show ?case by (simp add: receive_on_def)
qed

section \<open>Setting up\<close>

text \<open>\<^verbatim>\<open>strcpy\<close> into an array of 16 characters.\<close>

definition strcpy16 :: "string \<Rightarrow> string res" where
  "strcpy16 s = (if length s < 16 then Inr s else Inl Out_Of_Bounds)"

text \<open>The answers of the kernel for a device; the last two depend on the descriptor.\<close>

record device =
  os_socket :: int
  os_find_index :: "int option"
  os_bind :: bool
  os_hwaddr :: "u8 list option"
  os_addr :: "int \<Rightarrow> u32 option"
  os_mask :: "int \<Rightarrow> u32 option"

definition open_device :: "device \<Rightarrow> string \<Rightarrow> int res" where
  "open_device dev dname =
     (let sd = os_socket dev in
      if sd < 0 then Inr (- 1)
      else rbind (strcpy16 dname) (\<lambda>_.
        if os_find_index dev = None then Inr (- 1)
        else if \<not> os_bind dev then Inr (- 1)
        else if os_hwaddr dev = None then Inr (- 1)
        else Inr sd))"

fun decimal :: "nat \<Rightarrow> string" where
  "decimal n = (if n < 10 then [char_of (48 + n)] else decimal (n div 10) @ [char_of (48 + n mod 10)])"

declare decimal.simps [simp del]

definition inet_ntoa :: "u32 \<Rightarrow> string" where
  "inet_ntoa ip = decimal (unat (byte32 0 ip)) @ ''.'' @ decimal (unat (byte32 1 ip)) @ ''.'' @
     decimal (unat (byte32 2 ip)) @ ''.'' @ decimal (unat (byte32 3 ip))"

text \<open>
  The results of the first two \<^verbatim>\<open>ioctl\<close> calls are not tested: when one fails, the request
  still holds what was there before. \<open>junk\<close> are the bytes of the uninitialised union of
  \<^verbatim>\<open>struct ifreq\<close>; a successful first call stores the index in the first four of them, and the
  hardware address is the six bytes behind the two of \<^verbatim>\<open>sa_family\<close>.
\<close>

definition read_iface_info :: "device \<Rightarrow> (nat \<Rightarrow> u8) \<Rightarrow> iface_info \<Rightarrow> (int \<times> iface_info) res" where
  "read_iface_info dev junk iface =
     rbind (open_device dev (if_name iface)) (\<lambda>fd.
     rbind (strcpy16 (if_name iface)) (\<lambda>_.
     let index = (case os_find_index dev of None \<Rightarrow> sint (le32 (junk 0) (junk 1) (junk 2) (junk 3)) | Some i \<Rightarrow> i);
         ifr = (\<lambda>k. if k < 4 then byte32 k (word_of_int index) else junk k);
         mac = (case os_hwaddr dev of None \<Rightarrow> map ifr [2..<8] | Some a \<Rightarrow> take 6 a) in
     case os_addr dev fd of
       None \<Rightarrow> Inl (Exit 1)
     | Some ip \<Rightarrow>
         rbind (strcpy16 (inet_ntoa ip)) (\<lambda>ip_str.
         case os_mask dev fd of
           None \<Rightarrow> Inl (Exit 1)
         | Some netmask \<Rightarrow>
             Inr (fd, iface\<lparr>if_fd := fd, if_index := index, if_mac := mac, if_ip := ntohl ip,
                        if_mask := ntohl netmask, if_ip_str := ip_str\<rparr>))))"

fun is_prefix :: "string \<Rightarrow> string \<Rightarrow> bool" where
  "is_prefix [] ys = True"
| "is_prefix (x # xs) (y # ys) \<longleftrightarrow> x = y \<and> is_prefix xs ys"
| "is_prefix (x # xs) [] = False"

fun strstr :: "string \<Rightarrow> string \<Rightarrow> bool" where
  "strstr [] needle = is_prefix needle []"
| "strstr (x # xs) needle \<longleftrightarrow> is_prefix needle (x # xs) \<or> strstr xs needle"

definition blank_iface :: iface_info where
  "blank_iface = \<lparr>if_fd = 0, if_index = 0, if_mac = replicate 6 0, if_ip = 0, if_mask = 0, if_name = [], if_ip_str = []\<rparr>"

text \<open>
  One entry of \<^verbatim>\<open>getifaddrs\<close>: its name and whether it has an address of the family
  \<^verbatim>\<open>AF_PACKET\<close>. A matching one gets a fresh structure at the end of the list.
\<close>

definition usable_iface :: "string \<times> bool \<Rightarrow> bool" where
  "usable_iface e \<longleftrightarrow> snd e \<and> strstr (fst e) ''-eth''"

definition add_iface :: "machine \<Rightarrow> string \<Rightarrow> machine res" where
  "add_iface m name =
     (case malloc (stk m) of (p, junk, st) \<Rightarrow>
      if p = 0 then Inl Wild_Pointer
      else
        let st = st\<lparr>nodes := (nodes st)(p \<mapsto> \<lparr>nxt = 0, prv = 0\<rparr>)\<rparr> in
        rbind (on_nodes st (\<lambda>h. init_list_head h p)) (\<lambda>st.
        rbind (strcpy16 name) (\<lambda>name.
        rbind (on_nodes st (\<lambda>h. list_add_tail h p (the_instance m))) (\<lambda>st.
        Inr (m\<lparr>stk := st, ifaces := (ifaces m)(p \<mapsto> blank_iface\<lparr>if_name := name\<rparr>), nifs := nifs m + 1\<rparr>)))))"

fun add_ifaces :: "machine \<Rightarrow> (string \<times> bool) list \<Rightarrow> machine res" where
  "add_ifaces m [] = Inr m"
| "add_ifaces m (e # es) =
     (if usable_iface e then rbind (add_iface m (fst e)) (\<lambda>m. add_ifaces m es) else add_ifaces m es)"

text \<open>The text collected for the log message has room for 1024 characters.\<close>

definition names_fit :: "(string \<times> bool) list \<Rightarrow> bool" where
  "names_fit es \<longleftrightarrow> sum_list (map (\<lambda>e. 1 + length (fst e)) (filter usable_iface es)) < 1024"

definition find_available_ifaces :: "machine \<Rightarrow> (string \<times> bool) list \<Rightarrow> machine res" where
  "find_available_ifaces m addrs =
     rbind (on_nodes (stk m) (\<lambda>h. init_list_head h (the_instance m))) (\<lambda>st.
     rbind (add_ifaces (m\<lparr>stk := st\<rparr>) addrs) (\<lambda>m.
     if nifs m = 0 then Inl (Exit 1)
     else if \<not> names_fit addrs then Inl Out_Of_Bounds
     else Inr m))"

text \<open>The loop of \<^verbatim>\<open>init_all_ifaces\<close> from the list node \<open>n\<close>; \<open>got\<close> are the descriptors so far.\<close>

partial_function (option) read_ifaces ::
  "(string \<Rightarrow> device) \<Rightarrow> (nat \<Rightarrow> u8) \<Rightarrow> machine \<Rightarrow> int list \<Rightarrow> addr \<Rightarrow> machine res option" where
  "read_ifaces devs junk m got n =
     (if n = the_instance m then Some (Inr (m\<lparr>fds := got\<rparr>))
      else case rd_iface m (list_entry n 0) of
        Inl e \<Rightarrow> Some (Inl e)
      | Inr iface \<Rightarrow>
          (case read_iface_info (devs (if_name iface)) junk iface of
             Inl e \<Rightarrow> Some (Inl e)
           | Inr r \<Rightarrow>
               if int (length got) \<ge> nifs m then Some (Inl Out_Of_Bounds)
               else (case rd_node (nodes (stk m)) n of
                  Inl e \<Rightarrow> Some (Inl e)
                | Inr nd \<Rightarrow>
                    read_ifaces devs junk (m\<lparr>ifaces := (ifaces m)(list_entry n 0 \<mapsto> snd r)\<rparr>)
                      (got @ [fst r]) (nxt nd))))"

definition init_all_ifaces ::
  "(string \<Rightarrow> device) \<Rightarrow> (nat \<Rightarrow> u8) \<Rightarrow> machine \<Rightarrow> (string \<times> bool) list \<Rightarrow> machine res" where
  "init_all_ifaces devs junk m addrs =
     rbind (find_available_ifaces m addrs) (\<lambda>m.
     case malloc (stk m) of (p, _, st) \<Rightarrow>
       let m = m\<lparr>stk := st\<rparr> in
       if p = 0 then Inl Wild_Pointer
       else rbind (rd_node (nodes st) (the_instance m)) (\<lambda>h. of_loop (read_ifaces devs junk m [] (nxt h))))"

section \<open>The list of interfaces\<close>

text \<open>
  What \<^verbatim>\<open>malloc\<close> is to deliver for \<open>n\<close> interfaces: \<open>n\<close> different blocks that are no
  live nodes.
\<close>

definition blocks_ready :: "machine \<Rightarrow> addr list \<Rightarrow> bool" where
  "blocks_ready m ps \<longleftrightarrow> map fst (take (length ps) (mallocs (stk m))) = ps \<and> distinct ps \<and>
     set ps \<inter> insert 0 (dom (nodes (stk m))) = {}"

lemma add_iface_ok:
  assumes d: "dll (nodes (stk m)) (the_instance m) ns" and b: "blocks_ready m (p # ps)" and name: "length name < 16"
  shows "\<exists>st. add_iface m name = Inr (m\<lparr>stk := st, ifaces := (ifaces m)(p \<mapsto> blank_iface\<lparr>if_name := name\<rparr>), nifs := nifs m + 1\<rparr>) \<and>
    dll (nodes st) (the_instance m) (ns @ [p]) \<and> dom (nodes st) = insert p (dom (nodes (stk m))) \<and>
    mallocs st = tl (mallocs (stk m)) \<and> socks st = socks (stk m) \<and> sent st = sent (stk m)"
proof -
  obtain junk ms where m: "mallocs (stk m) = (p, junk) # ms"
    using b by (cases "mallocs (stk m)") (auto simp: blocks_ready_def)
  have p: "p \<noteq> 0" "p \<notin> dom (nodes (stk m))" using b by (auto simp: blocks_ready_def)
  have out: "p \<notin> set (the_instance m # ns)" using dll_in_dom [OF d] p(2) by blast
  let ?h = "(nodes (stk m))(p \<mapsto> \<lparr>nxt = 0, prv = 0\<rparr>)"
  obtain h1 where h1: "init_list_head ?h p = Inr h1" "same_outside {p} ?h h1"
    using init_list_head_dll [of ?h p] by auto
  have "dll h1 (the_instance m) ns"
  proof -
    have "dll h1 (the_instance m) ns = dll (nodes (stk m)) (the_instance m) ns"
      using h1(2) out by (intro dll_frame) (auto simp: same_outside_def)
    with d show ?thesis by simp
  qed
  moreover have "p \<in> dom h1" using h1(2) by (simp add: same_outside_def)
  ultimately obtain h2 where h2: "list_add_tail h1 p (the_instance m) = Inr h2" "dll h2 (the_instance m) (ns @ [p])"
    "dom h2 = dom h1"
    using lists.add_tail_law [of h1 "the_instance m" ns p] out by (auto simp: same_outside_def)
  have dom1: "dom h1 = insert p (dom (nodes (stk m)))" using h1(2) by (simp add: same_outside_def)
  let ?st = "(stk m)\<lparr>mallocs := ms, nodes := h2\<rparr>"
  have "add_iface m name = Inr (m\<lparr>stk := ?st, ifaces := (ifaces m)(p \<mapsto> blank_iface\<lparr>if_name := name\<rparr>), nifs := nifs m + 1\<rparr>)"
    using m p(1) h1(1) h2(1) name by (simp add: add_iface_def malloc_def on_nodes_def strcpy16_def)
  with m h2 dom1 show ?thesis by (intro exI [of _ ?st]) simp
qed

lemma add_ifaces_ok:
  assumes "dll (nodes (stk m)) (the_instance m) ns" and "blocks_ready m ps"
    and "length ps = length (filter usable_iface es)" and "\<forall>e\<in>set es. length (fst e) < 16"
  shows "\<exists>m'. add_ifaces m es = Inr m' \<and> the_instance m' = the_instance m \<and>
    dll (nodes (stk m')) (the_instance m) (ns @ ps) \<and> nifs m' = nifs m + int (length ps) \<and>
    (\<forall>q. q \<notin> set ps \<longrightarrow> ifaces m' q = ifaces m q) \<and>
    map (\<lambda>p. map_option if_name (ifaces m' p)) ps = map (Some \<circ> fst) (filter usable_iface es) \<and>
    dom (nodes (stk m')) = set ps \<union> dom (nodes (stk m)) \<and> socks (stk m') = socks (stk m) \<and> sent (stk m') = sent (stk m) \<and>
    mallocs (stk m') = drop (length ps) (mallocs (stk m))"
  using assms
proof (induction es arbitrary: m ns ps)
  case Nil
  then show ?case by simp
next
  case (Cons e es)
  show ?case
  proof (cases "usable_iface e")
    case False
    with Cons show ?thesis by simp
  next
    case True
    then obtain p qs where ps: "ps = p # qs" "length qs = length (filter usable_iface es)"
      using Cons.prems(3) by (cases ps) auto
    have b: "blocks_ready m (p # qs)" using Cons.prems(2) ps(1) by simp
    obtain st where st: "add_iface m (fst e) = Inr (m\<lparr>stk := st,
        ifaces := (ifaces m)(p \<mapsto> blank_iface\<lparr>if_name := fst e\<rparr>), nifs := nifs m + 1\<rparr>)"
      "dll (nodes st) (the_instance m) (ns @ [p])" "dom (nodes st) = insert p (dom (nodes (stk m)))"
      "mallocs st = tl (mallocs (stk m))" "socks st = socks (stk m) \<and> sent st = sent (stk m)"
      using add_iface_ok [OF Cons.prems(1) b, of "fst e"] Cons.prems(4) by auto
    let ?m = "m\<lparr>stk := st, ifaces := (ifaces m)(p \<mapsto> blank_iface\<lparr>if_name := fst e\<rparr>), nifs := nifs m + 1\<rparr>"
    have "blocks_ready ?m qs"
      using b st(3,4) by (cases "mallocs (stk m)") (auto simp: blocks_ready_def)
    with Cons.IH [of ?m "ns @ [p]" qs] st(2) ps(2) Cons.prems(4) obtain m' where
      m': "add_ifaces ?m es = Inr m'" "the_instance m' = the_instance m"
        "dll (nodes (stk m')) (the_instance m) ((ns @ [p]) @ qs)" "nifs m' = nifs m + 1 + int (length qs)"
        "\<forall>q. q \<notin> set qs \<longrightarrow> ifaces m' q = ((ifaces m)(p \<mapsto> blank_iface\<lparr>if_name := fst e\<rparr>)) q"
        "map (\<lambda>p. map_option if_name (ifaces m' p)) qs = map (Some \<circ> fst) (filter usable_iface es)"
        "dom (nodes (stk m')) = set qs \<union> dom (nodes st)" "socks (stk m') = socks st \<and> sent (stk m') = sent st"
        "mallocs (stk m') = drop (length qs) (mallocs st)"
      by auto
    have "p \<notin> set qs" using b by (simp add: blocks_ready_def)
    with m' st True ps(1) show ?thesis by (auto simp: drop_Suc)
  qed
qed

section \<open>Opening the interfaces\<close>

lemma decimal_length:
  "n < 10 \<Longrightarrow> length (decimal n) = 1" "n < 100 \<Longrightarrow> length (decimal n) \<le> 2" "n < 1000 \<Longrightarrow> length (decimal n) \<le> 3"
proof -
  show 1: "n < 10 \<Longrightarrow> length (decimal n) = 1" for n by (simp add: decimal.simps)
  show 2: "n < 100 \<Longrightarrow> length (decimal n) \<le> 2" for n
    using 1 [of "n div 10"] by (subst decimal.simps) auto
  show "n < 1000 \<Longrightarrow> length (decimal n) \<le> 3" for n
    using 2 [of "n div 10"] by (subst decimal.simps) auto
qed

text \<open>The dotted form of an address fits the 16 characters of \<^verbatim>\<open>ip_str\<close>.\<close>

lemma inet_ntoa_fits: "length (inet_ntoa ip) < 16"
proof -
  have "length (decimal (unat b)) \<le> 3" for b :: u8
    using decimal_length(3) [of "unat b"] unsigned_less [of b, where ?'a = nat] by simp
  from this [of "byte32 0 ip"] this [of "byte32 1 ip"] this [of "byte32 2 ip"] this [of "byte32 3 ip"]
  show ?thesis by (simp add: inet_ntoa_def)
qed

text \<open>A device on which every system call succeeds, and what \<^verbatim>\<open>read_iface_info\<close> stores then.\<close>

definition device_up :: "device \<Rightarrow> bool" where
  "device_up dev \<longleftrightarrow> os_socket dev \<ge> 0 \<and> os_find_index dev \<noteq> None \<and> os_bind dev \<and> os_hwaddr dev \<noteq> None \<and>
     os_addr dev (os_socket dev) \<noteq> None \<and> os_mask dev (os_socket dev) \<noteq> None"

definition opened_iface :: "device \<Rightarrow> string \<Rightarrow> iface_info" where
  "opened_iface dev name =
     (let ip = the (os_addr dev (os_socket dev)) in
      \<lparr>if_fd = os_socket dev, if_index = the (os_find_index dev), if_mac = take 6 (the (os_hwaddr dev)), if_ip = ntohl ip,
       if_mask = ntohl (the (os_mask dev (os_socket dev))), if_name = name, if_ip_str = inet_ntoa ip\<rparr>)"

lemma read_iface_info_ok:
  assumes "device_up dev" "length (if_name i) < 16"
  shows "read_iface_info dev junk i = Inr (os_socket dev, opened_iface dev (if_name i))"
  using assms inet_ntoa_fits
  by (auto simp: read_iface_info_def open_device_def device_up_def strcpy16_def opened_iface_def Let_def)

lemma read_ifaces_ok:
  assumes "successively (edge (nodes (stk m))) (ns @ [the_instance m])" "the_instance m \<notin> set ns" "distinct ns"
    and "map (\<lambda>p. map_option if_name (ifaces m p)) ns = map Some names"
    and "\<forall>x\<in>set names. length x < 16 \<and> device_up (devs x)" and "int (length got + length ns) \<le> nifs m"
  shows "\<exists>ifs. read_ifaces devs junk m got (List.hd (ns @ [the_instance m])) =
      Some (Inr (m\<lparr>ifaces := ifs, fds := got @ map (\<lambda>x. os_socket (devs x)) names\<rparr>)) \<and>
    map ifs ns = map (\<lambda>x. Some (opened_iface (devs x) x)) names \<and> (\<forall>q. q \<notin> set ns \<longrightarrow> ifs q = ifaces m q)"
  using assms
proof (induction ns arbitrary: m got names)
  case Nil
  then show ?case by (intro exI [of _ "ifaces m"]) (simp add: read_ifaces.simps)
next
  case (Cons n ns)
  then obtain x xs i where x: "names = x # xs" "ifaces m n = Some i" "if_name i = x"
    "map (\<lambda>p. map_option if_name (ifaces m p)) ns = map Some xs"
    by (cases names) auto
  have "edge (nodes (stk m)) n (List.hd (ns @ [the_instance m]))"
    and succ: "successively (edge (nodes (stk m))) (ns @ [the_instance m])"
    using Cons.prems(1) by (cases ns; simp)+
  then obtain nd where nd: "nodes (stk m) n = Some nd" "nxt nd = List.hd (ns @ [the_instance m])"
    by (auto simp: edge_def elim: nx_SomeE)
  have r: "read_iface_info (devs x) junk i = Inr (os_socket (devs x), opened_iface (devs x) x)"
    using read_iface_info_ok [of "devs x" i] Cons.prems(5) x(1,3) by simp
  let ?m = "m\<lparr>ifaces := (ifaces m)(n \<mapsto> opened_iface (devs x) x)\<rparr>"
  have "read_ifaces devs junk m got n = read_ifaces devs junk ?m (got @ [os_socket (devs x)]) (nxt nd)"
    using Cons.prems(2,6) x(2,3) r nd(1)
    by (subst read_ifaces.simps) (simp add: rd_iface_def list_entry_def rd_node_def)
  moreover have "map (\<lambda>p. map_option if_name (ifaces ?m p)) ns = map Some xs"
  proof -
    have "map (\<lambda>p. map_option if_name (ifaces ?m p)) ns = map (\<lambda>p. map_option if_name (ifaces m p)) ns"
      using Cons.prems(3) by (intro map_cong) auto
    with x(4) show ?thesis by simp
  qed
  with Cons.IH [of ?m xs "got @ [os_socket (devs x)]"] succ Cons.prems(2,3,5,6) x(1) nd(2)
  obtain ifs where "read_ifaces devs junk ?m (got @ [os_socket (devs x)]) (nxt nd) =
      Some (Inr (?m\<lparr>ifaces := ifs, fds := (got @ [os_socket (devs x)]) @ map (\<lambda>x. os_socket (devs x)) xs\<rparr>))"
    "map ifs ns = map (\<lambda>x. Some (opened_iface (devs x) x)) xs" "\<forall>q. q \<notin> set ns \<longrightarrow> ifs q = ifaces ?m q"
    by auto
  ultimately show ?case using x(1) Cons.prems(3) by (intro exI [of _ ifs]) auto
qed

lemma find_available_ifaces_ok:
  assumes "nodes (stk m) (the_instance m) = Some n" "nifs m = 0" "blocks_ready m ps"
    "length ps = length (filter usable_iface es)" "\<forall>e\<in>set es. length (fst e) < 16" "names_fit es"
  shows "if ps = [] then find_available_ifaces m es = Inl (Exit 1)
    else \<exists>m'. find_available_ifaces m es = Inr m' \<and> the_instance m' = the_instance m \<and>
      dll (nodes (stk m')) (the_instance m) ps \<and> nifs m' = int (length ps) \<and>
      map (\<lambda>p. map_option if_name (ifaces m' p)) ps = map (Some \<circ> fst) (filter usable_iface es) \<and>
      dom (nodes (stk m')) = set ps \<union> dom (nodes (stk m)) \<and> socks (stk m') = socks (stk m) \<and> sent (stk m') = sent (stk m) \<and>
      mallocs (stk m') = drop (length ps) (mallocs (stk m))"
proof -
  obtain h where h: "init_list_head (nodes (stk m)) (the_instance m) = Inr h" "dll h (the_instance m) []"
    "dom h = dom (nodes (stk m))"
    using init_list_head_dll [of "nodes (stk m)" "the_instance m" n] assms(1) by (auto simp: same_outside_def)
  let ?m = "m\<lparr>stk := (stk m)\<lparr>nodes := h\<rparr>\<rparr>"
  have "blocks_ready ?m ps" using assms(3) h(3) by (simp add: blocks_ready_def)
  from add_ifaces_ok [of ?m "[]", OF _ this assms(4,5)] h(2) obtain m' where
    "add_ifaces ?m es = Inr m'" "the_instance m' = the_instance m" "dll (nodes (stk m')) (the_instance m) ps"
    "nifs m' = nifs m + int (length ps)"
    "map (\<lambda>p. map_option if_name (ifaces m' p)) ps = map (Some \<circ> fst) (filter usable_iface es)"
    "dom (nodes (stk m')) = set ps \<union> dom h" "socks (stk m') = socks (stk m) \<and> sent (stk m') = sent (stk m)"
    "mallocs (stk m') = drop (length ps) (mallocs (stk m))"
    by auto
  with h(1,3) assms(2,6) show ?thesis
    by (auto simp: find_available_ifaces_def on_nodes_def)
qed

lemma init_all_ifaces_ok:
  assumes start: "nodes (stk m) (the_instance m) = Some n" "nifs m = 0" "blocks_ready m ps" "ps \<noteq> []"
    and es: "length ps = length (filter usable_iface es)" "\<forall>e\<in>set es. length (fst e) < 16" "names_fit es"
    and devs: "\<forall>e\<in>set es. usable_iface e \<longrightarrow> device_up (devs (fst e))"
    and mem: "length ps < length (mallocs (stk m))" "fst (mallocs (stk m) ! length ps) \<noteq> 0"
  shows "\<exists>m'. init_all_ifaces devs junk m es = Inr m' \<and> the_instance m' = the_instance m \<and>
    dll (nodes (stk m')) (the_instance m) ps \<and> nifs m' = int (length ps) \<and>
    fds m' = map (\<lambda>e. os_socket (devs (fst e))) (filter usable_iface es) \<and>
    map (ifaces m') ps = map (\<lambda>e. Some (opened_iface (devs (fst e)) (fst e))) (filter usable_iface es) \<and>
    dom (nodes (stk m')) = set ps \<union> dom (nodes (stk m)) \<and> socks (stk m') = socks (stk m) \<and> sent (stk m') = sent (stk m) \<and>
    mallocs (stk m') = drop (Suc (length ps)) (mallocs (stk m))"
proof -
  let ?us = "filter usable_iface es"
  from find_available_ifaces_ok [OF start(1-3) es] start(4) obtain m1 where
    m1: "find_available_ifaces m es = Inr m1" "the_instance m1 = the_instance m"
      "dll (nodes (stk m1)) (the_instance m) ps" "nifs m1 = int (length ps)"
      "map (\<lambda>p. map_option if_name (ifaces m1 p)) ps = map (Some \<circ> fst) ?us"
      "dom (nodes (stk m1)) = set ps \<union> dom (nodes (stk m))" "socks (stk m1) = socks (stk m) \<and> sent (stk m1) = sent (stk m)"
      "mallocs (stk m1) = drop (length ps) (mallocs (stk m))" by auto
  obtain a junk' ms where ms: "mallocs (stk m1) = (a, junk') # ms" "a \<noteq> 0" "ms = drop (Suc (length ps)) (mallocs (stk m))"
    using m1(8) mem by (cases "mallocs (stk m) ! length ps") (auto simp: Cons_nth_drop_Suc [symmetric])
  let ?m = "m1\<lparr>stk := (stk m1)\<lparr>mallocs := ms\<rparr>\<rparr>"
  obtain nd where nd: "nodes (stk m1) (the_instance m) = Some nd" "nxt nd = List.hd (ps @ [the_instance m])"
    using dll_first [OF m1(3)] by blast
  have "successively (edge (nodes (stk ?m))) (ps @ [the_instance ?m])" "the_instance ?m \<notin> set ps" "distinct ps"
    using m1(2,3) by (auto simp: dll_def successively_Cons)
  from read_ifaces_ok [OF this, of "map fst ?us" devs "[]" junk] m1(4,5) es(2) devs obtain ifs where
    ifs: "read_ifaces devs junk ?m [] (List.hd (ps @ [the_instance m])) =
      Some (Inr (?m\<lparr>ifaces := ifs, fds := map (\<lambda>x. os_socket (devs x)) (map fst ?us)\<rparr>))"
      "map ifs ps = map (\<lambda>x. Some (opened_iface (devs x) x)) (map fst ?us)"
    by (auto simp: m1(2))
  have "init_all_ifaces devs junk m es = Inr (?m\<lparr>ifaces := ifs, fds := map (\<lambda>x. os_socket (devs x)) (map fst ?us)\<rparr>)"
    using m1(1,2) ms(1,2) nd ifs(1) by (simp add: init_all_ifaces_def malloc_def rd_node_def)
  with m1 ms(3) ifs(2) show ?thesis by (simp add: comp_def)
qed

text \<open>A descriptor leads back to its interface.\<close>

lemma fd_to_iface_ok:
  assumes d: "dll (nodes (stk m)) (the_instance m) ps" and ifs: "map (ifaces m) ps = map Some is"
    and "distinct (map if_fd is)" "i < length ps"
  shows "fd_to_iface m (if_fd (is ! i)) = Inr (ps ! i)"
proof -
  let ?fd = "if_fd (is ! i)"
  have len: "length ps = length is" using ifs by (rule map_eq_imp_length_eq)
  have nth: "ifaces m (ps ! j) = Some (is ! j)" if "j < length ps" for j
    using that ifs len by (metis nth_map)
  have "list_find (nodes (stk m)) (the_instance m) (\<lambda>n. rbind (rd_iface m (list_entry n 0)) (\<lambda>iface. Inr (if_fd iface = ?fd))) =
      Inr (find (\<lambda>p. if_fd (the (ifaces m p)) = ?fd) ps)"
    by (rule lists.search_law [OF d]) (auto simp: rd_iface_def list_entry_def nth in_set_conv_nth)
  moreover have "find (\<lambda>p. if_fd (the (ifaces m p)) = ?fd) ps = Some (ps ! i)"
  proof -
    have "if_fd (is ! j) \<noteq> ?fd" if "j < i" for j
      using assms(3,4) that len nth_eq_iff_index_eq [OF assms(3), of j i] by auto
    with assms(4) nth show ?thesis by (auto simp: find_Some_iff intro!: exI [of _ i])
  qed
  ultimately show ?thesis by (simp add: fd_to_iface_def list_entry_def)
qed

text \<open>One frame with a TCP packet, from \<^verbatim>\<open>poll\<close> to \<^verbatim>\<open>handle_tcp_packet\<close>.\<close>

lemma handle_packet_tcp:
  assumes "rd16 frame 12 = Inr (htons ETH_P_IP)" "rd8 frame 14 = Inr (nibbles 5 v)" "rd8 frame 23 = Inr IPPROTO_TCP"
    "rd32 frame 30 = Inr daddr" "ifaces m iface = Some i"
  shows "handle_packet f g arp m iface frame len =
    (if ntohl daddr = if_ip i then rbind (handle_tcp_packet f (stk m) frame 14 34) (\<lambda>st. Inr (m\<lparr>stk := st\<rparr>))
     else Inr (m\<lparr>leaked := leaked m + 1\<rparr>))"
  using assms
  by (simp add: handle_packet_def handle_ip_packet_def packet_to_ip_hdr_def size_defs rd_iface_def IP_DATA_def
      IP_HDR_SIZE_def IPPROTO_TCP_def IPPROTO_ICMP_def)

lemma ustack_run_frame:
  assumes "i < length (fds m)" "fd_to_iface m (fds m ! i) = Inr iface" "ifaces m iface = Some ifc"
    and frame: "rd16 frame 12 = Inr (htons ETH_P_IP)" "rd8 frame 14 = Inr (nibbles 5 v)" "rd8 frame 23 = Inr IPPROTO_TCP"
      "rd32 frame 30 = Inr daddr" "length frame \<le> ETH_FRAME_LEN"
  shows "ustack_run f g arp m [Poll_Ready (replicate i Not_Ready @ [Incoming frame]), Poll_Failed] =
    (let st = (stk m)\<lparr>mallocs := tl (mallocs (stk m))\<rparr> in
     if mallocs (stk m) = [] \<or> fst (hd (mallocs (stk m))) = 0 then Inr (m\<lparr>stk := st\<rparr>)
     else if ntohl daddr = if_ip ifc then rbind (handle_tcp_packet f st frame 14 34) (\<lambda>st. Inr (m\<lparr>stk := st\<rparr>))
     else Inr (m\<lparr>stk := st, leaked := leaked m + 1\<rparr>))"
proof -
  have "frame \<noteq> []" using frame(1) by (auto simp: rd16_def)
  moreover have "ifaces (m\<lparr>stk := st\<rparr>) iface = Some ifc" for st using assms(3) by simp
  ultimately show ?thesis using assms(1,2,8) handle_packet_tcp [OF frame(1-4)]
    by (cases "mallocs (stk m)"; cases "hd (mallocs (stk m))")
      (auto simp: receive_all_one receive_on_def malloc_def Let_def rbind_def split: sum.splits)
qed

section \<open>Properties\<close>

text \<open>
  C40: \<^verbatim>\<open>find_available_ifaces\<close> links exactly the usable interfaces, in the order in which
  the kernel reports them: the list at \<^verbatim>\<open>instance\<close> holds one structure for each entry that
  has a link-layer address and a name with \<^verbatim>\<open>-eth\<close> in it, with that name, and
  \<^verbatim>\<open>nifs\<close> is their number; without any the program exits with status 1.
\<close>

theorem find_available_ifaces_in_order:
  assumes "nodes (stk m) (the_instance m) = Some n" and "nifs m = 0" and "blocks_ready m ps"
    and "length ps = length (filter usable_iface es)" and "\<forall>e\<in>set es. length (fst e) < 16" and "names_fit es"
  shows "if ps = [] then find_available_ifaces m es = Inl (Exit 1)
    else \<exists>m'. find_available_ifaces m es = Inr m' \<and> dll (nodes (stk m')) (the_instance m) ps \<and>
      nifs m' = int (length ps) \<and>
      map (\<lambda>p. map_option if_name (ifaces m' p)) ps = map (Some \<circ> fst) (filter usable_iface es)"
  using find_available_ifaces_ok [OF assms] by (auto split: if_splits)

definition sample_machine :: machine where
  "sample_machine = \<lparr>stk = \<lparr>nodes = [24 \<mapsto> \<lparr>nxt = 24, prv = 24\<rparr>], socks = Map.empty, mallocs = sample_mallocs 3, sent = []\<rparr>,
     ifaces = Map.empty, the_instance = 24, nifs = 0, fds = [], leaked = 0\<rparr>"

theorem find_available_ifaces_in_order_witness:
  "\<exists>m'. find_available_ifaces sample_machine [(''lo'', True), (''h1-eth0'', True), (''h1-eth0'', False), (''h1-eth1'', True)] = Inr m' \<and>
     dll (nodes (stk m')) 24 [20480, 24576] \<and> nifs m' = 2 \<and>
     map_option if_name (ifaces m' 24576) = Some ''h1-eth1''"
proof -
  let ?es = "[(''lo'', True), (''h1-eth0'', True), (''h1-eth0'', False), (''h1-eth1'', True)]"
  have us: "filter usable_iface ?es = [(''h1-eth0'', True), (''h1-eth1'', True)]"
    by (simp add: usable_iface_def)
  have b: "blocks_ready sample_machine [20480, 24576]"
    by (simp add: blocks_ready_def sample_machine_def sample_mallocs_def upt_rec HEAP_BASE_def)
  have "names_fit ?es" by (simp only: names_fit_def us) simp
  with find_available_ifaces_in_order [of sample_machine "\<lparr>nxt = 24, prv = 24\<rparr>" "[20480, 24576]" ?es] b us
  show ?thesis by (auto simp: sample_machine_def)
qed

text \<open>
  Frames on the way up. In a frame of type IP whose header does not fit, the code reads past
  the end of the packet; a frame for another address and a frame of an unknown type are dropped
  without being freed; a TCP segment for the interface's address with a plain IP header reaches
  \<^verbatim>\<open>handle_tcp_packet\<close>.
\<close>

theorem handle_packet_paths:
  assumes "rd16 pkt 12 = Inr ty" and "ifaces m iface = Some i"
  shows "(ntohs ty = ETH_P_IP \<and> length pkt < 34 \<longrightarrow> handle_packet f g a m iface pkt len = Inl Out_Of_Bounds) \<and>
    (ntohs ty = ETH_P_IP \<and> rd32 pkt 30 = Inr d \<and> ntohl d \<noteq> if_ip i \<longrightarrow>
       handle_packet f g a m iface pkt len = Inr (m\<lparr>leaked := leaked m + 1\<rparr>)) \<and>
    (ntohs ty \<notin> {ETH_P_IP, ETH_P_ARP} \<longrightarrow> handle_packet f g a m iface pkt len = Inr (m\<lparr>leaked := leaked m + 1\<rparr>)) \<and>
    (ntohs ty = ETH_P_IP \<and> rd32 pkt 30 = Inr (htonl (if_ip i)) \<and> rd8 pkt 23 = Inr IPPROTO_TCP \<and>
       rd8 pkt 14 = Inr (nibbles 5 v) \<longrightarrow>
       handle_packet f g a m iface pkt len =
         rbind (handle_tcp_packet f (stk m) pkt 14 34) (\<lambda>st. Inr (m\<lparr>stk := st\<rparr>)))"
  using assms
  by (auto simp: handle_packet_def handle_ip_packet_def packet_to_ip_hdr_def size_defs rd_iface_def IP_DATA_def
      IP_HDR_SIZE_def rd_short IPPROTO_TCP_def IPPROTO_ICMP_def)

theorem handle_packet_paths_witness:
  "handle_packet sample_ip_init (\<lambda>st _ _ _ _. st) (\<lambda>m _ _ _. Inr m) (sample_machine\<lparr>ifaces := [64 \<mapsto> blank_iface]\<rparr>) 64
     (replicate 12 0 @ [8, 0] @ replicate 10 0) 24 = Inl Out_Of_Bounds"
proof -
  let ?p = "replicate 12 0 @ [8, 0] @ replicate 10 0 :: u8 list"
  have "rd16 ?p 12 = Inr 8" by (simp add: rd16_def le16_def nth_append)
  moreover have "ntohs 8 = ETH_P_IP" by code_simp
  ultimately show ?thesis
    using handle_packet_paths [of ?p 8 "sample_machine\<lparr>ifaces := [64 \<mapsto> blank_iface]\<rparr>" 64 blank_iface] by simp
qed

end
