(* ===== verification/Tcp_Timer.thy ===== *)
theory Tcp_Timer
  imports Tcp_Api
begin

text \<open>
  The timers of \<^verbatim>\<open>tcp_timer.c\<close>, linked in the global \<^verbatim>\<open>timer_list\<close>.

  Four places do not compile as written and are read as follows: the scan names the list
  member \<^verbatim>\<open>list\<close> of \<^verbatim>\<open>struct tcp_timer\<close>; in
  \<^verbatim>\<open>tcp_set_timewait_timer\<close> the last assignment is to the timer just set up; the
  safe iteration of \<^verbatim>\<open>tcp_unset_retrans_timer\<close> has its second cursor; the two halves
  of its condition are joined by \<^verbatim>\<open>&&\<close>.
\<close>

definition TCP_TIMER_SCAN_INTERVAL :: int where "TCP_TIMER_SCAN_INTERVAL = 100000"
definition TCP_MSL :: int where "TCP_MSL = 1000000"
definition TCP_TIMEWAIT_TIMEOUT :: int where "TCP_TIMEWAIT_TIMEOUT = 2 * TCP_MSL"

definition timewait_to_tcp_sock :: "addr \<Rightarrow> addr" where
  "timewait_to_tcp_sock t = t - OFF_timewait"

definition retranstimer_to_tcp_sock :: "addr \<Rightarrow> addr" where
  "retranstimer_to_tcp_sock t = t - OFF_retrans_timer"

text \<open>The timer at an address: one of the two embedded in a socket.\<close>

definition rd_timer :: "stack \<Rightarrow> addr \<Rightarrow> tcp_timer res" where
  "rd_timer st t =
     (case socks st (timewait_to_tcp_sock t) of
        Some sk \<Rightarrow> Inr (timewait sk)
      | None \<Rightarrow>
          (case socks st (retranstimer_to_tcp_sock t) of
             Some sk \<Rightarrow> Inr (retrans_timer sk)
           | None \<Rightarrow> Inl Wild_Pointer))"

text \<open>One run of the loop body: the stack after it.\<close>

definition scan_timer :: "stack \<Rightarrow> addr \<Rightarrow> stack res" where
  "scan_timer st t =
     rbind (rd_timer st t) (\<lambda>tm.
     if tm_timeout tm \<ge> TCP_TIMEWAIT_TIMEOUT
     then
       let tsk = timewait_to_tcp_sock t in
       rbind (tcp_set_state st tsk TCP_CLOSED) (\<lambda>st. free_tcp_sock st tsk)
     else Inr st)"

text \<open>\<^verbatim>\<open>list_for_each_entry\<close>: the next pointer is read after the body has run.\<close>

partial_function (option) scan_timers_from :: "stack \<Rightarrow> addr \<Rightarrow> stack res option" where
  "scan_timers_from st n =
     (if n = timer_list then Some (Inr st)
      else case scan_timer st (list_entry n OFF_timer_list) of
        Inl e \<Rightarrow> Some (Inl e)
      | Inr st' \<Rightarrow>
          (case rd_node (nodes st') n of
             Inl e \<Rightarrow> Some (Inl e)
           | Inr nd \<Rightarrow> scan_timers_from st' (nxt nd)))"

definition tcp_scan_timer_list :: "stack \<Rightarrow> stack res" where
  "tcp_scan_timer_list st =
     rbind (rd_node (nodes st) timer_list) (\<lambda>h. of_loop (scan_timers_from st (nxt h)))"

definition tcp_set_timewait_timer :: "stack \<Rightarrow> addr \<Rightarrow> stack res" where
  "tcp_set_timewait_timer st tsk =
     rbind (upd_sock st tsk (\<lambda>sk. sk\<lparr>timewait := (timewait sk)\<lparr>tm_type := 0, tm_timeout := TCP_TIMEWAIT_TIMEOUT\<rparr>\<rparr>)) (\<lambda>st.
     rbind (on_nodes st (\<lambda>h. list_add_tail h (tsk + OFF_timewait + OFF_timer_list) timer_list)) (\<lambda>st.
     upd_sock st tsk (\<lambda>sk. sk\<lparr>timewait := (timewait sk)\<lparr>tm_enable := 1\<rparr>\<rparr>)))"

definition tcp_set_retrans_timer :: "stack \<Rightarrow> addr \<Rightarrow> stack res" where
  "tcp_set_retrans_timer st tsk =
     rbind (upd_sock st tsk (\<lambda>sk. sk\<lparr>retrans_timer := (retrans_timer sk)\<lparr>tm_type := 1, tm_timeout := TCP_TIMEWAIT_TIMEOUT\<rparr>\<rparr>)) (\<lambda>st.
     rbind (on_nodes st (\<lambda>h. list_add_tail h (tsk + OFF_retrans_timer + OFF_timer_list) timer_list)) (\<lambda>st.
     upd_sock st tsk (\<lambda>sk. sk\<lparr>retrans_timer := (retrans_timer sk)\<lparr>tm_enable := 1\<rparr>\<rparr>)))"

text \<open>
  The four key fields read through a pointer. A pointer 32 bytes into a socket makes the
  first twelve bytes of its \<^verbatim>\<open>hash_list\<close> node pass for addresses and ports.
\<close>

definition key_through :: "stack \<Rightarrow> addr \<Rightarrow> (u32 \<times> u16 \<times> u32 \<times> u16) res" where
  "key_through st p =
     (case socks st p of
        Some sk \<Rightarrow> Inr (sk_sip sk, sk_sport sk, sk_dip sk, sk_dport sk)
      | None \<Rightarrow>
          (case socks st (p - OFF_hash_list) of
             None \<Rightarrow> Inl Wild_Pointer
           | Some sk \<Rightarrow>
               rbind (rd_node (nodes st) p) (\<lambda>n.
               Inr (word_of_int (nxt n), word_of_int (nxt n div 2 ^ 32),
                    word_of_int (nxt n div 2 ^ 48 mod 2 ^ 16 + prv n * 2 ^ 16),
                    word_of_int (prv n div 2 ^ 16)))))"

definition tcp_unset_retrans_timer :: "stack \<Rightarrow> addr \<Rightarrow> stack res" where
  "tcp_unset_retrans_timer st tsk =
     rbind (rd_sock st tsk) (\<lambda>sk.
     rbind (list_find_safe (nodes st) timer_list (\<lambda>n.
       rbind (key_through st (timewait_to_tcp_sock (list_entry n OFF_timer_list))) (\<lambda>(sip, sport, dip, dport).
       Inr (sip = sk_sip sk \<and> sport = sk_sport sk \<and> dip = sk_dip sk \<and> dport = sk_dport sk))))
     (\<lambda>r. case r of
        None \<Rightarrow> Inr st
      | Some n \<Rightarrow>
          rbind (on_nodes st (\<lambda>h. list_delete_entry h n)) (\<lambda>st.
          upd_sock st tsk (\<lambda>sk. sk\<lparr>retrans_timer := (retrans_timer sk)\<lparr>tm_enable := 0\<rparr>\<rparr>))))"

text \<open>
  The timer thread: it initialises the list, then sleeps and scans for ever. \<open>n\<close> rounds of
  its loop.
\<close>

fun timer_rounds :: "nat \<Rightarrow> stack \<Rightarrow> stack res" where
  "timer_rounds 0 st = Inr st"
| "timer_rounds (Suc n) st = rbind (tcp_scan_timer_list st) (timer_rounds n)"

definition tcp_timer_thread :: "nat \<Rightarrow> stack \<Rightarrow> stack res" where
  "tcp_timer_thread n st =
     rbind (on_nodes st (\<lambda>h. init_list_head h timer_list)) (timer_rounds n)"

section \<open>Setting timers\<close>

abbreviation tw_node :: "addr \<Rightarrow> addr" where
  "tw_node p \<equiv> p + OFF_timewait + OFF_timer_list"

abbreviation rt_node :: "addr \<Rightarrow> addr" where
  "rt_node p \<equiv> p + OFF_retrans_timer + OFF_timer_list"

lemma timer_owner [simp]:
  "timewait_to_tcp_sock (list_entry (tw_node p) OFF_timer_list) = p"
  "retranstimer_to_tcp_sock (list_entry (rt_node p) OFF_timer_list) = p"
  "timewait_to_tcp_sock (list_entry (rt_node p) OFF_timer_list) = p + 32"
  by (simp_all add: timewait_to_tcp_sock_def retranstimer_to_tcp_sock_def list_entry_def offsets)

lemma set_timewait_ok:
  assumes "dll (nodes st) timer_list xs" "nodes st (tw_node p) \<noteq> None" "tw_node p \<notin> set (timer_list # xs)"
    and "socks st p = Some sk"
  shows "\<exists>h. tcp_set_timewait_timer st p = Inr (st\<lparr>nodes := h, socks := (socks st)
      (p \<mapsto> sk\<lparr>timewait := \<lparr>tm_type = 0, tm_timeout = TCP_TIMEWAIT_TIMEOUT, tm_enable = 1\<rparr>\<rparr>)\<rparr>) \<and>
    dll h timer_list (xs @ [tw_node p]) \<and> dom h = dom (nodes st)"
proof -
  obtain h where "list_add_tail (nodes st) (tw_node p) timer_list = Inr h" "dll h timer_list (xs @ [tw_node p])"
    "dom h = dom (nodes st)"
    using lists.add_tail_law [OF assms(1-3)] by (auto simp: same_outside_def)
  with assms(4) show ?thesis
    by (cases "timewait sk") (auto simp: tcp_set_timewait_timer_def on_nodes_def)
qed

lemma set_retrans_ok:
  assumes "dll (nodes st) timer_list xs" "nodes st (rt_node p) \<noteq> None" "rt_node p \<notin> set (timer_list # xs)"
    and "socks st p = Some sk"
  shows "\<exists>h. tcp_set_retrans_timer st p = Inr (st\<lparr>nodes := h, socks := (socks st)
      (p \<mapsto> sk\<lparr>retrans_timer := \<lparr>tm_type = 1, tm_timeout = TCP_TIMEWAIT_TIMEOUT, tm_enable = 1\<rparr>\<rparr>)\<rparr>) \<and>
    dll h timer_list (xs @ [rt_node p]) \<and> dom h = dom (nodes st)"
proof -
  obtain h where "list_add_tail (nodes st) (rt_node p) timer_list = Inr h" "dll h timer_list (xs @ [rt_node p])"
    "dom h = dom (nodes st)"
    using lists.add_tail_law [OF assms(1-3)] by (auto simp: same_outside_def)
  with assms(4) show ?thesis
    by (cases "retrans_timer sk") (auto simp: tcp_set_retrans_timer_def on_nodes_def)
qed

text \<open>
  \<^verbatim>\<open>tcp_unset_retrans_timer\<close> removes the first timer in front of which it reads the key of
  the socket, and marks the retransmission timer of the socket, whichever timer that was.
\<close>

lemma unset_retrans_exact:
  assumes d: "dll (nodes st) timer_list ns" and sk: "socks st p = Some sk"
    and key: "\<And>n. n \<in> set ns \<Longrightarrow> key_through st (timewait_to_tcp_sock (list_entry n OFF_timer_list)) = Inr (k n)"
  shows "case find (\<lambda>n. k n = (sk_sip sk, sk_sport sk, sk_dip sk, sk_dport sk)) ns of
      None \<Rightarrow> tcp_unset_retrans_timer st p = Inr st
    | Some n \<Rightarrow> \<exists>h. tcp_unset_retrans_timer st p = Inr (st\<lparr>nodes := h, socks := (socks st)
          (p \<mapsto> sk\<lparr>retrans_timer := (retrans_timer sk)\<lparr>tm_enable := 0\<rparr>\<rparr>)\<rparr>) \<and>
        dll h timer_list (remove1 n ns)"
proof -
  let ?hit = "\<lambda>n. k n = (sk_sip sk, sk_sport sk, sk_dip sk, sk_dport sk)"
  let ?test = "\<lambda>n. rbind (key_through st (timewait_to_tcp_sock (list_entry n OFF_timer_list)))
    (\<lambda>(sip, sport, dip, dport). Inr (sip = sk_sip sk \<and> sport = sk_sport sk \<and> dip = sk_dip sk \<and> dport = sk_dport sk))"
  have "list_find_safe (nodes st) timer_list ?test = Inr (find ?hit ns)"
    by (rule list_find_safe_dll [OF d]) (auto simp: key split: prod.splits)
  then have walk: "tcp_unset_retrans_timer st p = (case find ?hit ns of None \<Rightarrow> Inr st
      | Some n \<Rightarrow> rbind (on_nodes st (\<lambda>h. list_delete_entry h n)) (\<lambda>st.
          upd_sock st p (\<lambda>sk. sk\<lparr>retrans_timer := (retrans_timer sk)\<lparr>tm_enable := 0\<rparr>\<rparr>)))"
    using sk by (simp add: tcp_unset_retrans_timer_def)
  show ?thesis
  proof (cases "find ?hit ns")
    case (Some n)
    then have "n \<in> set ns" by (metis find_Some_iff nth_mem)
    then obtain us vs where ns: "ns = us @ n # vs" "n \<notin> set us" by (blast dest: split_list_first)
    then obtain h where "list_delete_entry (nodes st) n = Inr h" "dll h timer_list (us @ vs)"
      using lists.delete_law [of "nodes st" timer_list us n vs] d by blast
    with ns(2) Some sk walk show ?thesis by (auto simp: on_nodes_def ns(1) remove1_append)
  qed (use walk in simp)
qed

text \<open>
  The timer it is to remove is one it cannot find: from the retransmission timer it computes
  an address 32 bytes into the socket and compares the bytes of the node \<^verbatim>\<open>hash_list\<close> with
  the key. Unless the lower half of the next pointer there happens to be the socket's source
  address, the timer stays in the list and enabled.
\<close>

theorem unset_retrans_misses_own_timer:
  assumes d: "dll (nodes st) timer_list []" and "nodes st (rt_node p) \<noteq> None" and "rt_node p \<noteq> timer_list"
    and "socks st p = Some sk" and "socks st (p + 32) = None"
    and n: "nodes st (p + OFF_hash_list) = Some n" "word_of_int (nxt n) \<noteq> sk_sip sk" "p + OFF_hash_list \<noteq> timer_list"
  shows "\<exists>st'. tcp_set_retrans_timer st p = Inr st' \<and> tcp_unset_retrans_timer st' p = Inr st' \<and>
    dll (nodes st') timer_list [rt_node p]"
proof -
  let ?sk = "sk\<lparr>retrans_timer := \<lparr>tm_type = 1, tm_timeout = TCP_TIMEWAIT_TIMEOUT, tm_enable = 1\<rparr>\<rparr>"
  obtain h where h: "list_add_tail (nodes st) (rt_node p) timer_list = Inr h" "dll h timer_list [rt_node p]"
    "same_outside (insert (rt_node p) (insert timer_list (set []))) (nodes st) h"
    using lists.add_tail_law [OF d assms(2)] assms(3) by auto
  let ?st = "st\<lparr>nodes := h, socks := (socks st)(p \<mapsto> ?sk)\<rparr>"
  have set: "tcp_set_retrans_timer st p = Inr ?st"
    using h(1) assms(4) by (cases "retrans_timer sk") (simp add: tcp_set_retrans_timer_def on_nodes_def)
  have "h (p + OFF_hash_list) = Some n"
    using h(3) n(1,3) by (auto simp: same_outside_def offsets)
  then obtain k where key: "key_through ?st (p + 32) = Inr k" "fst k = word_of_int (nxt n)"
    using assms(5) by (simp add: key_through_def rd_node_def offsets)
  have d': "dll (nodes ?st) timer_list [rt_node p]" and sk': "socks ?st p = Some ?sk" using h(2) by simp_all
  have "key_through ?st (timewait_to_tcp_sock (list_entry x OFF_timer_list)) = Inr k" if "x \<in> set [rt_node p]" for x
    using that key(1) by simp
  from unset_retrans_exact [OF d' sk' this] key(2) n(2)
  have "tcp_unset_retrans_timer ?st p = Inr ?st" by (cases k) simp
  with set h(2) show ?thesis by auto
qed

section \<open>Scanning\<close>

lemma scan_idle_chain:
  assumes "successively (edge (nodes st)) (ys @ [timer_list])" "timer_list \<notin> set ys"
    and "\<And>n. n \<in> set ys \<Longrightarrow> \<exists>tm. rd_timer st (list_entry n OFF_timer_list) = Inr tm \<and> tm_timeout tm < TCP_TIMEWAIT_TIMEOUT"
  shows "scan_timers_from st (List.hd (ys @ [timer_list])) = Some (Inr st)"
  using assms
proof (induction ys)
  case Nil
  then show ?case by (simp add: scan_timers_from.simps)
next
  case (Cons y ys)
  have "edge (nodes st) y (List.hd (ys @ [timer_list]))" "successively (edge (nodes st)) (ys @ [timer_list])"
    using Cons.prems(1) by (cases ys; simp)+
  then obtain nd where nd: "nodes st y = Some nd" "nxt nd = List.hd (ys @ [timer_list])"
    by (auto simp: edge_def elim: nx_SomeE)
  obtain tm where "rd_timer st (list_entry y OFF_timer_list) = Inr tm" "tm_timeout tm < TCP_TIMEWAIT_TIMEOUT"
    using Cons.prems(3) [of y] by auto
  with nd Cons.IH [OF \<open>successively (edge (nodes st)) (ys @ [timer_list])\<close>] Cons.prems(2,3) show ?case
    by (subst scan_timers_from.simps) (auto simp: rd_node_def scan_timer_def)
qed

lemma scan_first:
  assumes "dll (nodes st) timer_list (n # ns)"
  shows "tcp_scan_timer_list st = of_loop (scan_timers_from st n)" "timer_list \<noteq> n"
    "\<exists>nd. nodes st n = Some nd \<and> nxt nd = List.hd (ns @ [timer_list])"
proof -
  show "tcp_scan_timer_list st = of_loop (scan_timers_from st n)"
    using dll_first [OF assms] by (auto simp: tcp_scan_timer_list_def rd_node_def)
  show "timer_list \<noteq> n" using assms by (auto simp: dll_def)
  have "edge (nodes st) n (List.hd (ns @ [timer_list]))"
    using assms by (cases ns) (auto simp: dll_def)
  then show "\<exists>nd. nodes st n = Some nd \<and> nxt nd = List.hd (ns @ [timer_list])"
    by (auto simp: edge_def elim!: nx_SomeE)
qed

text \<open>An expired timer with \<open>k\<close> references left: the scan number \<open>k\<close> frees the socket under its
  own feet.\<close>

lemma expired_rounds:
  assumes "dll (nodes st) timer_list [tw_node p]" "socks st p = Some sk"
    and "tm_timeout (timewait sk) \<ge> TCP_TIMEWAIT_TIMEOUT" "ref_cnt sk = int (Suc k)"
  shows "timer_rounds (Suc k) st = Inl Wild_Pointer"
  using assms
proof (induction k arbitrary: st sk)
  case 0
  have "tw_node p \<in> set (sock_nodes p)" by (simp add: sock_nodes_def)
  then have "scan_timers_from st (tw_node p) = Some (Inl Wild_Pointer)"
    using 0 scan_first(2) [OF 0(1)]
    by (subst scan_timers_from.simps)
      (simp add: scan_timer_def rd_timer_def tcp_set_state_def free_tcp_sock_def rd_node_def set_nodes_apply)
  then show ?case using scan_first(1) [OF 0(1)] by simp
next
  case (Suc k)
  let ?sk = "sk\<lparr>sk_state := TCP_CLOSED, ref_cnt := ref_cnt sk - 1\<rparr>"
  let ?st = "st\<lparr>socks := (socks st)(p \<mapsto> ?sk)\<rparr>"
  obtain nd where nd: "nodes st (tw_node p) = Some nd" "nxt nd = timer_list"
    using scan_first(3) [OF Suc.prems(1)] by auto
  have end_of_list: "scan_timers_from s timer_list = Some (Inr s)" for s
    by (simp add: scan_timers_from.simps)
  have "scan_timers_from st (tw_node p) = Some (Inr ?st)"
    using Suc.prems scan_first(2) [OF Suc.prems(1)] nd
    by (subst scan_timers_from.simps)
      (simp add: scan_timer_def rd_timer_def tcp_set_state_def free_tcp_sock_def rd_node_def end_of_list)
  then have "tcp_scan_timer_list st = Inr ?st" using scan_first(1) [OF Suc.prems(1)] by simp
  moreover have "timer_rounds (Suc k) ?st = Inl Wild_Pointer"
    using Suc.prems by (intro Suc.IH [of ?st ?sk]) simp_all
  ultimately show ?case by simp
qed

section \<open>Properties\<close>

text \<open>
  C36: Scanning is harmless while nothing has expired: for any list of timers whose timeouts lie
  below two maximum segment lifetimes, \<^verbatim>\<open>tcp_scan_timer_list\<close> runs to the end of the list
  and changes nothing.
\<close>

theorem scan_idle:
  assumes "dll (nodes st) timer_list ns"
    and "\<forall>n\<in>set ns. \<exists>tm. rd_timer st (list_entry n OFF_timer_list) = Inr tm \<and> tm_timeout tm < TCP_TIMEWAIT_TIMEOUT"
  shows "tcp_scan_timer_list st = Inr st"
proof -
  have "successively (edge (nodes st)) (ns @ [timer_list])" "timer_list \<notin> set ns"
    using assms(1) by (auto simp: dll_def successively_Cons)
  from scan_idle_chain [OF this] assms(2) dll_first [OF assms(1)] show ?thesis
    by (auto simp: tcp_scan_timer_list_def rd_node_def)
qed

theorem scan_idle_witness:
  "tcp_scan_timer_list \<lparr>nodes = [timer_list \<mapsto> \<lparr>nxt = 20608, prv = 20608\<rparr>, 20608 \<mapsto> \<lparr>nxt = timer_list, prv = timer_list\<rparr>],
     socks = [20480 \<mapsto> fresh_sock], mallocs = [], sent = []\<rparr> =
   Inr \<lparr>nodes = [timer_list \<mapsto> \<lparr>nxt = 20608, prv = 20608\<rparr>, 20608 \<mapsto> \<lparr>nxt = timer_list, prv = timer_list\<rparr>],
     socks = [20480 \<mapsto> fresh_sock], mallocs = [], sent = []\<rparr>"
proof (rule scan_idle)
  show "dll (nodes \<lparr>nodes = [timer_list \<mapsto> \<lparr>nxt = 20608, prv = 20608\<rparr>, 20608 \<mapsto> \<lparr>nxt = timer_list, prv = timer_list\<rparr>],
      socks = [20480 \<mapsto> fresh_sock], mallocs = [], sent = []\<rparr>) timer_list [20608]"
    by (simp add: dll_def edge_def nx_def pv_def timer_list_def)
qed (simp add: rd_timer_def timewait_to_tcp_sock_def list_entry_def offsets fresh_sock_def zero_timer_def
    TCP_TIMEWAIT_TIMEOUT_def TCP_MSL_def)

text \<open>
  C37: A TIME-WAIT timer does not wait. \<^verbatim>\<open>tcp_set_timewait_timer\<close> sets the timeout to the
  very value that \<^verbatim>\<open>tcp_scan_timer_list\<close> takes for expired and nothing ever counts time,
  so every scan drops a reference of the socket; the timer stays linked, and the scan that
  drops the last one goes on through the freed timer.
\<close>

theorem timewait_scan_use_after_free:
  assumes "dll (nodes st) timer_list []" and "nodes st (tw_node p) \<noteq> None" and "tw_node p \<noteq> timer_list"
    and "socks st p = Some sk" and "ref_cnt sk = int (Suc k)"
  shows "rbind (tcp_set_timewait_timer st p) (timer_rounds (Suc k)) = Inl Wild_Pointer"
proof -
  obtain h where h: "tcp_set_timewait_timer st p = Inr (st\<lparr>nodes := h, socks := (socks st)
      (p \<mapsto> sk\<lparr>timewait := \<lparr>tm_type = 0, tm_timeout = TCP_TIMEWAIT_TIMEOUT, tm_enable = 1\<rparr>\<rparr>)\<rparr>)"
    "dll h timer_list [tw_node p]"
    using set_timewait_ok [OF assms(1,2) _ assms(4)] assms(3) by auto
  let ?sk = "sk\<lparr>timewait := \<lparr>tm_type = 0, tm_timeout = TCP_TIMEWAIT_TIMEOUT, tm_enable = 1\<rparr>\<rparr>"
  have "timer_rounds (Suc k) (st\<lparr>nodes := h, socks := (socks st)(p \<mapsto> ?sk)\<rparr>) = Inl Wild_Pointer"
    by (rule expired_rounds [of _ p ?sk]) (use h(2) assms(5) in simp_all)
  with h(1) show ?thesis by (simp del: timer_rounds.simps)
qed

theorem timewait_scan_use_after_free_witness:
  "rbind (tcp_set_timewait_timer \<lparr>nodes = [timer_list \<mapsto> \<lparr>nxt = timer_list, prv = timer_list\<rparr>, 20608 \<mapsto> \<lparr>nxt = 0, prv = 0\<rparr>],
     socks = [20480 \<mapsto> fresh_sock\<lparr>ref_cnt := 2\<rparr>], mallocs = [], sent = []\<rparr> 20480) (timer_rounds (Suc 1)) = Inl Wild_Pointer"
proof -
  have "dll [timer_list \<mapsto> \<lparr>nxt = timer_list, prv = timer_list\<rparr>, 20608 \<mapsto> \<lparr>nxt = 0, prv = 0\<rparr>] timer_list []"
    by (simp add: dll_def edge_def nx_def pv_def timer_list_def)
  with timewait_scan_use_after_free [of "\<lparr>nodes = [timer_list \<mapsto> \<lparr>nxt = timer_list, prv = timer_list\<rparr>,
      20608 \<mapsto> \<lparr>nxt = 0, prv = 0\<rparr>], socks = [20480 \<mapsto> fresh_sock\<lparr>ref_cnt := 2\<rparr>], mallocs = [], sent = []\<rparr>" 20480
      "fresh_sock\<lparr>ref_cnt := 2\<rparr>" 1]
  show ?thesis by (simp del: timer_rounds.simps add: offsets timer_list_def)
qed

text \<open>
  A retransmission timer crashes the next scan. The scan takes every timer for a TIME-WAIT
  timer: for the retransmission timer of a socket it computes an address 32 bytes into the
  socket and treats it as one.
\<close>

theorem retrans_scan_wild:
  assumes "dll (nodes st) timer_list []" and "nodes st (rt_node p) \<noteq> None" and "rt_node p \<noteq> timer_list"
    and "socks st p = Some sk" and "socks st (p + 32) = None"
  shows "rbind (tcp_set_retrans_timer st p) tcp_scan_timer_list = Inl Wild_Pointer"
proof -
  obtain h where h: "tcp_set_retrans_timer st p = Inr (st\<lparr>nodes := h, socks := (socks st)
      (p \<mapsto> sk\<lparr>retrans_timer := \<lparr>tm_type = 1, tm_timeout = TCP_TIMEWAIT_TIMEOUT, tm_enable = 1\<rparr>\<rparr>)\<rparr>)"
    "dll h timer_list [rt_node p]"
    using set_retrans_ok [OF assms(1,2) _ assms(4)] assms(3) by auto
  let ?st = "st\<lparr>nodes := h, socks := (socks st)
      (p \<mapsto> sk\<lparr>retrans_timer := \<lparr>tm_type = 1, tm_timeout = TCP_TIMEWAIT_TIMEOUT, tm_enable = 1\<rparr>\<rparr>)\<rparr>"
  have d: "dll (nodes ?st) timer_list [rt_node p]" using h(2) by simp
  have "scan_timers_from ?st (rt_node p) = Some (Inl Wild_Pointer)"
    using assms(5) scan_first(2) [OF d]
    by (subst scan_timers_from.simps) (simp add: scan_timer_def rd_timer_def tcp_set_state_def)
  with scan_first(1) [OF d] h(1) show ?thesis by simp
qed

theorem retrans_scan_wild_witness:
  "rbind (tcp_set_retrans_timer \<lparr>nodes = [timer_list \<mapsto> \<lparr>nxt = timer_list, prv = timer_list\<rparr>, 20640 \<mapsto> \<lparr>nxt = 0, prv = 0\<rparr>],
     socks = [20480 \<mapsto> fresh_sock], mallocs = [], sent = []\<rparr> 20480) tcp_scan_timer_list = Inl Wild_Pointer"
proof -
  have "dll [timer_list \<mapsto> \<lparr>nxt = timer_list, prv = timer_list\<rparr>, 20640 \<mapsto> \<lparr>nxt = 0, prv = 0\<rparr>] timer_list []"
    by (simp add: dll_def edge_def nx_def pv_def timer_list_def)
  with retrans_scan_wild [of "\<lparr>nodes = [timer_list \<mapsto> \<lparr>nxt = timer_list, prv = timer_list\<rparr>,
      20640 \<mapsto> \<lparr>nxt = 0, prv = 0\<rparr>], socks = [20480 \<mapsto> fresh_sock], mallocs = [], sent = []\<rparr>" 20480 fresh_sock]
  show ?thesis by (simp add: offsets timer_list_def)
qed

end
