(* ===== verification/Tcp_Spec.thy ===== *)
theory Tcp_Spec
  imports Tcp_In Tcp_Timer
begin

text \<open>
  What the stack promises to its users, without memory, lists, buckets and reference counts: a
  machine that keeps a state, a key and a sequence number per socket, a map from keys to
  connections and from ports to listeners, and the segments sent. \<open>spec_step\<close> is its answer to
  a call or a segment. \<open>view\<close> is what a state of the program shows of such a machine, read
  with the program's own lookup functions and, for the packets sent, with its own receiving
  code. \<open>sp_mem\<close> are the answers of the coming calls of \<^verbatim>\<open>malloc\<close>, of which it only matters
  whether they are \<^verbatim>\<open>NULL\<close>.
\<close>

section \<open>Calls\<close>

text \<open>
  The calls of the application threads, a segment handed in by the main thread, and the timer
  thread: \<^verbatim>\<open>init_list_head\<close> at its start and one scan. \<open>Connect_Resume\<close> is the rest of
  \<^verbatim>\<open>tcp_sock_connect\<close> after the wake-up.
\<close>

datatype api_call =
    Alloc addr
  | Bind addr sock_addr
  | Listen addr int
  | Connect addr sock_addr
  | Connect_Resume addr
  | Accept addr
  | Read addr int
  | Write addr "u8 list"
  | Close addr
  | Segment nat "u8 list"   \<comment> \<open>the offset of the TCP header in the packet\<close>
  | Timer_Start
  | Timer_Scan

section \<open>The specification\<close>

record sock_view =
  v_state :: tcp_state
  v_key :: key
  v_nxt :: u32

record spec =
  sp_socks :: "addr \<Rightarrow> sock_view option"
  sp_conns :: "key \<Rightarrow> addr option"
  sp_listeners :: "u16 \<Rightarrow> addr option"
  sp_mem :: "bool list"
  sp_out :: "tcp_cb option list"

definition can_send :: "spec \<Rightarrow> bool" where
  "can_send s \<longleftrightarrow> sp_mem s \<noteq> [] \<and> List.hd (sp_mem s)"

definition emit :: "tcp_cb \<Rightarrow> spec \<Rightarrow> spec" where
  "emit cb s = s\<lparr>sp_mem := tl (sp_mem s), sp_out := sp_out s @ (if can_send s then [Some cb] else [])\<rparr>"

definition on_sock :: "addr \<Rightarrow> (sock_view \<Rightarrow> sock_view) \<Rightarrow> spec \<Rightarrow> spec" where
  "on_sock p f s = s\<lparr>sp_socks := (sp_socks s)(p := map_option f (sp_socks s p))\<rparr>"

fun segment_from :: "key \<Rightarrow> u32 \<Rightarrow> u8 \<Rightarrow> tcp_cb" where
  "segment_from (sip, dip, sport, dport) sq flags = cb_of sip dip sport dport sq 0 flags 65535 0"

definition reset_for :: "tcp_cb \<Rightarrow> tcp_cb" where
  "reset_for cb = cb_of (cb_daddr cb) (cb_saddr cb) (cb_dport cb) (cb_sport cb) 0 (cb_seq_end cb) (TCP_RST OR TCP_ACK) 0 0"

fun with_port :: "u16 \<Rightarrow> key \<Rightarrow> key" where
  "with_port port (sip, dip, sport, dport) = (sip, dip, port, dport)"

fun local_port :: "key \<Rightarrow> u16" where
  "local_port (sip, dip, sport, dport) = sport"

text \<open>The window of a socket that has received nothing yet.\<close>

definition in_first_window :: "tcp_cb \<Rightarrow> bool" where
  "in_first_window cb = is_tcp_seq_valid fresh_sock cb"

definition sp_find :: "spec \<Rightarrow> tcp_cb \<Rightarrow> addr option" where
  "sp_find s cb =
     (case sp_conns s (cb_daddr cb, cb_saddr cb, cb_dport cb, cb_sport cb) of
        None \<Rightarrow> sp_listeners s (cb_dport cb)
      | Some p \<Rightarrow> Some p)"

text \<open>What the receiving code makes of a packet: nothing, if the checksum is wrong.\<close>

definition read_at :: "nat \<Rightarrow> u8 list \<Rightarrow> tcp_cb option" where
  "read_at tcp pkt =
     (case (tcp_checksum pkt 14 tcp, rd16 pkt (tcp + 16), tcp_cb_init pkt 14 tcp) of
        (Inr c, Inr x, Inr cb) \<Rightarrow> if c = x then Some cb else None
      | _ \<Rightarrow> None)"

text \<open>The packets of this stack have an IP header without options.\<close>

definition read_back :: "u8 list \<Rightarrow> tcp_cb option" where
  "read_back pkt = read_at 34 pkt"

definition spec_connect :: "u32 \<Rightarrow> addr \<Rightarrow> sock_addr \<Rightarrow> spec \<Rightarrow> spec" where
  "spec_connect ip p a s =
     (case sp_socks s p of
        None \<Rightarrow> s
      | Some v \<Rightarrow>
          let k = peer_key ip a in
          (emit (segment_from k (v_nxt v) TCP_SYN)
            (on_sock p (\<lambda>v. v\<lparr>v_state := TCP_SYN_SENT, v_key := k, v_nxt := v_nxt v + of_bool (can_send s)\<rparr>) s))
          \<lparr>sp_conns := (if sp_conns s k = None then (sp_conns s)(k \<mapsto> p) else sp_conns s)\<rparr>)"

definition spec_close :: "addr \<Rightarrow> spec \<Rightarrow> spec" where
  "spec_close p s =
     (case sp_socks s p of
        None \<Rightarrow> s
      | Some v \<Rightarrow>
          if v_state v = TCP_ESTABLISHED
          then emit (segment_from (v_key v) (v_nxt v) TCP_FIN)
            (on_sock p (\<lambda>v. v\<lparr>v_state := TCP_FIN_WAIT_1, v_nxt := v_nxt v + of_bool (can_send s)\<rparr>) s)
          else s)"

definition spec_segment :: "tcp_cb \<Rightarrow> addr \<Rightarrow> spec \<Rightarrow> spec" where
  "spec_segment cb p s =
     (case sp_socks s p of
        None \<Rightarrow> s
      | Some v \<Rightarrow>
          if \<not> in_first_window cb then s
          else if cb_flags cb = TCP_RST \<and> v_state v = TCP_ESTABLISHED
          then spec_close p (emit (segment_from (v_key v) (v_nxt v) TCP_ACK) s)
          else if cb_flags cb = TCP_FIN \<and> v_state v = TCP_ESTABLISHED then spec_close p s
          else if v_state v = TCP_LISTEN then emit (reset_for cb) s
          else if v_state v = TCP_SYN_SENT
          then emit (segment_from (v_key v) (v_nxt v) TCP_ACK) (on_sock p (\<lambda>v. v\<lparr>v_state := TCP_ESTABLISHED\<rparr>) s)
          else s)"

definition spec_listen :: "addr \<Rightarrow> spec \<Rightarrow> spec" where
  "spec_listen p s =
     (case sp_socks s p of
        None \<Rightarrow> s
      | Some v \<Rightarrow>
          (on_sock p (\<lambda>v. v\<lparr>v_state := TCP_LISTEN\<rparr>) s)\<lparr>sp_listeners := (sp_listeners s)(local_port (v_key v) \<mapsto> p)\<rparr>)"

fun spec_step :: "u32 \<Rightarrow> spec \<Rightarrow> api_call \<Rightarrow> spec" where
  "spec_step ip s (Alloc p) = s\<lparr>sp_socks := (sp_socks s)(p \<mapsto> \<lparr>v_state = TCP_CLOSED, v_key = (0, 0, 0, 0), v_nxt = 0\<rparr>),
     sp_mem := drop 6 (sp_mem s)\<rparr>"
| "spec_step ip s (Bind p a) = on_sock p (\<lambda>v. v\<lparr>v_key := with_port (chosen_port (ntohs (sa_port a))) (v_key v)\<rparr>) s"
| "spec_step ip s (Listen p n) = spec_listen p s"
| "spec_step ip s (Connect p a) = spec_connect ip p a s"
| "spec_step ip s (Close p) = spec_close p s"
| "spec_step ip s (Segment tcp pkt) =
     (case read_at tcp pkt of
        None \<Rightarrow> s
      | Some cb \<Rightarrow> (case sp_find s cb of None \<Rightarrow> s | Some p \<Rightarrow> spec_segment cb p s))"
| "spec_step ip s c = s"

section \<open>What a state of the stack shows\<close>

definition sock_at :: "addr res \<Rightarrow> addr option" where
  "sock_at r = (case r of Inl e \<Rightarrow> None | Inr p \<Rightarrow> if p = 0 then None else Some p)"

fun conns :: "stack \<Rightarrow> key \<Rightarrow> addr option" where
  "conns st (sip, dip, sport, dport) = sock_at (tcp_sock_lookup_established st sip dip sport dport)"

definition listeners :: "stack \<Rightarrow> u16 \<Rightarrow> addr option" where
  "listeners st port = sock_at (tcp_sock_lookup_listen st 0 port)"

definition view_sock :: "tcp_sock \<Rightarrow> sock_view" where
  "view_sock sk = \<lparr>v_state = sk_state sk, v_key = sock_key sk, v_nxt = snd_nxt sk\<rparr>"

definition view :: "stack \<Rightarrow> spec" where
  "view st = \<lparr>sp_socks = (\<lambda>p. map_option view_sock (socks st p)), sp_conns = conns st, sp_listeners = listeners st,
     sp_mem = map (\<lambda>m. fst m \<noteq> 0) (mallocs st), sp_out = map read_back (sent st)\<rparr>"

lemma conns_iff:
  assumes "stack_ok st F"
  shows "conns st k = Some q \<longleftrightarrow> connected st F k q"
proof -
  obtain a b c d where k: "k = (a, b, c, d)" by (cases k)
  obtain p where p: "tcp_sock_lookup_established st a b c d = Inr p" "\<forall>q. connected st F (a, b, c, d) q \<longleftrightarrow> q = p \<and> p \<noteq> 0"
    using lookup_established_iff [OF assms] by blast
  have "conns st k = (if p = 0 then None else Some p)" by (simp add: k p(1) sock_at_def)
  moreover have "connected st F k q \<longleftrightarrow> q = p \<and> p \<noteq> 0" unfolding k by (rule spec [OF p(2)])
  ultimately show ?thesis by (cases "p = 0") auto
qed

lemma conns_eqI:
  "stack_ok st F \<Longrightarrow> stack_ok st' F' \<Longrightarrow> (\<And>k q. connected st' F' k q = connected st F k q) \<Longrightarrow> conns st' = conns st"
proof
  fix k
  assume "stack_ok st F" "stack_ok st' F'" "\<And>k q. connected st' F' k q = connected st F k q"
  then have "conns st' k = Some q \<longleftrightarrow> conns st k = Some q" for q by (simp add: conns_iff)
  then show "conns st' k = conns st k" by (cases "conns st k"; cases "conns st' k") auto
qed

text \<open>A step that changes one socket shows in the tables only if the socket's key changes.\<close>

lemma tables_upd:
  assumes ok: "stack_ok st F" "stack_ok st' F'" and S: "socks st' = (socks st)(p \<mapsto> sk')"
    and key: "hashed F p \<longrightarrow> map_option sock_key (socks st p) = Some (sock_key sk')"
  shows "\<forall>l\<in>est_heads. F' l = F l \<Longrightarrow> conns st' = conns st"
    and "\<forall>l\<in>listen_heads. F' l = F l \<Longrightarrow> listeners st' = listeners st"
proof -
  have hashed: "linked F H (p + OFF_hash_list) \<Longrightarrow> H \<subseteq> hash_heads \<Longrightarrow> hashed F p" for H
    by (auto simp: hashed_def linked_def)
  show "conns st' = conns st" if F: "\<forall>l\<in>est_heads. F' l = F l"
  proof (rule conns_eqI [OF ok])
    fix k q
    have "linked F' est_heads m = linked F est_heads m" for m using F by (auto simp: linked_def)
    with S key hashed [of est_heads] show "connected st' F' k q = connected st F k q"
      by (auto simp: connected_def hash_heads_split)
  qed
  show "listeners st' = listeners st" if "\<forall>l\<in>listen_heads. F' l = F l"
  proof
    fix port
    have "tcp_sock_lookup_listen st' 0 port = tcp_sock_lookup_listen st 0 port"
    proof (rule lookup_listen_same [OF ok that], intro allI impI)
      fix q assume q: "linked F listen_heads (q + OFF_hash_list)"
      show "map_option sk_sport (socks st' q) = map_option sk_sport (socks st q)"
        using q S key hashed [of listen_heads] by (auto simp: hash_heads_split sock_key_def)
    qed
    then show "listeners st' port = listeners st port" by (simp add: listeners_def)
  qed
qed

text \<open>Sending, as it shows.\<close>

lemma read_back_received: "received pkt cb \<Longrightarrow> read_back pkt = Some cb"
  by (auto simp: received_def read_back_def read_at_def)

lemma view_emitted:
  assumes "emitted st cb st'"
  shows "sp_mem (view st') = tl (sp_mem (view st))"
    "sp_out (view st') = sp_out (view st) @ (if can_send (view st) then [Some cb] else [])"
  using assms read_back_received
  by (auto simp: emitted_def view_def can_send_def map_tl hd_map split: if_splits)

lemma can_send_view: "can_send (view st) \<longleftrightarrow> mallocs st \<noteq> [] \<and> fst (List.hd (mallocs st)) \<noteq> 0"
  by (auto simp: can_send_def view_def hd_map)

lemma next_seq_view:
  "flags AND (TCP_SYN OR TCP_FIN) \<noteq> 0 \<Longrightarrow> next_seq st n flags = n + of_bool (can_send (view st))"
  by (auto simp: next_seq_def can_send_view)

lemma view_simps [simp]:
  "sp_socks (view st) p = map_option view_sock (socks st p)" "sp_conns (view st) = conns st" "sp_listeners (view st) = listeners st"
  by (simp_all add: view_def)

text \<open>Two views are compared field by field.\<close>

lemma view_eqI:
  "sp_socks (view st) = sp_socks s \<Longrightarrow> conns st = sp_conns s \<Longrightarrow> listeners st = sp_listeners s \<Longrightarrow>
   sp_mem (view st) = sp_mem s \<Longrightarrow> sp_out (view st) = sp_out s \<Longrightarrow> view st = s"
  by (cases s) (simp add: view_def)

lemma view_upd_sock:
  "socks st' = (socks st)(p \<mapsto> sk) \<Longrightarrow> sp_socks (view st') = (sp_socks (view st))(p \<mapsto> view_sock sk)"
  by (auto simp: view_def)

lemma sp_find_view:
  assumes ok: "stack_ok st F" and lk: "tcp_sock_lookup st cb = Inr p" and p: "socks st p = Some sk"
  shows "sp_find (view st) cb = Some p"
proof -
  let ?k = "(cb_daddr cb, cb_saddr cb, cb_dport cb, cb_sport cb)"
  have l: "tcp_sock_lookup_listen st (cb_daddr cb) (cb_dport cb) = Inr p \<Longrightarrow> tcp_sock_lookup_listen st 0 (cb_dport cb) = Inr p"
    by (simp add: tcp_sock_lookup_listen_def)
  obtain e where "tcp_sock_lookup_established st (cb_daddr cb) (cb_saddr cb) (cb_dport cb) (cb_sport cb) = Inr e"
    using lookup_established_iff [OF ok] by blast
  then show ?thesis using lk l sock_nonzero [OF ok p]
    by (auto simp: tcp_sock_lookup_def sp_find_def listeners_def sock_at_def Let_def split: if_splits)
qed

text \<open>Nothing is open at the start.\<close>

definition spec_start :: "bool list \<Rightarrow> spec" where
  "spec_start mem = \<lparr>sp_socks = Map.empty, sp_conns = Map.empty, sp_listeners = Map.empty, sp_mem = mem, sp_out = []\<rparr>"

lemma view_start:
  assumes ok: "stack_ok st F" and none: "socks st = Map.empty" "sent st = []"
  shows "view st = spec_start (map (\<lambda>m. fst m \<noteq> 0) (mallocs st))"
proof -
  have "conns st k = None" for k using conns_iff [OF ok, of k] none(1) by (auto simp: connected_def)
  moreover have "listeners st port = None" for port
    using lookup_listen_iff [OF ok, of 0 port] none(1) by (auto simp: listeners_def sock_at_def listening_def)
  ultimately show ?thesis using none by (simp add: view_def spec_start_def fun_eq_iff)
qed

section \<open>What is sent\<close>

text \<open>
  Resets apart, a segment is a single SYN, ACK or FIN without data; its sequence number is zero
  or one, and it acknowledges nothing.
\<close>

definition quiet :: "tcp_cb \<Rightarrow> bool" where
  "quiet cb \<longleftrightarrow> cb_pl_len cb = 0 \<and>
     (cb_flags cb = TCP_RST OR TCP_ACK \<or> cb_flags cb \<in> {TCP_SYN, TCP_ACK, TCP_FIN} \<and> cb_seq cb \<in> {0, 1} \<and> cb_ack cb = 0)"

definition young :: "sock_view \<Rightarrow> bool" where
  "young v \<longleftrightarrow> v_state v = TCP_FIN_WAIT_1 \<or> v_nxt v = 0 \<or> v_nxt v = 1 \<and> v_state v \<noteq> TCP_CLOSED"

definition quiet_spec :: "spec \<Rightarrow> bool" where
  "quiet_spec s \<longleftrightarrow> (\<forall>x\<in>set (sp_out s). \<exists>cb. x = Some cb \<and> quiet cb) \<and> (\<forall>p v. sp_socks s p = Some v \<longrightarrow> young v)"

lemma quiet_reset: "quiet (reset_for cb)"
  by (simp add: quiet_def reset_for_def cb_of_def)

lemma quiet_segment: "flags \<in> {TCP_SYN, TCP_ACK, TCP_FIN} \<Longrightarrow> sq \<in> {0, 1} \<Longrightarrow> quiet (segment_from k sq flags)"
  by (cases k) (auto simp: quiet_def cb_of_def)

lemma quiet_emit: "quiet_spec s \<Longrightarrow> quiet cb \<Longrightarrow> quiet_spec (emit cb s)"
  by (auto simp: quiet_spec_def emit_def)

lemma quiet_on_sock: "quiet_spec s \<Longrightarrow> (\<And>v. sp_socks s p = Some v \<Longrightarrow> young (f v)) \<Longrightarrow> quiet_spec (on_sock p f s)"
  by (auto simp: quiet_spec_def on_sock_def)

lemma quiet_young: "quiet_spec s \<Longrightarrow> sp_socks s p = Some v \<Longrightarrow> young v"
  by (simp add: quiet_spec_def)

lemma quiet_tables [simp]: "quiet_spec (s\<lparr>sp_conns := C\<rparr>) = quiet_spec s" "quiet_spec (s\<lparr>sp_listeners := L\<rparr>) = quiet_spec s"
  by (simp_all add: quiet_spec_def)

lemma quiet_spec_close: "quiet_spec s \<Longrightarrow> quiet_spec (spec_close p s)"
  by (auto simp: spec_close_def young_def dest: quiet_young intro!: quiet_emit quiet_on_sock quiet_segment split: option.splits)

lemma quiet_spec_segment: "quiet_spec s \<Longrightarrow> quiet_spec (spec_segment cb p s)"
  by (auto simp: spec_segment_def young_def dest: quiet_young
      intro!: quiet_spec_close quiet_emit quiet_reset quiet_on_sock quiet_segment split: option.splits)

lemma quiet_spec_connect:
  assumes "quiet_spec s" "sp_socks s p = Some v" "v_state v = TCP_CLOSED"
  shows "quiet_spec (spec_connect ip p a s)"
proof -
  have "v_nxt v = 0" using quiet_young [OF assms(1,2)] assms(3) by (auto simp: young_def)
  then show ?thesis using assms(1,2)
    by (auto simp: spec_connect_def Let_def young_def intro!: quiet_emit quiet_on_sock quiet_segment)
qed

lemma quiet_spec_listen:
  assumes "quiet_spec s" "sp_socks s p = Some v" "v_state v = TCP_CLOSED"
  shows "quiet_spec (spec_listen p s)"
proof -
  have "v_nxt v = 0" using quiet_young [OF assms(1,2)] assms(3) by (auto simp: young_def)
  then show ?thesis using assms(1,2) by (auto simp: spec_listen_def young_def intro!: quiet_on_sock)
qed

end
