(* ===== verification/Tcp_Apps.thy ===== *)
theory Tcp_Apps
  imports Tcp_In
begin

text \<open>
  The two applications of \<^verbatim>\<open>tcp_apps.c\<close>. Each thread is cut at the call in which it may
  sleep: \<open>tcp_server_start\<close> and \<open>tcp_client_start\<close> run up to the return or the sleep of
  \<^verbatim>\<open>tcp_sock_accept\<close> and \<^verbatim>\<open>tcp_sock_connect\<close>, \<open>tcp_server_serve\<close> and
  \<open>tcp_client_send\<close> are the rest. A file is the list of its bytes; \<open>None\<close> or \<open>False\<close> stands
  for a failed \<^verbatim>\<open>fopen\<close>, whose result is not tested.
\<close>

definition BUF_SIZE :: int where "BUF_SIZE = 1000"

definition tcp_server_start :: "stack \<Rightarrow> u16 \<Rightarrow> (addr call \<times> addr \<times> stack) res" where
  "tcp_server_start st port =
     rbind (open_server st \<lparr>sa_ip = htonl 0, sa_port = port\<rparr> 3) (\<lambda>(tsk, st).
     rbind (tcp_sock_accept st tsk) (\<lambda>(csk, st). Inr (csk, tsk, st)))"

text \<open>
  The loop: \<open>rbuf\<close> is the local buffer, \<open>written\<close> what has gone to the file. \<^verbatim>\<open>fwrite\<close>
  reads as many bytes of the buffer as \<^verbatim>\<open>tcp_sock_read\<close> returned.
\<close>

partial_function (option) server_loop ::
  "bool \<Rightarrow> stack \<Rightarrow> addr \<Rightarrow> u8 list \<Rightarrow> u8 list \<Rightarrow> (u8 list \<times> stack) res option" where
  "server_loop opened st csk rbuf written =
     (case tcp_sock_read st csk BUF_SIZE of
        Inl e \<Rightarrow> Some (Inl e)
      | Inr r \<Rightarrow>
          (let rlen = fst r; buf = blit rbuf 0 (fst (snd r)); st' = snd (snd r) in
           if rlen = 0 then Some (if opened then Inr (written, st') else Inl Wild_Pointer)
           else if rlen > 0 then
             (if \<not> opened then Some (Inl Wild_Pointer)
              else case rd_bytes buf 0 rlen of
                Inl e \<Rightarrow> Some (Inl e)
              | Inr bytes \<Rightarrow> server_loop opened st' csk buf (written @ bytes))
           else server_loop opened st' csk buf written))"

definition tcp_server_serve :: "ip_init \<Rightarrow> bool \<Rightarrow> stack \<Rightarrow> addr \<Rightarrow> u8 list \<Rightarrow> (u8 list \<times> stack) res" where
  "tcp_server_serve ip_init_hdr opened st csk rbuf =
     rbind (of_loop (server_loop opened st csk rbuf [])) (\<lambda>(written, st).
     rbind (tcp_sock_close ip_init_hdr st csk) (\<lambda>st. Inr (written, st)))"

definition tcp_client_start ::
  "ip_init \<Rightarrow> addr \<Rightarrow> u32 option \<Rightarrow> stack \<Rightarrow> sock_addr \<Rightarrow> (int call \<times> addr \<times> stack) res" where
  "tcp_client_start ip_init_hdr iface_list beyond st skaddr =
     rbind (alloc_tcp_sock st) (\<lambda>(tsk, st).
     rbind (tcp_sock_connect ip_init_hdr iface_list beyond st tsk skaddr) (\<lambda>(r, st).
     case r of
       Done err \<Rightarrow> if err < 0 then Inl (Exit 1) else Inr (r, tsk, st)
     | Asleep \<Rightarrow> Inr (r, tsk, st)))"

text \<open>
  The loop of the client, over the function \<open>sock_write\<close> it calls for every block it has read.
  \<open>data\<close> is the rest of the file; \<^verbatim>\<open>fread\<close> sets the end-of-file indicator, which
  \<^verbatim>\<open>feof\<close> reads, when it comes to the end before the block is full.
\<close>

function client_loop ::
  "(stack \<Rightarrow> addr \<Rightarrow> u8 list \<Rightarrow> int \<Rightarrow> stack res) \<Rightarrow> bool \<Rightarrow> stack \<Rightarrow> addr \<Rightarrow> u8 list \<Rightarrow> stack res" where
  "client_loop sock_write eof st tsk data =
     (if eof then Inr st
      else
        let buf = take 1000 data; ret_size = int (length buf) in
        rbind (sock_write st tsk buf ret_size) (\<lambda>st.
        if ret_size < BUF_SIZE then Inr st
        else client_loop sock_write (length data < 1000) st tsk (drop 1000 data)))"
  by pat_completeness auto
termination
  by (relation "measure (\<lambda>(sock_write, eof, st, tsk, data). length data)") (auto simp: BUF_SIZE_def)

declare client_loop.simps [simp del]

definition tcp_client_send :: "ip_init \<Rightarrow> u8 list option \<Rightarrow> stack \<Rightarrow> addr \<Rightarrow> stack res" where
  "tcp_client_send ip_init_hdr data st tsk =
     (case data of
        None \<Rightarrow> Inl Wild_Pointer
      | Some bytes \<Rightarrow> rbind (client_loop tcp_sock_write False st tsk bytes) (\<lambda>st. tcp_sock_close ip_init_hdr st tsk))"

section \<open>Properties\<close>

text \<open>Calling \<open>sock_write\<close> for one block after the other, until one call faults.\<close>

definition write_blocks :: "(stack \<Rightarrow> addr \<Rightarrow> u8 list \<Rightarrow> int \<Rightarrow> stack res) \<Rightarrow> addr \<Rightarrow> u8 list list \<Rightarrow> stack \<Rightarrow> stack res" where
  "write_blocks sock_write tsk bs st = foldl (\<lambda>r b. rbind r (\<lambda>st. sock_write st tsk b (int (length b)))) (Inr st) bs"

lemma foldl_fault: "foldl (\<lambda>r b. rbind r (f b)) (Inl e) bs = Inl e"
  by (induction bs) simp_all

lemma write_blocks_simps [simp]:
  "write_blocks sock_write tsk [] st = Inr st"
  "write_blocks sock_write tsk (b # bs) st = rbind (sock_write st tsk b (int (length b))) (write_blocks sock_write tsk bs)"
  by (cases "sock_write st tsk b (int (length b))"; simp add: write_blocks_def foldl_fault)+

lemma client_loop_blocks:
  "\<exists>bs. concat bs = data \<and> map length bs = replicate (length data div 1000) 1000 @ [length data mod 1000] \<and>
    (\<forall>st. client_loop sock_write False st tsk data = write_blocks sock_write tsk bs st)"
proof (induction "length data" arbitrary: data rule: less_induct)
  case less
  show ?case
  proof (cases "length data < 1000")
    case True
    then have "client_loop sock_write False st tsk data = write_blocks sock_write tsk [data] st" for st
      by (subst client_loop.simps) (simp add: BUF_SIZE_def rbind_def split: sum.splits)
    with True show ?thesis by (intro exI [of _ "[data]"]) simp
  next
    case False
    then have "length (drop 1000 data) < length data" by simp
    from less [OF this] obtain bs where bs: "concat bs = drop 1000 data"
      "map length bs = replicate ((length data - 1000) div 1000) 1000 @ [(length data - 1000) mod 1000]"
      "\<forall>st. client_loop sock_write False st tsk (drop 1000 data) = write_blocks sock_write tsk bs st" by (simp only: length_drop) blast
    have "client_loop sock_write False st tsk data = write_blocks sock_write tsk (take 1000 data # bs) st" for st
      using False bs(3) by (subst client_loop.simps) (simp add: BUF_SIZE_def min_def del: drop_all take_all cong del: rbind_cong)
    moreover have "length data div 1000 = Suc ((length data - 1000) div 1000)" "(length data - 1000) mod 1000 = length data mod 1000"
      using False by (simp_all add: le_div_geq le_mod_geq)
    ultimately show ?thesis using False bs(1,2) by (intro exI [of _ "take 1000 data # bs"]) (simp add: min_def)
  qed
qed

text \<open>
  C38: The client hands over its whole file. For every file and whatever \<open>sock_write\<close> does, the loop
  of \<^verbatim>\<open>tcp_client\<close> calls it for consecutive blocks that together are the file, in order: as
  many blocks of 1000 bytes as fit and one last, shorter and possibly empty block. It stops
  early only at a call that faults. With the \<^verbatim>\<open>tcp_sock_write\<close> of the program, which
  is empty, the thread then only closes the socket: no byte of the file is sent.
\<close>

theorem client_hands_over_file:
  "(\<exists>bs. concat bs = data \<and> map length bs = replicate (length data div 1000) 1000 @ [length data mod 1000] \<and>
     client_loop sock_write False st tsk data = foldl (\<lambda>r b. rbind r (\<lambda>st. sock_write st tsk b (int (length b)))) (Inr st) bs) \<and>
   tcp_client_send f (Some data) st tsk = tcp_sock_close f st tsk"
proof
  show "\<exists>bs. concat bs = data \<and> map length bs = replicate (length data div 1000) 1000 @ [length data mod 1000] \<and>
     client_loop sock_write False st tsk data = foldl (\<lambda>r b. rbind r (\<lambda>st. sock_write st tsk b (int (length b)))) (Inr st) bs"
    using client_loop_blocks [of data sock_write tsk] unfolding write_blocks_def by blast
  have "write_blocks tcp_sock_write tsk bs st = Inr st" for bs by (induction bs) (simp_all add: tcp_sock_write_def)
  then have "client_loop tcp_sock_write False st tsk data = Inr st" using client_loop_blocks [of data tcp_sock_write tsk] by metis
  then show "tcp_client_send f (Some data) st tsk = tcp_sock_close f st tsk" by (simp add: tcp_client_send_def)
qed

text \<open>
  C39: The server writes memory that is not its buffer to the file. As
  \<^verbatim>\<open>tcp_sock_read\<close> returns the window, the first round of the loop of
  \<^verbatim>\<open>tcp_server\<close> already asks \<^verbatim>\<open>fwrite\<close> for more than the 1000 bytes of the buffer
  whenever the window is larger, whether data has arrived or not.
\<close>

theorem server_loop_overreads:
  assumes "socks st csk = Some sk" and "rb_inv (rcv_buf sk)" and "length rbuf = 1000"
    and "1000 < unat (rcv_wnd sk + word_of_nat (min (length (rb_contents (rcv_buf sk))) 1000))"
  shows "server_loop True st csk rbuf written = Some (Inl Out_Of_Bounds)"
proof -
  let ?k = "min (length (rb_contents (rcv_buf sk))) 1000"
  obtain b' where "read_ring_buffer (rcv_buf sk) 1000 = Inr (int ?k, take ?k (rb_contents (rcv_buf sk)), b')"
    using rb.rd_law [OF assms(2), of 1000 ?k] by auto
  with assms(1) obtain st' where read: "tcp_sock_read st csk 1000 =
      Inr (int (unat (rcv_wnd sk + word_of_nat ?k)), take ?k (rb_contents (rcv_buf sk)), st')"
    by (simp add: tcp_sock_read_def Let_def)
  have "length (blit rbuf 0 (take ?k (rb_contents (rcv_buf sk)))) = 1000"
    using assms(3) by (subst length_blit) simp_all
  with assms(4) have "rd_bytes (blit rbuf 0 (take ?k (rb_contents (rcv_buf sk)))) 0
      (int (unat (rcv_wnd sk + word_of_nat ?k))) = Inl Out_Of_Bounds"
    unfolding rd_bytes_def by (simp del: of_nat_unat)
  with read assms(4) show ?thesis
    by (subst server_loop.simps) (simp add: BUF_SIZE_def Let_def del: of_nat_unat)
qed

theorem server_loop_overreads_witness:
  "server_loop True ((boot [])\<lparr>socks := [20480 \<mapsto> fresh_sock]\<rparr>) 20480 (replicate 1000 0) [] = Some (Inl Out_Of_Bounds)"
proof -
  have "rb_inv (rcv_buf fresh_sock)" "rb_contents (rcv_buf fresh_sock) = []"
    by (simp_all add: fresh_sock_def rb_alloc_law TCP_DEFAULT_WINDOW_def)
  moreover have "rcv_wnd fresh_sock = 65535" by (simp add: fresh_sock_def TCP_DEFAULT_WINDOW_def)
  ultimately show ?thesis
    using server_loop_overreads [of "(boot [])\<lparr>socks := [20480 \<mapsto> fresh_sock]\<rparr>" 20480 fresh_sock "replicate 1000 0" "[]"]
    by simp
qed

end
