(* ===== verification/Tcp_Runs.thy ===== *)
theory Tcp_Runs
  imports Tcp_Spec Tcp_Apps
begin

text \<open>
  Runs of the stack: the application threads call the socket functions, the main thread hands in
  segments and the timer thread scans, in any order. \<open>api_step\<close> is one such call. \<open>admissible\<close>
  is the way the code may be used without running into its known faults: a socket is bound,
  listened on, connected and closed once and in this order, a listener is not closed, and
  segments find a socket; a bare RST or FIN finds it established and not closed yet, and no SYN
  arrives at a listener. Under
  this discipline the stack stays sound for ever, every call returns, and the stack shows the
  behaviour of the specification in \<open>Tcp_Spec\<close>.
\<close>

section \<open>Machines that keep an invariant and refine another\<close>

fun run :: "('s \<Rightarrow> 'c \<Rightarrow> 's res) \<Rightarrow> 's \<Rightarrow> 'c list \<Rightarrow> 's res" where
  "run step s [] = Inr s"
| "run step s (c # cs) = rbind (step s c) (\<lambda>s. run step s cs)"

fun obeys :: "('s \<Rightarrow> 'c \<Rightarrow> bool) \<Rightarrow> ('s \<Rightarrow> 'c \<Rightarrow> 's res) \<Rightarrow> 's \<Rightarrow> 'c list \<Rightarrow> bool" where
  "obeys ok step s [] \<longleftrightarrow> True"
| "obeys ok step s (c # cs) \<longleftrightarrow> ok s c \<and> (case step s c of Inl e \<Rightarrow> True | Inr s' \<Rightarrow> obeys ok step s' cs)"

locale safe_machine =
  fixes inv :: "'s \<Rightarrow> bool" and ok :: "'s \<Rightarrow> 'c \<Rightarrow> bool" and step :: "'s \<Rightarrow> 'c \<Rightarrow> 's res"
  assumes step_safe: "inv s \<Longrightarrow> ok s c \<Longrightarrow> \<exists>s'. step s c = Inr s' \<and> inv s'"
begin

lemma run_safe: "inv s \<Longrightarrow> obeys ok step s cs \<Longrightarrow> \<exists>s'. run step s cs = Inr s' \<and> inv s'"
proof (induction cs arbitrary: s)
  case (Cons c cs)
  from step_safe [of s c] Cons.prems obtain s' where "step s c = Inr s'" "inv s'" by auto
  with Cons.IH [of s'] Cons.prems(2) show ?case by auto
qed simp

end

locale refining_machine = safe_machine inv ok step
  for inv :: "'s \<Rightarrow> bool" and ok :: "'s \<Rightarrow> 'c \<Rightarrow> bool" and step :: "'s \<Rightarrow> 'c \<Rightarrow> 's res" +
  fixes seen :: "'s \<Rightarrow> 'a" and aim :: "'a \<Rightarrow> 'c \<Rightarrow> 'a"
  assumes step_refines: "inv s \<Longrightarrow> ok s c \<Longrightarrow> step s c = Inr s' \<Longrightarrow> seen s' = aim (seen s) c"
begin

lemma run_refines: "inv s \<Longrightarrow> obeys ok step s cs \<Longrightarrow> run step s cs = Inr s' \<Longrightarrow> seen s' = foldl aim (seen s) cs"
proof (induction cs arbitrary: s)
  case (Cons c cs)
  from step_safe [of s c] Cons.prems obtain s1 where s1: "step s c = Inr s1" "inv s1" by auto
  with Cons.IH [of s1] Cons.prems step_refines [OF _ _ s1(1)] show ?case by auto
qed simp

end

section \<open>Calls\<close>

fun api_step :: "ip_init \<Rightarrow> addr \<Rightarrow> u32 option \<Rightarrow> stack \<Rightarrow> api_call \<Rightarrow> stack res" where
  "api_step f il beyond st (Alloc p) = rbind (alloc_tcp_sock st) (\<lambda>(_, st). Inr st)"
| "api_step f il beyond st (Bind p a) = rbind (tcp_sock_bind st p a) (\<lambda>(_, st). Inr st)"
| "api_step f il beyond st (Listen p n) = rbind (tcp_sock_listen st p n) (\<lambda>(_, st). Inr st)"
| "api_step f il beyond st (Connect p a) = rbind (tcp_sock_connect f il beyond st p a) (\<lambda>(_, st). Inr st)"
| "api_step f il beyond st (Connect_Resume p) = rbind (tcp_sock_connect_resume st p) (\<lambda>(_, st). Inr st)"
| "api_step f il beyond st (Accept p) = rbind (tcp_sock_accept st p) (\<lambda>(_, st). Inr st)"
| "api_step f il beyond st (Read p n) = rbind (tcp_sock_read st p n) (\<lambda>(_, _, st). Inr st)"
| "api_step f il beyond st (Write p bs) = tcp_sock_write st p bs (int (length bs))"
| "api_step f il beyond st (Close p) = tcp_sock_close f st p"
| "api_step f il beyond st (Segment tcp pkt) = handle_tcp_packet f st pkt 14 tcp"
| "api_step f il beyond st Timer_Start = on_nodes st (\<lambda>h. init_list_head h timer_list)"
| "api_step f il beyond st Timer_Scan = tcp_scan_timer_list st"

text \<open>A socket that has been allocated and not used yet.\<close>

definition unused :: "stack \<Rightarrow> addr \<Rightarrow> bool" where
  "unused st p \<longleftrightarrow> (case socks st p of None \<Rightarrow> False | Some sk \<Rightarrow> sk_state sk = TCP_CLOSED \<and> sk_sport sk = 0)"

definition closed :: "stack \<Rightarrow> addr \<Rightarrow> bool" where
  "closed st p \<longleftrightarrow> (case socks st p of None \<Rightarrow> False | Some sk \<Rightarrow> sk_state sk = TCP_CLOSED)"

text \<open>A socket that can be closed: it is not open, or a connection that holds both references.\<close>

definition closable :: "stack \<Rightarrow> addr \<Rightarrow> bool" where
  "closable st p \<longleftrightarrow> (case socks st p of None \<Rightarrow> False
     | Some sk \<Rightarrow> sk_state sk = TCP_CLOSED \<or> sk_state sk = TCP_ESTABLISHED \<and> ref_cnt sk = 2)"

text \<open>
  A segment the stack can take: its checksum is wrong, or it finds a socket whose state machine
  handles it. Outside the window everything is dropped; inside, a bare RST or FIN closes the
  socket, which works for a connection that holds both references, and a SYN must not come to
  a listener.
\<close>

definition handled :: "tcp_sock \<Rightarrow> tcp_cb \<Rightarrow> bool" where
  "handled sk cb \<longleftrightarrow> \<not> is_tcp_seq_valid sk cb \<or>
     (if cb_flags cb \<in> {TCP_RST, TCP_FIN} then sk_state sk = TCP_ESTABLISHED \<and> ref_cnt sk = 2
      else \<not> (sk_state sk = TCP_LISTEN \<and> cb_flags cb = TCP_SYN))"

definition harmless :: "stack \<Rightarrow> nat \<Rightarrow> u8 list \<Rightarrow> bool" where
  "harmless st tcp pkt \<longleftrightarrow>
     rbind (tcp_checksum pkt 14 tcp) (\<lambda>c.
     rbind (rd16 pkt (tcp + 16)) (\<lambda>field.
     if c \<noteq> field then Inr True
     else
       rbind (tcp_cb_init pkt 14 tcp) (\<lambda>cb.
       rbind (tcp_sock_lookup st cb) (\<lambda>p.
       rbind (rd_sock st p) (\<lambda>sk.
       Inr (handled sk cb)))))) = Inr True"

text \<open>The timer thread scans only after it has initialised its list.\<close>

definition timers_ready :: "stack \<Rightarrow> bool" where
  "timers_ready st \<longleftrightarrow> nodes st timer_list = Some \<lparr>nxt = timer_list, prv = timer_list\<rparr>"

fun admissible :: "stack \<Rightarrow> api_call \<Rightarrow> bool" where
  "admissible st (Alloc p) = alloc_ready st p"
| "admissible st (Bind p a) = unused st p"
| "admissible st (Listen p n) = closed st p"
| "admissible st (Connect p a) = unused st p"
| "admissible st (Connect_Resume p) = (socks st p \<noteq> None)"
| "admissible st (Accept p) = (socks st p \<noteq> None)"
| "admissible st (Read p n) = (socks st p \<noteq> None \<and> 0 \<le> n)"
| "admissible st (Write p bs) = True"
| "admissible st (Close p) = closable st p"
| "admissible st (Segment tcp pkt) = harmless st tcp pkt"
| "admissible st Timer_Start = (nodes st timer_list \<noteq> None)"
| "admissible st Timer_Scan = timers_ready st"

section \<open>The invariant of runs\<close>

text \<open>
  The tables are sound, the interfaces are still listed, nobody waits in an accept queue and no
  timer is set; and each socket is live: it has no parent, has got at most to
  \<^verbatim>\<open>TCP_FIN_WAIT_1\<close>, in particular never to \<^verbatim>\<open>TCP_SYN_RECV\<close>, and has received nothing.
\<close>

definition sock_live :: "tcp_sock \<Rightarrow> bool" where
  "sock_live sk \<longleftrightarrow> sk_parent sk = 0 \<and>
     sk_state sk \<in> {TCP_CLOSED, TCP_LISTEN, TCP_SYN_SENT, TCP_ESTABLISHED, TCP_FIN_WAIT_1} \<and>
     rcv_nxt sk = 0 \<and> rcv_wnd sk = 65535 \<and> rb_inv (rcv_buf sk) \<and> rb_contents (rcv_buf sk) = [] \<and>
     sw_dead (wait_accept sk) = 0 \<and> sw_notified (wait_accept sk) = 0"

definition ghost_ok :: "addr \<Rightarrow> addr list \<Rightarrow> (addr \<Rightarrow> addr list option) \<Rightarrow> stack \<Rightarrow> bool" where
  "ghost_ok il ifs F st \<longleftrightarrow> stack_ok st F \<and> F il = Some ifs \<and>
     (\<forall>p\<in>dom (socks st). F (p + OFF_accept_queue) = Some []) \<and> (F timer_list = Some [] \<or> timer_list \<notin> footprint F)"

definition sound :: "addr \<Rightarrow> addr list \<Rightarrow> stack \<Rightarrow> bool" where
  "sound il ifs st \<longleftrightarrow> (\<exists>F. ghost_ok il ifs F st) \<and> il \<notin> hash_heads \<union> bind_heads \<union> {timer_list} \<and>
     (\<forall>p sk. socks st p = Some sk \<longrightarrow> sock_live sk)"

lemma ghost_okD: "ghost_ok il ifs F st \<Longrightarrow> stack_ok st F" "ghost_ok il ifs F st \<Longrightarrow> F il = Some ifs"
  by (simp_all add: ghost_ok_def)

lemma soundE:
  assumes "sound il ifs st"
  obtains F where "ghost_ok il ifs F st" "il \<notin> hash_heads \<union> bind_heads \<union> {timer_list}"
  using assms unfolding sound_def by blast

lemma sound_stackE:
  assumes "sound il ifs st"
  obtains F where "stack_ok st F" "F il = Some ifs"
  using assms unfolding sound_def ghost_ok_def by blast

lemma sound_live: "sound il ifs st \<Longrightarrow> socks st p = Some sk \<Longrightarrow> sock_live sk"
  by (simp add: sound_def)

lemma fresh_live [simp]: "sock_live fresh_sock"
  by (simp add: sock_live_def fresh_sock_def TCP_DEFAULT_WINDOW_def alloc_wait_struct_def wait_init_def rb_alloc_law)

lemma live_window: "sock_live sk \<Longrightarrow> is_tcp_seq_valid sk cb = in_first_window cb"
  by (simp add: sock_live_def in_first_window_def is_tcp_seq_valid_def fresh_sock_def TCP_DEFAULT_WINDOW_def)

text \<open>What lies in the tables are nodes of sockets, and these are not where the timer list is.\<close>

lemma timer_list_apart:
  assumes ok: "stack_ok st' F'" and same: "\<forall>l. l \<notin> hash_heads \<union> bind_heads \<longrightarrow> F' l = F l"
    and new: "timer_list \<notin> footprint F"
  shows "timer_list \<notin> footprint F'"
proof
  assume "timer_list \<in> footprint F'"
  then obtain l xs where l: "F' l = Some xs" "timer_list = l \<or> timer_list \<in> set xs" by (auto simp: footprint_def)
  show False
  proof (cases "l \<in> hash_heads \<union> bind_heads")
    case True
    then have "timer_list \<in> set xs" using l(2) heads_low [of l] by auto
    with True l(1) obtain p where "p \<in> dom (socks st')" "timer_list = p + OFF_hash_list \<or> timer_list = p + OFF_bind_hash_list"
      using bucket_member stack_okD(1) [OF ok] unfolding mem_ok_def by (metis Un_iff diff_add_cancel)
    with mem_ok_low [OF stack_okD(1) [OF ok]] show False by (fastforce simp: statics offsets)
  next
    case False
    with same l new show False by (auto simp: footprint_def)
  qed
qed

lemma ghost_upd:
  assumes g: "ghost_ok il ifs F st" and il: "il \<notin> hash_heads \<union> bind_heads \<union> {timer_list}"
    and ok: "stack_ok st' F'" and same: "\<forall>l. l \<notin> hash_heads \<union> bind_heads \<longrightarrow> F' l = F l"
    and S: "dom (socks st') = dom (socks st)"
  shows "ghost_ok il ifs F' st'"
proof -
  have "F' (p + OFF_accept_queue) = Some []" if p: "p \<in> dom (socks st)" for p
  proof -
    have "p + OFF_accept_queue \<notin> hash_heads \<union> bind_heads"
      using heads_low [of "p + OFF_accept_queue"] mem_ok_low [OF stack_okD(1) [OF ghost_okD(1) [OF g]] p] by (auto simp: statics offsets)
    with same g p show ?thesis by (simp add: ghost_ok_def)
  qed
  moreover have "timer_list \<notin> hash_heads \<union> bind_heads" using heads_low [of timer_list] by auto
  then have "F' timer_list = Some [] \<or> timer_list \<notin> footprint F'"
    using g same timer_list_apart [OF ok same] by (auto simp: ghost_ok_def)
  ultimately show ?thesis using g ok same il S by (simp add: ghost_ok_def)
qed

text \<open>A step that changes one socket and the tables.\<close>

lemma sound_upd:
  assumes s: "sound il ifs st" and g: "ghost_ok il ifs F st"
    and ok: "stack_ok st' F'" "\<forall>l. l \<notin> hash_heads \<union> bind_heads \<longrightarrow> F' l = F l"
    and S: "socks st p \<noteq> None" "socks st' = (socks st)(p \<mapsto> sk)" and live: "sock_live sk"
  shows "sound il ifs st'"
proof -
  have il: "il \<notin> hash_heads \<union> bind_heads \<union> {timer_list}" using s by (simp add: sound_def)
  have "ghost_ok il ifs F' st'" by (rule ghost_upd [OF g il ok]) (use S in auto)
  moreover have "sock_live sk'" if "socks st' q = Some sk'" for q sk'
    using that S(2) live sound_live [OF s] by (auto split: if_splits)
  ultimately show ?thesis using il unfolding sound_def by blast
qed

text \<open>A step that changes parts of a socket that do not show.\<close>

lemma inner_step:
  assumes s: "sound il ifs st" and sk: "socks st p = Some sk" and live: "sock_live sk'"
    and same: "sock_key sk' = sock_key sk" "ref_cnt sk' = ref_cnt sk" "sk_state sk' = sk_state sk" "snd_nxt sk' = snd_nxt sk"
  shows "sound il ifs (st\<lparr>socks := (socks st)(p \<mapsto> sk')\<rparr>) \<and> view (st\<lparr>socks := (socks st)(p \<mapsto> sk')\<rparr>) = view st"
proof -
  let ?st = "st\<lparr>socks := (socks st)(p \<mapsto> sk')\<rparr>"
  obtain F where g: "ghost_ok il ifs F st" using soundE [OF s] by blast
  note ok = ghost_okD(1) [OF g]
  have "sk_parent sk' = sk_parent sk" using live sound_live [OF s sk] by (simp add: sock_live_def)
  then have ok': "stack_ok ?st F" by (intro stack_ok_inner [OF ok sk]) (simp_all add: same)
  have "sound il ifs ?st" by (rule sound_upd [OF s g ok', of p sk']) (simp_all add: sk live)
  moreover have "sp_socks (view ?st) = sp_socks (view st)"
    by (rule ext) (simp add: sk view_sock_def same)
  moreover have "conns ?st = conns st" "listeners ?st = listeners st"
    using tables_upd [OF ok ok', of p sk'] by (simp_all add: sk same)
  ultimately show ?thesis by (intro conjI view_eqI) (simp_all add: view_def)
qed

section \<open>Every call keeps the invariant and does what the specification says\<close>

lemma unused_free:
  assumes "stack_ok st F" "unused st p"
  obtains sk where "socks st p = Some sk" "sk_state sk = TCP_CLOSED" "sk_sport sk = 0" "\<not> hashed F p" "\<not> bound F p"
proof -
  obtain sk where sk: "socks st p = Some sk" "sk_state sk = TCP_CLOSED" "sk_sport sk = 0"
    using assms(2) by (cases "socks st p") (simp_all add: unused_def)
  have "sock_ok F p sk" using stack_okD(3) [OF assms(1) sk(1)] .
  then have "\<not> hashed F p" "\<not> bound F p" using sk(2,3) unfolding sock_ok_def by blast+
  with sk show ?thesis by (rule that)
qed

lemma alloc_sound:
  assumes "sound il ifs st" "alloc_ready st p"
  shows "\<exists>F h. ghost_ok il ifs F st \<and> \<not> hashed F p \<and> \<not> bound F p \<and> (\<forall>H n. linked (own_lists p F) H n = linked F H n) \<and>
    alloc_tcp_sock st = Inr (p, st\<lparr>socks := (socks st)(p \<mapsto> fresh_sock), nodes := h, mallocs := drop 6 (mallocs st)\<rparr>) \<and>
    ghost_ok il ifs (own_lists p F) (st\<lparr>socks := (socks st)(p \<mapsto> fresh_sock), nodes := h, mallocs := drop 6 (mallocs st)\<rparr>) \<and>
    sound il ifs (st\<lparr>socks := (socks st)(p \<mapsto> fresh_sock), nodes := h, mallocs := drop 6 (mallocs st)\<rparr>)"
proof -
  obtain F where g: "ghost_ok il ifs F st" and il: "il \<notin> hash_heads \<union> bind_heads \<union> {timer_list}" using soundE [OF assms(1)] .
  note ok = ghost_okD(1) [OF g]
  from stack_ok_alloc [OF ok assms(2)] obtain h where
    h: "alloc_tcp_sock st = Inr (p, st\<lparr>socks := (socks st)(p \<mapsto> fresh_sock), nodes := h, mallocs := drop 6 (mallocs st)\<rparr>)"
      "stack_ok (st\<lparr>socks := (socks st)(p \<mapsto> fresh_sock), nodes := h, mallocs := drop 6 (mallocs st)\<rparr>) (own_lists p F)"
      "\<not> hashed F p" "\<not> bound F p" "\<forall>H n. linked (own_lists p F) H n = linked F H n"
    by blast
  let ?st = "st\<lparr>socks := (socks st)(p \<mapsto> fresh_sock), nodes := h, mallocs := drop 6 (mallocs st)\<rparr>"
  have disj: "set (sock_nodes p) \<inter> footprint F = {}"
    using assms(2) footprint_in_dom [OF mem_ok_family [OF stack_okD(1) [OF ok]]] unfolding alloc_ready_def fresh_block_def by blast
  have own: "own_lists p F l = F l" if "l \<in> footprint F" for l
    using that disj by (auto simp: own_lists_def sock_nodes_def)
  have inF: "F l = Some xs \<Longrightarrow> l \<in> footprint F" for l xs by (auto simp: footprint_def)
  have "own_lists p F (q + OFF_accept_queue) = Some []" if "q \<in> dom (socks ?st)" for q
    using that g own inF by (auto simp: ghost_ok_def) (auto simp: own_lists_def)
  moreover have "timer_list \<notin> set (sock_nodes p)"
    using assms(2) by (auto simp: alloc_ready_def fresh_block_def sock_nodes_def statics offsets)
  then have "own_lists p F timer_list = Some [] \<or> timer_list \<notin> footprint (own_lists p F)"
    using g own inF by (auto simp: ghost_ok_def own_lists_footprint [OF disj] sock_nodes_def)
  ultimately have g': "ghost_ok il ifs (own_lists p F) ?st"
    using h(2) own inF ghost_okD(2) [OF g] by (simp add: ghost_ok_def)
  moreover have "sound il ifs ?st" using g' il sound_live [OF assms(1)] by (auto simp: sound_def split: if_splits)
  ultimately show ?thesis using g h by blast
qed

lemma alloc_step:
  assumes "sound il ifs st" "alloc_ready st p"
  shows "\<exists>st'. api_step f il beyond st (Alloc p) = Inr st' \<and> sound il ifs st' \<and> view st' = spec_step ip (view st) (Alloc p)"
proof -
  obtain F h where h: "ghost_ok il ifs F st" "\<not> hashed F p" "\<forall>H n. linked (own_lists p F) H n = linked F H n"
    "alloc_tcp_sock st = Inr (p, st\<lparr>socks := (socks st)(p \<mapsto> fresh_sock), nodes := h, mallocs := drop 6 (mallocs st)\<rparr>)"
    "ghost_ok il ifs (own_lists p F) (st\<lparr>socks := (socks st)(p \<mapsto> fresh_sock), nodes := h, mallocs := drop 6 (mallocs st)\<rparr>)"
    "sound il ifs (st\<lparr>socks := (socks st)(p \<mapsto> fresh_sock), nodes := h, mallocs := drop 6 (mallocs st)\<rparr>)"
    using alloc_sound [OF assms] by blast
  let ?st = "st\<lparr>socks := (socks st)(p \<mapsto> fresh_sock), nodes := h, mallocs := drop 6 (mallocs st)\<rparr>"
  note ok = ghost_okD(1) [OF h(1)] ghost_okD(1) [OF h(5)]
  have low: "own_lists p F l = F l" if "l \<in> hash_heads" for l
    using that heads_low [of l] assms(2) by (auto simp: own_lists_def alloc_ready_def fresh_block_def offsets statics)
  have "conns ?st = conns st" "listeners ?st = listeners st"
    using tables_upd [OF ok, of p fresh_sock] h(2) low by (simp_all add: hash_heads_split)
  moreover have "view_sock fresh_sock = \<lparr>v_state = TCP_CLOSED, v_key = (0, 0, 0, 0), v_nxt = 0\<rparr>"
    by (simp add: view_sock_def fresh_sock_def sock_key_def)
  ultimately have "view ?st = spec_step ip (view st) (Alloc p)"
    by (intro view_eqI) (auto simp: view_def drop_map)
  with h(4,6) show ?thesis by simp
qed

lemma bind_step:
  assumes "sound il ifs st" "unused st p"
  shows "\<exists>st'. api_step f il beyond st (Bind p a) = Inr st' \<and> sound il ifs st' \<and> view st' = spec_step ip (view st) (Bind p a)"
proof -
  obtain F where g: "ghost_ok il ifs F st" using soundE [OF assms(1)] by blast
  note ok = ghost_okD(1) [OF g]
  obtain sk where sk: "socks st p = Some sk" "sk_state sk = TCP_CLOSED" "sk_sport sk = 0" "\<not> hashed F p" "\<not> bound F p"
    using unused_free [OF ok assms(2)] .
  have live: "sock_live sk" "sk_parent sk = 0" using sound_live [OF assms(1) sk(1)] by (simp_all add: sock_live_def)
  let ?sk = "sk\<lparr>sk_sport := chosen_port (ntohs (sa_port a)), ref_cnt := ref_cnt sk + 1\<rparr>"
  obtain h F' where h: "tcp_sock_bind st p a = Inr (0, st\<lparr>nodes := h, socks := (socks st)(p \<mapsto> ?sk)\<rparr>)"
    "stack_ok (st\<lparr>nodes := h, socks := (socks st)(p \<mapsto> ?sk)\<rparr>) F'" "\<forall>l. l \<notin> bind_heads \<longrightarrow> F' l = F l"
    unfolding tcp_sock_bind_def using tcp_sock_set_sport_ok [OF ok sk(1,5,4) live(2), of "ntohs (sa_port a)"] by blast
  let ?st = "st\<lparr>nodes := h, socks := (socks st)(p \<mapsto> ?sk)\<rparr>"
  have "sound il ifs ?st" by (rule sound_upd [OF assms(1) g h(2), of p ?sk]) (use h(3) live sk(1) in \<open>auto simp: sock_live_def\<close>)
  moreover have "conns ?st = conns st" "listeners ?st = listeners st"
    using tables_upd [OF ok h(2), of p ?sk] sk(4) h(3) table_heads_not_bind by auto
  then have "view ?st = spec_step ip (view st) (Bind p a)"
    by (intro view_eqI) (auto simp: view_def on_sock_def sk(1) view_sock_def sock_key_def)
  ultimately show ?thesis using h(1) by simp
qed

lemma listen_step:
  assumes "sound il ifs st" "closed st p"
  shows "\<exists>st'. api_step f il beyond st (Listen p n) = Inr st' \<and> sound il ifs st' \<and> view st' = spec_step ip (view st) (Listen p n)"
proof -
  obtain F where g: "ghost_ok il ifs F st" using soundE [OF assms(1)] by blast
  note ok = ghost_okD(1) [OF g]
  obtain sk where sk: "socks st p = Some sk" "sk_state sk = TCP_CLOSED"
    using assms(2) by (cases "socks st p") (simp_all add: closed_def)
  have "\<not> hashed F p" using stack_okD(3) [OF ok sk(1)] sk(2) unfolding sock_ok_def by blast
  note sk = sk(1) this
  have live: "sock_live sk" using sound_live [OF assms(1) sk(1)] .
  let ?sk = "sk\<lparr>backlog := n, sk_state := TCP_LISTEN, ref_cnt := ref_cnt sk + 1\<rparr>"
  obtain h F' where h: "tcp_sock_listen st p n = Inr (0, st\<lparr>nodes := h, socks := (socks st)(p \<mapsto> ?sk)\<rparr>)"
    "stack_ok (st\<lparr>nodes := h, socks := (socks st)(p \<mapsto> ?sk)\<rparr>) F'" "\<forall>l. l \<notin> listen_heads \<longrightarrow> F' l = F l"
    "\<forall>ip port. tcp_sock_lookup_listen (st\<lparr>nodes := h, socks := (socks st)(p \<mapsto> ?sk)\<rparr>) ip port =
      (if port = sk_sport sk then Inr p else tcp_sock_lookup_listen st ip port)"
    using tcp_sock_listen_ok [OF ok sk, of n] by blast
  let ?st = "st\<lparr>nodes := h, socks := (socks st)(p \<mapsto> ?sk)\<rparr>"
  have "sound il ifs ?st"
    by (rule sound_upd [OF assms(1) g h(2), of p ?sk]) (use h(3) live sk(1) in \<open>auto simp: sock_live_def hash_heads_split\<close>)
  moreover have "conns ?st = conns st"
    using tables_upd(1) [OF ok h(2), of p ?sk] sk(2) h(3) est_listen_apart by auto
  moreover have "listeners ?st = (listeners st)(sk_sport sk \<mapsto> p)"
    using h(4) sock_nonzero [OF ok sk(1)] by (auto simp: listeners_def sock_at_def)
  ultimately have "sound il ifs ?st \<and> view ?st = spec_step ip (view st) (Listen p n)"
    by (intro conjI view_eqI) (auto simp: view_def on_sock_def spec_listen_def sk(1) view_sock_def sock_key_def)
  then show ?thesis using h(1) by simp
qed

text \<open>The map of connections after a key has been claimed, if it was free.\<close>

lemma conns_claim:
  assumes ok: "stack_ok st F" "stack_ok st' F'"
    and C: "\<forall>k q. connected st' F' k q \<longleftrightarrow> connected st F k q \<or> k = k0 \<and> q = p \<and> (\<forall>q. \<not> connected st F k q)"
  shows "conns st' = (if conns st k0 = None then (conns st)(k0 \<mapsto> p) else conns st)"
proof
  fix k
  have iff: "conns st' k = Some q \<longleftrightarrow> conns st k = Some q \<or> k = k0 \<and> q = p \<and> conns st k = None" for q
    using C conns_iff [OF ok(1)] conns_iff [OF ok(2)] by (metis not_Some_eq)
  have "conns st' k = (if k = k0 \<and> conns st k0 = None then Some p else conns st k)"
  proof (cases "conns st' k")
    case None
    then have "conns st k \<noteq> Some q" "\<not> (k = k0 \<and> conns st k = None)" for q using iff [of q] iff [of p] by auto
    then have "conns st k = None" "k \<noteq> k0" by auto
    with None show ?thesis by simp
  next
    case (Some q)
    with iff [of q] show ?thesis by auto
  qed
  then show "conns st' k = (if conns st k0 = None then (conns st)(k0 \<mapsto> p) else conns st) k" by simp
qed

lemma connect_step:
  assumes f: "ip_init_hdr_ok f" and s: "sound il ifs st" and u: "unused st p"
  shows "\<exists>st'. api_step f il (Some ip) st (Connect p a) = Inr st' \<and> sound il ifs st' \<and> view st' = spec_step ip (view st) (Connect p a)"
proof -
  obtain F where g: "ghost_ok il ifs F st" using soundE [OF s] by blast
  note ok = ghost_okD(1) [OF g]
  obtain sk where sk: "socks st p = Some sk" "sk_state sk = TCP_CLOSED" "sk_sport sk = 0" "\<not> hashed F p" "\<not> bound F p"
    using unused_free [OF ok u] .
  have live: "sock_live sk" "sk_parent sk = 0" using sound_live [OF s sk(1)] by (simp_all add: sock_live_def)
  obtain r st' F' n where r: "tcp_sock_connect f il (Some ip) st p a = Inr (r, st')" "stack_ok st' F'"
    "socks st' = (socks st)(p \<mapsto> (connecting st ip a sk)\<lparr>ref_cnt := n, wait_connect := after_sleep (wait_connect sk)\<rparr>)"
    "emitted st (syn_for ip a sk) st'" "\<forall>l. l \<notin> est_heads \<union> bind_heads \<longrightarrow> F' l = F l"
    "\<forall>k q. connected st' F' k q \<longleftrightarrow> connected st F k q \<or> k = peer_key ip a \<and> q = p \<and> (\<forall>q. \<not> connected st F k q)"
    using tcp_sock_connect_ok [OF f ok sk(1,4,5) live(2) ghost_okD(2) [OF g] refl, of ip a] by blast
  let ?sk = "(connecting st ip a sk)\<lparr>ref_cnt := n, wait_connect := after_sleep (wait_connect sk)\<rparr>"
  have "sound il ifs st'"
    by (rule sound_upd [OF s g r(2) _ _ r(3)]) (use r(5) live sk(1) in \<open>auto simp: sock_live_def connecting_def hash_heads_split\<close>)
  moreover have "conns st' = sp_conns (spec_step ip (view st) (Connect p a))"
    using conns_claim [OF ok r(2,6)] by (simp add: spec_connect_def sk(1) Let_def)
  moreover have "listeners st' = listeners st"
    using tables_upd(2) [OF ok r(2,3)] sk(4) r(5) est_listen_apart table_heads_not_bind by auto
  moreover have "syn_for ip a sk = segment_from (peer_key ip a) (snd_nxt sk) TCP_SYN"
    using live(1) by (simp add: syn_for_def peer_key_def sock_live_def)
  then have "sp_mem (view st') = sp_mem (spec_step ip (view st) (Connect p a))" "sp_out (view st') = sp_out (spec_step ip (view st) (Connect p a))"
    using view_emitted [OF r(4)] by (simp_all add: spec_connect_def sk(1) Let_def emit_def on_sock_def view_sock_def can_send_def)
  moreover have "view_sock ?sk = \<lparr>v_state = TCP_SYN_SENT, v_key = peer_key ip a, v_nxt = snd_nxt sk + of_bool (can_send (view st))\<rparr>"
    using connecting_key(2) by (simp add: view_sock_def connecting_def next_seq_view flag_defs)
  then have "sp_socks (view st') = sp_socks (spec_step ip (view st) (Connect p a))"
    by (simp add: view_upd_sock [OF r(3)] spec_connect_def sk(1) Let_def emit_def on_sock_def view_sock_def)
  ultimately have "sound il ifs st' \<and> view st' = spec_step ip (view st) (Connect p a)"
    by (intro conjI view_eqI) (simp_all add: spec_connect_def sk(1) Let_def emit_def on_sock_def)
  then show ?thesis using r(1) by simp
qed

lemma resume_step:
  assumes s: "sound il ifs st" and p: "socks st p \<noteq> None"
  shows "\<exists>st'. api_step f il beyond st (Connect_Resume p) = Inr st' \<and> sound il ifs st' \<and> view st' = view st"
proof -
  obtain sk where sk: "socks st p = Some sk" using p by blast
  let ?sk = "sk\<lparr>wait_connect := snd (sleep_on_resume (wait_connect sk))\<rparr>"
  have "sock_live ?sk" using sound_live [OF s sk] by (simp add: sock_live_def)
  from inner_step [OF s sk this] sk show ?thesis
    by (simp add: tcp_sock_connect_resume_def resume_sock_def set_wait_connect_def sock_key_def)
qed

lemma accept_step:
  assumes s: "sound il ifs st" and p: "socks st p \<noteq> None"
  shows "\<exists>st'. tcp_sock_accept st p = Inr (Asleep, st') \<and> sound il ifs st' \<and> view st' = view st"
proof -
  obtain F where g: "ghost_ok il ifs F st" using soundE [OF s] by blast
  obtain sk where sk: "socks st p = Some sk" using p by blast
  have "F (p + OFF_accept_queue) = Some []" using g sk by (auto simp: ghost_ok_def)
  then have "list_empty (nodes st) (p + OFF_accept_queue) = Inr True"
    using lists.empty_law [OF lists.family_list [OF mem_ok_family [OF stack_okD(1) [OF ghost_okD(1) [OF g]]]]] by simp
  moreover have live: "sock_live sk" using sound_live [OF s sk] .
  then have "sleep_on (wait_accept sk) = Blocks ((wait_accept sk)\<lparr>sw_sleep := 1\<rparr>)"
    by (simp add: sock_live_def sleep_on_def)
  ultimately have "tcp_sock_accept st p = Inr (Asleep, st\<lparr>socks := (socks st)(p \<mapsto>
      sk\<lparr>wait_accept := (wait_accept sk)\<lparr>sw_sleep := 1\<rparr>\<rparr>)\<rparr>)"
    using sk by (simp add: tcp_sock_accept_def sleep_on_sock_def set_wait_accept_def)
  moreover have "sock_live (sk\<lparr>wait_accept := (wait_accept sk)\<lparr>sw_sleep := 1\<rparr>\<rparr>)" using live by (simp add: sock_live_def)
  note inner_step [OF s sk this]
  ultimately show ?thesis by (simp add: sock_key_def)
qed

lemma read_step:
  assumes s: "sound il ifs st" and p: "socks st p \<noteq> None" "0 \<le> n"
  shows "\<exists>st'. tcp_sock_read st p n = Inr (65535, [], st') \<and> sound il ifs st' \<and> view st' = view st"
proof -
  obtain sk where sk: "socks st p = Some sk" using p by blast
  have live: "sock_live sk" using sound_live [OF s sk] .
  then obtain b where b: "read_ring_buffer (rcv_buf sk) n = Inr (0, [], b)" "rb_inv b" "rb_contents b = []"
    using rb.rd_law [of "rcv_buf sk" n 0] p(2) by (auto simp: sock_live_def)
  let ?sk = "sk\<lparr>rcv_buf := b, rcv_wnd := 65535\<rparr>"
  have "tcp_sock_read st p n = Inr (65535, [], st\<lparr>socks := (socks st)(p \<mapsto> ?sk)\<rparr>)"
    using sk b(1) live by (simp add: tcp_sock_read_def sock_live_def)
  moreover have "sock_live ?sk" using live b(2,3) by (simp add: sock_live_def)
  note inner_step [OF s sk this]
  ultimately show ?thesis by (simp add: sock_key_def)
qed

lemma close_step:
  assumes f: "ip_init_hdr_ok f" and s: "sound il ifs st" and c: "closable st p"
  shows "\<exists>st'. api_step f il beyond st (Close p) = Inr st' \<and> sound il ifs st' \<and> view st' = spec_step ip (view st) (Close p)"
proof -
  obtain F where g: "ghost_ok il ifs F st" using soundE [OF s] by blast
  note ok = ghost_okD(1) [OF g]
  obtain sk where sk: "socks st p = Some sk" and kind: "sk_state sk = TCP_CLOSED \<or> sk_state sk = TCP_ESTABLISHED \<and> ref_cnt sk = 2"
    using c by (auto simp: closable_def split: option.splits)
  have live: "sock_live sk" using sound_live [OF s sk] .
  show ?thesis
  proof (cases "sk_state sk = TCP_CLOSED")
    case True
    with s sk show ?thesis by (simp add: tcp_sock_close_def spec_close_def view_sock_def)
  next
    case False
    then have est: "sk_state sk = TCP_ESTABLISHED" "ref_cnt sk = 2" using kind by auto
    then have both: "hashed F p" "bound F p"
      using stack_okD(3) [OF ok sk] by (simp_all add: sock_ok_def gave_up_def of_bool_def split: if_splits)
    let ?sk = "sk\<lparr>snd_nxt := next_seq st (snd_nxt sk) TCP_FIN, sk_state := TCP_FIN_WAIT_1, ref_cnt := 1\<rparr>"
    obtain st' where r: "tcp_sock_close f st p = Inr st'" "stack_ok st' F" "socks st' = (socks st)(p \<mapsto> ?sk)"
      "emitted st (cb_of (sk_sip sk) (sk_dip sk) (sk_sport sk) (sk_dport sk) (snd_nxt sk) (rcv_nxt sk) TCP_FIN (rcv_wnd sk) 0) st'"
      using tcp_sock_close_established [OF f ok sk est(1) both] by blast
    have "sound il ifs st'" by (rule sound_upd [OF s g r(2) _ _ r(3)]) (use sk live in \<open>simp_all add: sock_live_def\<close>)
    moreover have "conns st' = conns st" "listeners st' = listeners st"
      using tables_upd [OF ok r(2,3)] sk by (simp_all add: sock_key_def)
    moreover have "view_sock ?sk = (view_sock sk)\<lparr>v_state := TCP_FIN_WAIT_1, v_nxt := snd_nxt sk + of_bool (can_send (view st))\<rparr>"
      by (simp add: view_sock_def sock_key_def next_seq_view flag_defs)
    ultimately have "sound il ifs st' \<and> view st' = spec_step ip (view st) (Close p)"
      using view_emitted [OF r(4)] view_upd_sock [OF r(3)] live est(1)
      by (intro conjI view_eqI)
        (simp_all add: spec_close_def sk emit_def on_sock_def can_send_def view_sock_def sock_key_def sock_live_def)
    then show ?thesis using r(1) by simp
  qed
qed

text \<open>A step that only sends.\<close>

lemma emitted_step:
  assumes s: "sound il ifs st" and g: "ghost_ok il ifs F st" and sk: "socks st p = Some sk"
    and st1: "stack_ok st1 F" "socks st1 = socks st" "emitted st cb st1"
  shows "sound il ifs st1" "view st1 = emit cb (view st)"
proof -
  have upd: "socks st1 = (socks st)(p \<mapsto> sk)" using st1(2) sk by (simp add: fun_upd_idem)
  show "sound il ifs st1" by (rule sound_upd [OF s g st1(1) _ _ upd]) (use sk sound_live [OF s sk] in simp_all)
  have "conns st1 = conns st" "listeners st1 = listeners st"
    using tables_upd [OF ghost_okD(1) [OF g] st1(1) upd] sk by simp_all
  then show "view st1 = emit cb (view st)"
    using view_emitted [OF st1(3)] st1(2) by (intro view_eqI) (auto simp: emit_def fun_eq_iff)
qed

lemma ack_step:
  assumes f: "ip_init_hdr_ok f" and s: "sound il ifs st" and sk: "socks st p = Some sk"
  shows "\<exists>st1. tcp_send_control_packet f st p TCP_ACK = Inr st1 \<and> socks st1 = socks st \<and> sound il ifs st1 \<and>
    view st1 = emit (segment_from (sock_key sk) (snd_nxt sk) TCP_ACK) (view st)"
proof -
  obtain F where g: "ghost_ok il ifs F st" using soundE [OF s] by blast
  have live: "sock_live sk" using sound_live [OF s sk] .
  obtain st1 where st1: "tcp_send_control_packet f st p TCP_ACK = Inr st1" "stack_ok st1 F"
    "socks st1 = (socks st)(p \<mapsto> sk\<lparr>snd_nxt := next_seq st (snd_nxt sk) TCP_ACK\<rparr>)"
    "emitted st (cb_of (sk_sip sk) (sk_dip sk) (sk_sport sk) (sk_dport sk) (snd_nxt sk) (rcv_nxt sk) TCP_ACK (rcv_wnd sk) 0) st1"
    using stack_ok_send [OF f ghost_okD(1) [OF g] sk] by blast
  have same: "socks st1 = socks st" using st1(3) sk by (simp add: next_seq_def flag_defs fun_upd_idem)
  have cb: "cb_of (sk_sip sk) (sk_dip sk) (sk_sport sk) (sk_dport sk) (snd_nxt sk) (rcv_nxt sk) TCP_ACK (rcv_wnd sk) 0 =
    segment_from (sock_key sk) (snd_nxt sk) TCP_ACK" using live by (simp add: sock_key_def sock_live_def)
  from emitted_step [OF s g sk st1(2) same st1(4)] st1(1) same show ?thesis unfolding cb by blast
qed

text \<open>A bare RST or FIN for an established connection closes it.\<close>

lemma closing_step:
  assumes f: "ip_init_hdr_ok f" and s: "sound il ifs st" and sk: "socks st p = Some sk"
    and est: "sk_state sk = TCP_ESTABLISHED" "ref_cnt sk = 2" and cb: "in_first_window cb" "cb_flags cb \<in> {TCP_RST, TCP_FIN}"
  shows "\<exists>st'. tcp_process f st p cb = Inr st' \<and> sound il ifs st' \<and> view st' = spec_segment cb p (view st)"
proof -
  have seq: "is_tcp_seq_valid sk cb" using cb(1) live_window [OF sound_live [OF s sk]] by simp
  obtain st1 where st1: "tcp_send_control_packet f st p TCP_ACK = Inr st1" "socks st1 = socks st" "sound il ifs st1"
    "view st1 = emit (segment_from (sock_key sk) (snd_nxt sk) TCP_ACK) (view st)"
    using ack_step [OF f s sk] by blast
  have "closable st p" "closable st1 p" using sk est st1(2) by (simp_all add: closable_def)
  with close_step [OF f s, of p] close_step [OF f st1(3), of p]
  obtain st2 st3 where "tcp_sock_close f st p = Inr st2" "sound il ifs st2" "view st2 = spec_close p (view st)"
    "tcp_sock_close f st1 p = Inr st3" "sound il ifs st3" "view st3 = spec_close p (view st1)" by auto
  with cb sk seq est(1) st1(1,4) show ?thesis
    by (auto simp: tcp_process_def spec_segment_def view_sock_def flag_defs)
qed

text \<open>
  A reset is answered: with an acknowledgement, and with a FIN as if the application had closed
  the connection, which then waits in \<^verbatim>\<open>TCP_FIN_WAIT_1\<close>.
\<close>

lemma reset_answered:
  assumes f: "ip_init_hdr_ok f" and s: "sound il ifs st" and sk: "socks st p = Some sk"
    and est: "sk_state sk = TCP_ESTABLISHED" "ref_cnt sk = 2" and cb: "in_first_window cb" "cb_flags cb = TCP_RST"
    and mem: "sp_mem (view st) = True # True # bs"
  shows "\<exists>st'. tcp_process f st p cb = Inr st' \<and> map_option v_state (sp_socks (view st') p) = Some TCP_FIN_WAIT_1 \<and>
    sp_out (view st') = sp_out (view st) @
      [Some (segment_from (sock_key sk) (snd_nxt sk) TCP_ACK), Some (segment_from (sock_key sk) (snd_nxt sk) TCP_FIN)]"
proof -
  obtain st' where st': "tcp_process f st p cb = Inr st'" "view st' = spec_segment cb p (view st)"
    using closing_step [OF f s sk est cb(1)] cb(2) by auto
  have "map_option v_state (sp_socks (spec_segment cb p (view st)) p) = Some TCP_FIN_WAIT_1 \<and>
    sp_out (spec_segment cb p (view st)) = sp_out (view st) @
      [Some (segment_from (sock_key sk) (snd_nxt sk) TCP_ACK), Some (segment_from (sock_key sk) (snd_nxt sk) TCP_FIN)]"
    using sk est(1) cb mem by (simp add: spec_segment_def spec_close_def emit_def on_sock_def can_send_def view_sock_def flag_defs)
  with st' show ?thesis by metis
qed

text \<open>A segment for a live socket.\<close>

lemma process_step:
  assumes f: "ip_init_hdr_ok f" and s: "sound il ifs st" and sk: "socks st p = Some sk"
    and fit: "handled sk cb" and found: "tcp_sock_lookup st cb = Inr p"
  shows "\<exists>st'. tcp_process f st p cb = Inr st' \<and> sound il ifs st' \<and> view st' = spec_segment cb p (view st)"
proof -
  obtain F where g: "ghost_ok il ifs F st" using soundE [OF s] by blast
  note ok = ghost_okD(1) [OF g]
  have live: "sock_live sk" using sound_live [OF s sk] .
  have seq: "is_tcp_seq_valid sk cb = in_first_window cb" by (rule live_window [OF live])
  have "sk_state sk \<noteq> TCP_CLOSED" using tcp_sock_lookup_hashed [OF ok found sk] stack_okD(3) [OF ok sk] by (simp add: sock_ok_def)
  then consider "\<not> in_first_window cb" | "in_first_window cb" "cb_flags cb \<in> {TCP_RST, TCP_FIN}"
    | "in_first_window cb" "cb_flags cb \<notin> {TCP_RST, TCP_FIN}" "sk_state sk = TCP_LISTEN" "cb_flags cb \<noteq> TCP_SYN"
    | "in_first_window cb" "cb_flags cb \<notin> {TCP_RST, TCP_FIN}" "sk_state sk = TCP_SYN_SENT"
    | "in_first_window cb" "cb_flags cb \<notin> {TCP_RST, TCP_FIN}" "sk_state sk \<in> {TCP_ESTABLISHED, TCP_FIN_WAIT_1}"
    using live fit seq unfolding sock_live_def handled_def by (cases "in_first_window cb"; cases "cb_flags cb \<in> {TCP_RST, TCP_FIN}") auto
  then show ?thesis
  proof cases
    case 1
    with s sk seq show ?thesis by (simp add: tcp_process_def spec_segment_def)
  next
    case 2
    with fit seq closing_step [OF f s sk _ _ 2] show ?thesis by (simp add: handled_def)
  next
    case 3
    obtain st1 where st1: "tcp_send_reset f st cb = Inr st1" "stack_ok st1 F" "socks st1 = socks st" "emitted st (reset_for cb) st1"
      using stack_ok_reset [OF f ok, of cb] unfolding reset_for_def by blast
    from emitted_step [OF s g sk st1(2-4)] 3 sk seq st1(1) show ?thesis
      by (simp add: tcp_process_def spec_segment_def view_sock_def Let_def)
  next
    case 4
    let ?sk = "sk\<lparr>sk_state := TCP_ESTABLISHED, wait_connect := fst (snd (wake_up (wait_connect sk)))\<rparr>"
    obtain st1 where st1: "tcp_process f st p cb = Inr st1" "stack_ok st1 F" "socks st1 = (socks st)(p \<mapsto> ?sk)"
      "emitted st (cb_of (sk_sip sk) (sk_dip sk) (sk_sport sk) (sk_dport sk) (snd_nxt sk) (rcv_nxt sk) TCP_ACK (rcv_wnd sk) 0) st1"
      using syn_sent_step [OF f ok sk 4(3) _ 4(2)] seq 4(1) by blast
    have "sound il ifs st1" by (rule sound_upd [OF s g st1(2) _ _ st1(3)]) (use sk live in \<open>simp_all add: sock_live_def\<close>)
    moreover have "conns st1 = conns st" "listeners st1 = listeners st"
      using tables_upd [OF ok st1(2,3)] sk by (simp_all add: sock_key_def)
    then have "view st1 = spec_segment cb p (view st)"
      using view_emitted [OF st1(4)] view_upd_sock [OF st1(3)] 4 live
      by (intro view_eqI) (simp_all add: spec_segment_def sk emit_def on_sock_def can_send_def view_sock_def sock_key_def sock_live_def)
    ultimately show ?thesis using st1(1) by blast
  next
    case 5
    with s sk seq show ?thesis by (auto simp: tcp_process_def spec_segment_def view_sock_def Let_def)
  qed
qed

lemma segment_step:
  assumes f: "ip_init_hdr_ok f" and s: "sound il ifs st" and fit: "harmless st tcp pkt"
  shows "\<exists>st'. api_step f il beyond st (Segment tcp pkt) = Inr st' \<and> sound il ifs st' \<and> view st' = spec_step ip (view st) (Segment tcp pkt)"
proof -
  obtain F where g: "ghost_ok il ifs F st" using soundE [OF s] by blast
  obtain c x where c: "tcp_checksum pkt 14 tcp = Inr c" "rd16 pkt (tcp + 16) = Inr x"
    using fit by (auto simp: harmless_def rbind_Inr_iff)
  show ?thesis
  proof (cases "c = x")
    case False
    with c s show ?thesis by (simp add: handle_tcp_packet_def read_at_def split: sum.splits)
  next
    case True
    with fit c obtain cb p sk where p: "tcp_cb_init pkt 14 tcp = Inr cb" "tcp_sock_lookup st cb = Inr p" "rd_sock st p = Inr sk"
      "handled sk cb"
      by (auto simp: harmless_def rbind_Inr_iff)
    from p(3) have sk: "socks st p = Some sk" by (cases "socks st p") auto
    have "read_at tcp pkt = Some cb" using c True p(1) by (simp add: read_at_def)
    with process_step [OF f s sk p(4,2)] sp_find_view [OF ghost_okD(1) [OF g] p(2) sk] c True p(1,2)
    show ?thesis by (simp add: handle_tcp_packet_def)
  qed
qed

text \<open>The timer thread.\<close>

lemma timer_start_step:
  assumes s: "sound il ifs st" and t: "nodes st timer_list \<noteq> None"
  shows "\<exists>st'. api_step f il beyond st Timer_Start = Inr st' \<and> sound il ifs st' \<and> view st' = view st \<and> timers_ready st'"
proof -
  obtain F where g: "ghost_ok il ifs F st" and il: "il \<notin> hash_heads \<union> bind_heads \<union> {timer_list}" using soundE [OF s] .
  note ok = ghost_okD(1) [OF g]
  have low: "timer_list < HEAP_BASE" "timer_list \<notin> hash_heads \<union> bind_heads"
    using heads_low [of timer_list] by (auto simp: statics)
  have "timer_list \<in> footprint F \<longrightarrow> F timer_list = Some []" using g by (auto simp: ghost_ok_def)
  from stack_ok_new_list [OF ok t this low] obtain h where
    h: "init_list_head (nodes st) timer_list = Inr h" "stack_ok (st\<lparr>nodes := h\<rparr>) (F(timer_list \<mapsto> []))" by blast
  let ?st = "st\<lparr>nodes := h\<rparr>" and ?F = "F(timer_list \<mapsto> [])"
  have "ghost_ok il ifs ?F ?st" using g h(2) il by (simp add: ghost_ok_def)
  then have "sound il ifs ?st" using il s by (auto simp: sound_def)
  moreover have F: "l \<in> hash_heads \<Longrightarrow> ?F l = F l" for l using low(2) by auto
  have "linked ?F est_heads n = linked F est_heads n" for n using F by (auto simp: linked_def hash_heads_split)
  then have "conns ?st = conns st" by (intro conns_eqI [OF ok h(2)]) (simp add: connected_def)
  moreover have "tcp_sock_lookup_listen ?st ip port = tcp_sock_lookup_listen st ip port" for ip port
    by (rule lookup_listen_same [OF ok h(2)]) (use F in \<open>simp_all add: hash_heads_split\<close>)
  then have "listeners ?st = listeners st" by (simp add: listeners_def fun_eq_iff)
  moreover have "timers_ready ?st"
    using h(1) t by (auto simp: timers_ready_def init_list_head_def set_prv_def set_nxt_def rd_node_def split: option.splits)
  ultimately show ?thesis using h(1) by (auto simp: on_nodes_def view_def)
qed

lemma timer_scan_step: "timers_ready st \<Longrightarrow> tcp_scan_timer_list st = Inr st"
  by (simp add: timers_ready_def tcp_scan_timer_list_def rd_node_def scan_timers_from.simps)

section \<open>Runs\<close>

lemma admissible_step:
  assumes f: "ip_init_hdr_ok f" and s: "sound il ifs st" and c: "admissible st c"
  shows "\<exists>st'. api_step f il (Some ip) st c = Inr st' \<and> sound il ifs st' \<and> view st' = spec_step ip (view st) c"
proof (cases c)
  case (Alloc p)
  with c alloc_step [OF s] show ?thesis by simp
next
  case (Bind p a)
  with c bind_step [OF s] show ?thesis by simp
next
  case (Listen p n)
  with c listen_step [OF s] show ?thesis by simp
next
  case (Connect p a)
  with c connect_step [OF f s] show ?thesis by simp
next
  case (Connect_Resume p)
  with c resume_step [OF s] show ?thesis by simp
next
  case (Accept p)
  with c accept_step [OF s, of p] show ?thesis by auto
next
  case (Read p n)
  with c read_step [OF s, of p n] show ?thesis by auto
next
  case (Write p bs)
  with s show ?thesis by (simp add: tcp_sock_write_def)
next
  case (Close p)
  with c close_step [OF f s] show ?thesis by simp
next
  case (Segment tcp pkt)
  with c segment_step [OF f s] show ?thesis by simp
next
  case Timer_Start
  with c timer_start_step [OF s, of f "Some ip"] show ?thesis by auto
next
  case Timer_Scan
  with c s timer_scan_step show ?thesis by simp
qed

interpretation runs: refining_machine "\<lambda>st. ip_init_hdr_ok f \<and> sound il ifs st" admissible "api_step f il (Some ip)" view "spec_step ip"
  for f ip il ifs
  by unfold_locales (metis admissible_step, metis admissible_step sum.inject(2))

text \<open>Most of what is admissible can be read off the specification.\<close>

lemma admissible_view:
  "unused st p \<longleftrightarrow> (case sp_socks (view st) p of None \<Rightarrow> False | Some v \<Rightarrow> v_state v = TCP_CLOSED \<and> local_port (v_key v) = 0)"
  "closed st p \<longleftrightarrow> (case sp_socks (view st) p of None \<Rightarrow> False | Some v \<Rightarrow> v_state v = TCP_CLOSED)"
  "socks st p = None \<longleftrightarrow> sp_socks (view st) p = None"
  by (auto simp: unused_def closed_def view_sock_def sock_key_def split: option.splits)

lemma obeys_step:
  assumes "ip_init_hdr_ok f" "sound il ifs st" "admissible st c"
    and "\<And>st'. sound il ifs st' \<Longrightarrow> view st' = spec_step ip (view st) c \<Longrightarrow> obeys admissible (api_step f il (Some ip)) st' cs"
  shows "obeys admissible (api_step f il (Some ip)) st (c # cs)"
  using admissible_step [OF assms(1-3), of ip] assms(3,4) by auto

text \<open>What is sent stays quiet.\<close>

lemma quiet_step:
  assumes q: "quiet_spec (view st)" and c: "admissible st c"
  shows "quiet_spec (spec_step ip (view st) c)"
proof (cases c)
  case (Alloc p)
  with q show ?thesis by (auto simp: quiet_spec_def young_def)
next
  case (Bind p a)
  with q show ?thesis by (auto simp: young_def dest: quiet_young intro!: quiet_on_sock)
next
  case (Listen p n)
  with c show ?thesis by (auto simp: closed_def view_sock_def intro!: quiet_spec_listen [OF q] split: option.splits)
next
  case (Connect p a)
  with c show ?thesis by (auto simp: unused_def view_sock_def intro!: quiet_spec_connect [OF q] split: option.splits)
qed (use q in \<open>auto intro: quiet_spec_close quiet_spec_segment split: option.splits\<close>)

interpretation quiet_runs: safe_machine "\<lambda>st. ip_init_hdr_ok f \<and> sound il ifs st \<and> quiet_spec (view st)" admissible "api_step f il (Some ip)"
  for f ip il ifs
  by unfold_locales (metis admissible_step quiet_step)

section \<open>The active open\<close>

lemma lookup_free:
  "stack_ok st F \<Longrightarrow> tcp_sock_lookup_established st a b c d = Inr 0 \<Longrightarrow> \<not> connected st F (a, b, c, d) q"
  using lookup_established_iff [of st F a b c d] by auto

lemma lookup_found:
  "stack_ok st F \<Longrightarrow> connected st F (a, b, c, d) q \<Longrightarrow> tcp_sock_lookup_established st a b c d = Inr q"
  using lookup_established_iff [of st F a b c d] by auto

text \<open>
  The client thread up to its sleep: a SYN is out, if \<^verbatim>\<open>malloc\<close> had a block for it, and the
  socket can be looked up by the key of the expected answer.
\<close>

lemma client_start_ok:
  assumes f: "ip_init_hdr_ok f" and s: "sound il ifs st" and ready: "alloc_ready st p"
    and free: "tcp_sock_lookup_established st ip (htonl (sa_ip a)) (htons 12345) (htons (sa_port a)) = Inr 0"
  shows "\<exists>st1 sk1 F1. tcp_client_start f il (Some ip) st a = Inr (Asleep, p, st1) \<and> sound il ifs st1 \<and>
    ghost_ok il ifs F1 st1 \<and> socks st1 p = Some sk1 \<and> sk_state sk1 = TCP_SYN_SENT \<and>
    wait_connect sk1 = \<lparr>sw_notified = 0, sw_dead = 0, sw_sleep = 1\<rparr> \<and>
    connected st1 F1 (ip, htonl (sa_ip a), htons 12345, htons (sa_port a)) p \<and>
    emitted (st\<lparr>mallocs := drop 6 (mallocs st)\<rparr>)
      (cb_of ip (htonl (sa_ip a)) (htons 12345) (htons (sa_port a)) 0 0 TCP_SYN 65535 0) st1"
proof -
  obtain F h where F: "ghost_ok il ifs F st" "\<not> hashed F p" "\<not> bound F p" "\<forall>H n. linked (own_lists p F) H n = linked F H n"
    "alloc_tcp_sock st = Inr (p, st\<lparr>socks := (socks st)(p \<mapsto> fresh_sock), nodes := h, mallocs := drop 6 (mallocs st)\<rparr>)"
    "ghost_ok il ifs (own_lists p F) (st\<lparr>socks := (socks st)(p \<mapsto> fresh_sock), nodes := h, mallocs := drop 6 (mallocs st)\<rparr>)"
    "sound il ifs (st\<lparr>socks := (socks st)(p \<mapsto> fresh_sock), nodes := h, mallocs := drop 6 (mallocs st)\<rparr>)"
    using alloc_sound [OF s ready] by blast
  define st0 where "st0 = st\<lparr>socks := (socks st)(p \<mapsto> fresh_sock), nodes := h, mallocs := drop 6 (mallocs st)\<rparr>"
  note F' = F(5-7) [folded st0_def]
  have sk0: "socks st0 p = Some fresh_sock" by (simp add: st0_def)
  have new: "\<not> hashed (own_lists p F) p" "\<not> bound (own_lists p F) p" using F(2-4) by (simp_all add: hashed_def bound_def)
  obtain r st1 F1 n where c: "tcp_sock_connect f il (Some ip) st0 p a = Inr (r, st1)" "stack_ok st1 F1"
    "socks st1 = (socks st0)(p \<mapsto> (connecting st0 ip a fresh_sock)\<lparr>ref_cnt := n, wait_connect := after_sleep (wait_connect fresh_sock)\<rparr>)"
    "emitted st0 (syn_for ip a fresh_sock) st1"
    "r = Asleep \<longleftrightarrow> sw_dead (wait_connect fresh_sock) = 0 \<and> sw_notified (wait_connect fresh_sock) = 0"
    "\<forall>l. l \<notin> est_heads \<union> bind_heads \<longrightarrow> F1 l = own_lists p F l"
    "\<forall>k q. connected st1 F1 k q \<longleftrightarrow> connected st0 (own_lists p F) k q \<or>
      k = peer_key ip a \<and> q = p \<and> (\<forall>q. \<not> connected st0 (own_lists p F) k q)"
    using tcp_sock_connect_ok [OF f ghost_okD(1) [OF F'(2)] sk0 new fresh_sock_fields(1) ghost_okD(2) [OF F'(2)] refl, of ip a] by blast
  let ?sk1 = "(connecting st0 ip a fresh_sock)\<lparr>ref_cnt := n, wait_connect := after_sleep (wait_connect fresh_sock)\<rparr>"
  have il: "il \<notin> hash_heads \<union> bind_heads \<union> {timer_list}" using s by (simp add: sound_def)
  have same: "\<forall>l. l \<notin> hash_heads \<union> bind_heads \<longrightarrow> F1 l = own_lists p F l" using c(6) by (simp add: hash_heads_split)
  have live: "sock_live ?sk1" using fresh_live by (simp add: sock_live_def connecting_def)
  have "\<not> connected st0 (own_lists p F) (peer_key ip a) q" for q
    using lookup_free [OF ghost_okD(1) [OF F(1)] free, of q] F(2,4)
    by (auto simp: connected_def st0_def hashed_def hash_heads_split linked_def peer_key_def split: if_splits)
  then have "connected st1 F1 (peer_key ip a) p" using c(7) by blast
  moreover have "ghost_ok il ifs F1 st1" by (rule ghost_upd [OF F'(2) il c(2) same]) (use c(3) sk0 in auto)
  moreover have "sound il ifs st1" by (rule sound_upd [OF F'(3,2) c(2) same _ c(3) live]) (simp add: sk0)
  moreover have "r = Asleep" using c(5) by (simp add: fresh_sock_def alloc_wait_struct_def wait_init_def)
  moreover have "wait_connect ?sk1 = \<lparr>sw_notified = 0, sw_dead = 0, sw_sleep = 1\<rparr>"
    by (simp add: after_sleep_def sleep_on_def fresh_sock_def alloc_wait_struct_def wait_init_def)
  moreover have "syn_for ip a fresh_sock = cb_of ip (htonl (sa_ip a)) (htons 12345) (htons (sa_port a)) 0 0 TCP_SYN 65535 0"
    by (simp add: syn_for_def fresh_sock_def TCP_DEFAULT_WINDOW_def)
  moreover have "emitted (st\<lparr>mallocs := drop 6 (mallocs st)\<rparr>) = emitted st0" by (intro ext) (simp add: emitted_def st0_def)
  ultimately show ?thesis using c(1,3,4) F'(1)
    by (intro exI [of _ st1] exI [of _ ?sk1] exI [of _ F1]) (simp add: tcp_client_start_def connecting_def peer_key_def)
qed

text \<open>The answer of the peer reaches the socket by its key.\<close>

lemma reply_dispatch:
  assumes ok: "stack_ok st F" and con: "connected st F (ip, dip, sport, dport) p"
    and reply: "received pkt (cb_of dip ip dport sport sq ack flags wnd n)"
  shows "handle_tcp_packet f st pkt 14 34 = tcp_process f st p (cb_of dip ip dport sport sq ack flags wnd n)"
proof -
  obtain sk where "socks st p = Some sk" using con by (auto simp: connected_def)
  then have "p \<noteq> 0" using sock_nonzero [OF ok] by blast
  then have "tcp_sock_lookup st (cb_of dip ip dport sport sq ack flags wnd n) = Inr p"
    using lookup_found [OF ok con] by (simp add: tcp_sock_lookup_def cb_of_def)
  with reply show ?thesis by (auto simp: handle_tcp_packet_def received_def)
qed

lemma handshake_reply:
  assumes f: "ip_init_hdr_ok f" and s: "sound il ifs st" and g: "ghost_ok il ifs F st"
    and sk: "socks st p = Some sk" "sk_state sk = TCP_SYN_SENT" "wait_connect sk = \<lparr>sw_notified = 0, sw_dead = 0, sw_sleep = 1\<rparr>"
    and con: "connected st F (ip, dip, sport, dport) p"
    and reply: "received pkt (cb_of dip ip dport sport sq ack (TCP_SYN OR TCP_ACK) wnd 0)"
    and seq: "is_tcp_seq_valid sk (cb_of dip ip dport sport sq ack (TCP_SYN OR TCP_ACK) wnd 0)"
  shows "\<exists>st2 st3 sk2 sk3. handle_tcp_packet f st pkt 14 34 = Inr st2 \<and> socks st2 p = Some sk2 \<and> sw_notified (wait_connect sk2) = 1 \<and>
    tcp_sock_connect_resume st2 p = Inr (0, st3) \<and> sound il ifs st3 \<and> socks st3 p = Some sk3 \<and>
    sk_state sk3 = TCP_ESTABLISHED \<and> tcp_sock_lookup_established st3 ip dip sport dport = Inr p"
proof -
  let ?cb = "cb_of dip ip dport sport sq ack (TCP_SYN OR TCP_ACK) wnd 0"
  have "cb_flags ?cb \<notin> {TCP_RST, TCP_FIN}" by (simp add: cb_of_def flag_defs)
  from syn_sent_step [OF f ghost_okD(1) [OF g] sk(1,2) seq this] obtain st2 where
    st2: "tcp_process f st p ?cb = Inr st2" "stack_ok st2 F" "socks st2 = (socks st)(p \<mapsto>
      sk\<lparr>sk_state := TCP_ESTABLISHED, wait_connect := fst (snd (wake_up (wait_connect sk)))\<rparr>)" by blast
  let ?sk2 = "sk\<lparr>sk_state := TCP_ESTABLISHED, wait_connect := fst (snd (wake_up (wait_connect sk)))\<rparr>"
  let ?sk3 = "?sk2\<lparr>wait_connect := snd (sleep_on_resume (wait_connect ?sk2))\<rparr>"
  let ?st3 = "st2\<lparr>socks := (socks st2)(p \<mapsto> ?sk3)\<rparr>"
  have ok3: "stack_ok ?st3 F"
    by (rule stack_ok_inner [OF st2(2), of p ?sk2]) (use st2(3) in \<open>simp_all add: sock_key_def\<close>)
  have "sound il ifs ?st3"
    by (rule sound_upd [OF s g ok3, of p ?sk3]) (use sk(1) st2(3) sound_live [OF s sk(1)] in \<open>simp_all add: sock_live_def\<close>)
  moreover have "connected ?st3 F (ip, dip, sport, dport) p"
    using con sk(1) by (auto simp: connected_def sock_key_def)
  then have "tcp_sock_lookup_established ?st3 ip dip sport dport = Inr p" by (rule lookup_found [OF ok3])
  moreover have "handle_tcp_packet f st pkt 14 34 = Inr st2"
    using reply_dispatch [OF ghost_okD(1) [OF g] con reply] st2(1) by simp
  moreover have "sw_notified (wait_connect ?sk2) = 1" using sk(3) by (simp add: wake_up_def)
  moreover have "tcp_sock_connect_resume st2 p = Inr (0, ?st3)"
    using st2(3) by (simp add: tcp_sock_connect_resume_def resume_sock_def set_wait_connect_def)
  ultimately show ?thesis using st2(3)
    by (intro exI [of _ st2] exI [of _ ?st3] exI [of _ ?sk2] exI [of _ ?sk3]) simp
qed

section \<open>The passive open\<close>

lemma server_start_ok:
  assumes ok: "stack_ok st F" and ready: "alloc_ready st p"
  shows "\<exists>st' F' sk. tcp_server_start st port = Inr (Asleep, p, st') \<and> stack_ok st' F' \<and> socks st' p = Some sk \<and>
    sk_state sk = TCP_LISTEN \<and> sk_sport sk = chosen_port (ntohs port) \<and>
    (\<forall>l q. listening st' F' l q \<longleftrightarrow> (q = p \<and> l = sk_sport sk) \<or> (q \<noteq> p \<and> listening st F l q)) \<and>
    (\<forall>k q. q \<noteq> p \<longrightarrow> connected st' F' k q = connected st F k q) \<and> (\<forall>k. \<not> connected st' F' k p)"
proof -
  obtain st1 F1 sk where 1: "open_server st \<lparr>sa_ip = htonl 0, sa_port = port\<rparr> 3 = Inr (p, st1)" "stack_ok st1 F1"
    "socks st1 = (socks st)(p \<mapsto> sk)" "sk_sport sk = chosen_port (ntohs port)" "sk_state sk = TCP_LISTEN"
    "\<forall>l q. listening st1 F1 l q \<longleftrightarrow> (q = p \<and> l = sk_sport sk) \<or> (q \<noteq> p \<and> listening st F l q)"
    "\<forall>k q. q \<noteq> p \<longrightarrow> connected st1 F1 k q = connected st F k q" "\<forall>k. \<not> connected st1 F1 k p"
    "wait_accept sk = alloc_wait_struct" "F1 (p + OFF_accept_queue) = Some []"
    using open_server_ok [OF ok ready, of "\<lparr>sa_ip = htonl 0, sa_port = port\<rparr>" 3] by auto
  let ?sk = "sk\<lparr>wait_accept := alloc_wait_struct\<lparr>sw_sleep := 1\<rparr>\<rparr>"
  let ?st = "st1\<lparr>socks := (socks st1)(p \<mapsto> ?sk)\<rparr>"
  have p: "socks st1 p = Some sk" using 1(3) by simp
  have "dll (nodes st1) (p + OFF_accept_queue) []"
    using lists.family_list [OF mem_ok_family [OF stack_okD(1) [OF 1(2)]] 1(10)] .
  then have "list_empty (nodes st1) (p + OFF_accept_queue) = Inr True"
    using dll_first [of "nodes st1" "p + OFF_accept_queue" "[]"] by (auto simp: list_empty_def rd_node_def)
  then have "tcp_sock_accept st1 p = Inr (Asleep, ?st)"
    using p 1(9) by (simp add: tcp_sock_accept_def sleep_on_sock_def set_wait_accept_def sleep_on_def alloc_wait_struct_def wait_init_def)
  then have "tcp_server_start st port = Inr (Asleep, p, ?st)" using 1(1) by (simp add: tcp_server_start_def)
  moreover have "stack_ok ?st F1" by (rule stack_ok_inner [OF 1(2) p]) (simp_all add: sock_key_def)
  moreover have "listening ?st F1 l q = listening st1 F1 l q" "connected ?st F1 k q = connected st1 F1 k q" for l k q
    using p by (auto simp: listening_def connected_def sock_key_def)
  ultimately show ?thesis using 1(4-8)
    by (intro exI [of _ ?st] exI [of _ F1] exI [of _ ?sk]) simp
qed

end
