(* ===== verification/Main_Program.thy ===== *)
theory Main_Program
  imports Interfaces Tcp_Runs Tcp_Timer
begin

text \<open>
  \<^verbatim>\<open>main\<close> of \<^verbatim>\<open>main.c\<close> with \<^verbatim>\<open>init_ustack\<close> and
  \<^verbatim>\<open>run_application\<close>. The application thread is a value of \<open>app\<close> with the argument
  it reads: the code hands it the address of a local variable of \<^verbatim>\<open>run_application\<close>, which
  returns at once, so what the thread finds there depends on when it looks. \<open>port_later\<close> and
  \<open>addr_later\<close> give the value found for the value stored; they are parameters without any
  hypothesis. \<^verbatim>\<open>inet_addr\<close> and the three calls that start the prebuilt library, \<^verbatim>\<open>arpcache_init\<close>, \<^verbatim>\<open>init_rtable\<close> and
  \<^verbatim>\<open>load_rtable_from_kernel\<close>, are parameters.
\<close>

section \<open>Arguments\<close>

definition is_space :: "char \<Rightarrow> bool" where
  "is_space c \<longleftrightarrow> of_char c \<in> {9 :: nat, 10, 11, 12, 13, 32}"

definition is_digit :: "char \<Rightarrow> bool" where
  "is_digit c \<longleftrightarrow> 48 \<le> (of_char c :: nat) \<and> (of_char c :: nat) \<le> 57"

definition digit_value :: "char \<Rightarrow> int" where
  "digit_value c = int (of_char c) - 48"

fun atoi_digits :: "int \<Rightarrow> string \<Rightarrow> int" where
  "atoi_digits acc [] = acc"
| "atoi_digits acc (c # cs) = (if is_digit c then atoi_digits (10 * acc + digit_value c) cs else acc)"

text \<open>\<^verbatim>\<open>atoi\<close>, for numbers that fit an \<^verbatim>\<open>int\<close>.\<close>

definition atoi :: "string \<Rightarrow> int" where
  "atoi s =
     (case dropWhile is_space s of
        [] \<Rightarrow> 0
      | c # cs \<Rightarrow>
          if c = CHR ''-'' then - atoi_digits 0 cs
          else if c = CHR ''+'' then atoi_digits 0 cs
          else atoi_digits 0 (c # cs))"

datatype app = Server u16 | Client sock_addr

definition usage_and_exit :: "app res" where
  "usage_and_exit = Inl (Exit 1)"

definition run_application ::
  "(string \<Rightarrow> u32) \<Rightarrow> (u16 \<Rightarrow> u16) \<Rightarrow> (sock_addr \<Rightarrow> sock_addr) \<Rightarrow> string list \<Rightarrow> app res" where
  "run_application inet_addr port_later addr_later args =
     (let n = length args in
      if args ! 0 = ''server'' then
        if n \<noteq> 2 then usage_and_exit
        else
          let port = htons (word_of_int (atoi (args ! 1))) in
          Inr (Server (port_later port))
      else if args ! 0 = ''client'' then
        if n \<noteq> 3 then usage_and_exit
        else
          let skaddr = \<lparr>sa_ip = inet_addr (args ! 1), sa_port = htons (word_of_int (atoi (args ! 2)))\<rparr> in
          Inr (Client (addr_later skaddr))
      else usage_and_exit)"

section \<open>Starting up\<close>

text \<open>
  \<open>start_library\<close> are the three calls of the library. They work on state of its own and take
  memory from \<^verbatim>\<open>malloc\<close>; \<open>lib_start_ok\<close> says that they return and leave all else alone.
\<close>

type_synonym lib_start = "machine \<Rightarrow> machine res"

definition takes_blocks :: "nat \<Rightarrow> stack \<Rightarrow> stack" where
  "takes_blocks n st = st\<lparr>mallocs := drop n (mallocs st)\<rparr>"

definition lib_start_ok :: "lib_start \<Rightarrow> nat \<Rightarrow> bool" where
  "lib_start_ok start_library n \<longleftrightarrow> (\<forall>m. start_library m = Inr (m\<lparr>stk := takes_blocks n (stk m)\<rparr>))"

definition init_ustack ::
  "lib_start \<Rightarrow> (string \<Rightarrow> device) \<Rightarrow> (nat \<Rightarrow> u8) \<Rightarrow> (string \<times> bool) list \<Rightarrow> stack \<Rightarrow> machine res" where
  "init_ustack start_library devs junk addrs st =
     (case malloc st of (p, _, st) \<Rightarrow>
      if p = 0 then Inl Wild_Pointer
      else
        let st = st\<lparr>nodes := (nodes st)(p \<mapsto> \<lparr>nxt = 0, prv = 0\<rparr>)\<rparr> in
        rbind (on_nodes st (\<lambda>h. init_list_head h p)) (\<lambda>st.
        rbind (init_all_ifaces devs junk
                 \<lparr>stk = st, ifaces = Map.empty, the_instance = p, nifs = 0, fds = [], leaked = 0\<rparr> addrs) (\<lambda>m.
        rbind (start_library m) (\<lambda>m.
        rbind (init_tcp_stack (stk m)) (\<lambda>st. Inr (m\<lparr>stk := st\<rparr>))))))"

text \<open>
  \<^verbatim>\<open>main\<close>: the process exits unless one of the user ids is zero and there is an argument;
  then the stack starts, the application is launched, and frames are received until
  \<^verbatim>\<open>poll\<close> fails. The result is the exit status, the application and the memory at the end.
\<close>

definition main_program ::
  "ip_init \<Rightarrow> icmp_send \<Rightarrow> arp_input \<Rightarrow> lib_start \<Rightarrow> (string \<Rightarrow> u32) \<Rightarrow> (u16 \<Rightarrow> u16) \<Rightarrow> (sock_addr \<Rightarrow> sock_addr) \<Rightarrow> (string \<Rightarrow> device) \<Rightarrow> (nat \<Rightarrow> u8) \<Rightarrow>
   (string \<times> bool) list \<Rightarrow> stack \<Rightarrow> poll_result list \<Rightarrow> nat \<Rightarrow> nat \<Rightarrow> string list \<Rightarrow> (int \<times> app \<times> machine) res" where
  "main_program ip_init_hdr icmp_send_packet handle_arp_packet start_library inet_addr port_later addr_later devs junk addrs st polls uid euid argv =
     (if uid \<noteq> 0 \<and> euid \<noteq> 0 then Inl (Exit 1)
      else if length argv < 2 then Inl (Exit 1)
      else
        rbind (init_ustack start_library devs junk addrs st) (\<lambda>m.
        rbind (run_application inet_addr port_later addr_later (tl argv)) (\<lambda>app.
        rbind (ustack_run ip_init_hdr icmp_send_packet handle_arp_packet m polls) (\<lambda>m.
        Inr (0, app, m)))))"

section \<open>Properties\<close>

lemma of_char_digit: "d < 10 \<Longrightarrow> (of_char (char_of (48 + d) :: char) :: nat) = 48 + d"
  by (simp add: of_char_of)

lemma digit_char: "d < 10 \<Longrightarrow> is_digit (char_of (48 + d)) \<and> digit_value (char_of (48 + d)) = int d"
  using of_char_digit [of d] by (simp add: is_digit_def digit_value_def)

lemma atoi_digits_decimal: "\<exists>k. \<forall>acc rest. atoi_digits acc (decimal n @ rest) = atoi_digits (10 ^ k * acc + int n) rest"
proof (induction n rule: less_induct)
  case (less n)
  show ?case
  proof (cases "n < 10")
    case True
    then show ?thesis using digit_char [of n] by (intro exI [of _ 1]) (simp add: decimal.simps)
  next
    case False
    then have "n div 10 < n" by simp
    from less [OF this] obtain k where k:
      "\<forall>acc rest. atoi_digits acc (decimal (n div 10) @ rest) = atoi_digits (10 ^ k * acc + int (n div 10)) rest" by blast
    have "int n = 10 * int (n div 10) + int (n mod 10)" by presburger
    then have "10 * (10 ^ k * acc + int (n div 10)) + int (n mod 10) = 10 ^ Suc k * acc + int n" for acc :: int
      by (simp add: algebra_simps)
    with False k digit_char [of "n mod 10"] show ?thesis
      by (intro exI [of _ "Suc k"]) (simp add: decimal.simps [of n] add.assoc mult.assoc)
  qed
qed

lemma decimal_head: "\<exists>(d :: nat) cs. decimal n = char_of (48 + d) # cs \<and> d < 10"
proof (induction n rule: less_induct)
  case (less n)
  show ?case
  proof (cases "n < 10")
    case True
    then show ?thesis by (intro exI [of _ n]) (subst decimal.simps, simp)
  next
    case False
    then have "n div 10 < n" by simp
    from less [OF this] obtain d :: nat and cs where "decimal (n div 10) = char_of (48 + d) # cs" "d < 10" by blast
    with False show ?thesis by (intro exI [of _ d]) (subst decimal.simps, simp)
  qed
qed

lemma atoi_decimal: "atoi (decimal n) = int n"
proof -
  obtain d :: nat and cs where d: "decimal n = char_of (48 + d) # cs" "d < 10" using decimal_head by blast
  have c: "(of_char (char_of (48 + d) :: char) :: nat) = 48 + d" using of_char_digit [OF d(2)] .
  then have "\<not> is_space (char_of (48 + d))" by (auto simp: is_space_def)
  moreover have "char_of (48 + d) \<noteq> CHR ''-''" "char_of (48 + d) \<noteq> CHR ''+''"
  proof -
    have "(of_char (CHR ''-'') :: nat) = 45" "(of_char (CHR ''+'') :: nat) = 43" by simp_all
    with c show "char_of (48 + d) \<noteq> CHR ''-''" "char_of (48 + d) \<noteq> CHR ''+''" by (metis add_leD1 numeral_le_iff le_add1 semiring_norm)+
  qed
  ultimately have "atoi (decimal n) = atoi_digits 0 (decimal n)" by (simp add: atoi_def d(1))
  also have "\<dots> = int n"
  proof -
    obtain k where "\<forall>acc rest. atoi_digits acc (decimal n @ rest) = atoi_digits (10 ^ k * acc + int n) rest"
      using atoi_digits_decimal by blast
    from this [rule_format, of 0 "[]"] show ?thesis by simp
  qed
  finally show ?thesis .
qed

section \<open>The start of the stack\<close>

text \<open>
  What \<^verbatim>\<open>malloc\<close> is to deliver at the start: a block at \<open>p\<close> for the
  \<^verbatim>\<open>ustack_t\<close>, blocks at \<open>ps\<close> for the interfaces, all different and in the heap, and
  one for the descriptors.
\<close>

definition start_blocks :: "(addr \<times> (nat \<Rightarrow> u8)) list \<Rightarrow> addr \<Rightarrow> addr list \<Rightarrow> bool" where
  "start_blocks ms p ps \<longleftrightarrow> length ps + 2 \<le> length ms \<and> map fst (take (Suc (length ps)) ms) = p # ps \<and>
     fst (ms ! Suc (length ps)) \<noteq> 0 \<and> distinct (p # ps) \<and> (\<forall>a\<in>set (p # ps). HEAP_BASE \<le> a)"

definition ifaces_up :: "(string \<Rightarrow> device) \<Rightarrow> (string \<times> bool) list \<Rightarrow> bool" where
  "ifaces_up devs es \<longleftrightarrow> (\<forall>e\<in>set es. length (fst e) < 16 \<and> (usable_iface e \<longrightarrow> device_up (devs (fst e)))) \<and> names_fit es"

lemma heads_below_heap: "l \<in> hash_heads \<union> bind_heads \<Longrightarrow> l < HEAP_BASE"
  using heads_low [of l] by (simp add: timer_list_def HEAP_BASE_def)

lemma bss_below_heap: "dom bss_nodes \<inter> {a. HEAP_BASE \<le> a} = {}"
  by (auto simp: bss_nodes_def HEAP_BASE_def split: if_splits)

lemma ifaces_setup:
  assumes b: "start_blocks ms p ps" and ps: "ps \<noteq> []" "length ps = length (filter usable_iface es)" and up: "ifaces_up devs es"
  defines "st \<equiv> (boot ms)\<lparr>mallocs := tl ms, nodes := bss_nodes(p \<mapsto> \<lparr>nxt = p, prv = p\<rparr>)\<rparr>"
  shows "\<exists>m. init_all_ifaces devs junk \<lparr>stk = st, ifaces = Map.empty, the_instance = p, nifs = 0, fds = [], leaked = 0\<rparr> es = Inr m \<and>
    the_instance m = p \<and> dll (nodes (stk m)) p ps \<and> nifs m = int (length ps) \<and>
    fds m = map (\<lambda>e. os_socket (devs (fst e))) (filter usable_iface es) \<and>
    map (ifaces m) ps = map (\<lambda>e. Some (opened_iface (devs (fst e)) (fst e))) (filter usable_iface es) \<and>
    dom (nodes (stk m)) = set (p # ps) \<union> dom bss_nodes \<and> socks (stk m) = Map.empty \<and> sent (stk m) = [] \<and>
    mallocs (stk m) = drop (length ps + 2) ms"
proof -
  let ?m = "\<lparr>stk = st, ifaces = Map.empty, the_instance = p, nifs = 0, fds = [], leaked = 0\<rparr> :: machine"
  obtain x xs where ms: "ms = x # xs" "map fst (take (length ps) xs) = ps" "length ps < length xs" "fst (xs ! length ps) \<noteq> 0"
    using b by (cases ms) (auto simp: start_blocks_def)
  have low: "p \<notin> set ps" "distinct ps" "0 \<notin> set ps" "set (p # ps) \<inter> dom bss_nodes = {}"
    using b bss_below_heap by (auto simp: start_blocks_def HEAP_BASE_def)
  then have "blocks_ready ?m ps" using ms by (auto simp: blocks_ready_def st_def)
  with init_all_ifaces_ok [of ?m "\<lparr>nxt = p, prv = p\<rparr>" ps es devs junk] ps up ms
  show ?thesis by (auto simp: ifaces_up_def st_def boot_def)
qed

lemma init_ustack_ok:
  assumes lib: "lib_start_ok lib n" and b: "start_blocks ms p ps" and ps: "ps \<noteq> []" "length ps = length (filter usable_iface es)" and up: "ifaces_up devs es"
  shows "\<exists>m. init_ustack lib devs junk es (boot ms) = Inr m \<and> the_instance m = p \<and> sound p ps (stk m) \<and>
    socks (stk m) = Map.empty \<and> sent (stk m) = [] \<and> mallocs (stk m) = drop (length ps + 2 + n) ms \<and> nifs m = int (length ps) \<and>
    dom (nodes (stk m)) = set (p # ps) \<union> dom bss_nodes \<and>
    fds m = map (\<lambda>e. os_socket (devs (fst e))) (filter usable_iface es) \<and>
    map (ifaces m) ps = map (\<lambda>e. Some (opened_iface (devs (fst e)) (fst e))) (filter usable_iface es)"
proof -
  obtain x ms' where x: "ms = x # ms'" "fst x = p" "p \<noteq> 0"
    using b by (cases ms) (auto simp: start_blocks_def HEAP_BASE_def)
  let ?st = "(boot ms)\<lparr>mallocs := tl ms, nodes := bss_nodes(p \<mapsto> \<lparr>nxt = p, prv = p\<rparr>)\<rparr>"
  from ifaces_setup [OF b ps up, of junk] obtain m1 where
    m1: "init_all_ifaces devs junk \<lparr>stk = ?st, ifaces = Map.empty, the_instance = p, nifs = 0, fds = [], leaked = 0\<rparr> es = Inr m1"
      "the_instance m1 = p" "dll (nodes (stk m1)) p ps" "nifs m1 = int (length ps)"
      "fds m1 = map (\<lambda>e. os_socket (devs (fst e))) (filter usable_iface es)"
      "map (ifaces m1) ps = map (\<lambda>e. Some (opened_iface (devs (fst e)) (fst e))) (filter usable_iface es)"
      "dom (nodes (stk m1)) = set (p # ps) \<union> dom bss_nodes" "socks (stk m1) = Map.empty" "mallocs (stk m1) = drop (length ps + 2) ms"
      "sent (stk m1) = []"
    by blast
  define m where "m = m1\<lparr>stk := takes_blocks n (stk m1)\<rparr>"
  have m: "lib m1 = Inr m" "the_instance m = p" "dll (nodes (stk m)) p ps" "nifs m = int (length ps)"
      "fds m = map (\<lambda>e. os_socket (devs (fst e))) (filter usable_iface es)"
      "map (ifaces m) ps = map (\<lambda>e. Some (opened_iface (devs (fst e)) (fst e))) (filter usable_iface es)"
      "dom (nodes (stk m)) = set (p # ps) \<union> dom bss_nodes" "socks (stk m) = Map.empty" "mallocs (stk m) = drop (length ps + 2 + n) ms"
      "sent (stk m) = []"
    using lib m1 by (simp_all add: m_def takes_blocks_def lib_start_ok_def add.commute)
  let ?G = "[p \<mapsto> ps]"
  have high: "set (p # ps) \<inter> (hash_heads \<union> bind_heads) = {}"
    using b heads_below_heap by (fastforce simp: start_blocks_def)
  have "family dll (nodes (stk m)) ?G" using m(3) by (simp add: family_def)
  moreover have "(hash_heads \<union> bind_heads) \<inter> footprint ?G = {}" using high by (auto simp: footprint_def)
  moreover have "hash_heads \<union> bind_heads \<subseteq> dom (nodes (stk m))" using bss_heads m(7) by blast
  ultimately obtain h where h: "init_tcp_stack (stk m) = Inr ((stk m)\<lparr>nodes := h\<rparr>)" "dom h = dom (nodes (stk m))"
    "stack_ok ((stk m)\<lparr>nodes := h\<rparr>) (empty_tables ?G)"
    using stack_ok_init [OF _ _ _ m(8)] by blast
  have "sound p ps ((stk m)\<lparr>nodes := h\<rparr>)"
  proof -
    have p: "timer_list \<notin> set (p # ps)" using b by (auto simp: start_blocks_def statics)
    have "timer_list \<notin> hash_heads \<union> bind_heads" using heads_low [of timer_list] by auto
    with p have "timer_list \<notin> footprint (empty_tables ?G)"
      by (auto simp: footprint_def empty_tables_def with_empty_def split: if_splits)
    moreover have "empty_tables ?G p = Some ps" using high by (auto simp: empty_tables_def with_empty_def)
    ultimately have "ghost_ok p ps (empty_tables ?G) ((stk m)\<lparr>nodes := h\<rparr>)" using h(3) m(8) by (simp add: ghost_ok_def)
    with high p m(8) show ?thesis by (auto simp: sound_def)
  qed
  moreover have "init_ustack lib devs junk es (boot ms) = Inr (m\<lparr>stk := (stk m)\<lparr>nodes := h\<rparr>\<rparr>)"
  proof -
    have "init_list_head (bss_nodes(p \<mapsto> \<lparr>nxt = 0, prv = 0\<rparr>)) p = Inr (bss_nodes(p \<mapsto> \<lparr>nxt = p, prv = p\<rparr>))"
      by (simp add: init_list_head_def set_prv_def set_nxt_def rd_node_def)
    with x m1(1) m(1) h(1) show ?thesis
      by (cases x) (simp add: init_ustack_def malloc_def on_nodes_def boot_def)
  qed
  ultimately show ?thesis using m(2,4-10) h(2) by (intro exI [of _ "m\<lparr>stk := (stk m)\<lparr>nodes := h\<rparr>\<rparr>"]) simp
qed

text \<open>The descriptors that \<^verbatim>\<open>poll\<close> watches lead back to their interfaces, in every sound
  state of the stack.\<close>

lemma watched_fd:
  fixes devs :: "string \<Rightarrow> device" and us :: "(string \<times> bool) list"
  assumes s: "sound p ps (stk m)" and m: "the_instance m = p" "fds m = map (\<lambda>e. os_socket (devs (fst e))) us"
    "map (ifaces m) ps = map (\<lambda>e. Some (opened_iface (devs (fst e)) (fst e))) us"
    and us: "distinct (map (\<lambda>e. os_socket (devs (fst e))) us)" "length ps = length us" "i < length ps"
  shows "fd_to_iface m (fds m ! i) = Inr (ps ! i)"
    "ifaces m (ps ! i) = Some (opened_iface (devs (fst (us ! i))) (fst (us ! i)))"
proof -
  let ?o = "\<lambda>e. opened_iface (devs (fst e)) (fst e)"
  obtain F where "stack_ok (stk m) F" "F p = Some ps" using sound_stackE [OF s] by blast
  then have d: "dll (nodes (stk m)) (the_instance m) ps"
    using lists.family_list [OF mem_ok_family [OF stack_okD(1)]] m(1) by blast
  have fd: "if_fd (?o e) = os_socket (devs (fst e))" for e by (simp add: opened_iface_def Let_def)
  have "map (ifaces m) ps = map Some (map ?o us)" "distinct (map if_fd (map ?o us))"
    using m(3) us(1) by (simp_all add: comp_def fd)
  from fd_to_iface_ok [OF d this us(3)] show "fd_to_iface m (fds m ! i) = Inr (ps ! i)"
    using us(2,3) m(2) by (simp add: fd)
  show "ifaces m (ps ! i) = Some (?o (us ! i))" using arg_cong [OF m(3), of "\<lambda>xs. xs ! i"] us(2,3) by simp
qed

text \<open>A machine with one interface and blocks from a plain allocator.\<close>

definition sample_device :: device where
  "sample_device = \<lparr>os_socket = 5, os_find_index = Some 2, os_bind = True, os_hwaddr = Some [2, 0, 0, 0, 0, 1],
     os_addr = (\<lambda>_. Some 0x0100000a), os_mask = (\<lambda>_. Some 0x000000ff)\<rparr>"

definition sample_library :: lib_start where
  "sample_library m = Inr m"

lemma sample_library_ok: "lib_start_ok sample_library 0"
  by (simp add: lib_start_ok_def sample_library_def takes_blocks_def)

definition sample_addrs :: "(string \<times> bool) list" where
  "sample_addrs = [(''lo'', True), (''h1-eth0'', True)]"

lemma sample_ifaces: "filter usable_iface sample_addrs = [(''h1-eth0'', True)]"
  by (simp add: sample_addrs_def usable_iface_def)

lemma sample_ifaces_up: "ifaces_up (\<lambda>_. sample_device) sample_addrs"
proof -
  have "names_fit sample_addrs" by (simp only: names_fit_def sample_ifaces) simp
  then show ?thesis by (simp add: ifaces_up_def device_up_def sample_device_def sample_addrs_def)
qed

lemma sample_start_blocks: "3 \<le> n \<Longrightarrow> start_blocks (sample_mallocs n) 20480 [24576]"
proof -
  assume n: "3 \<le> n"
  then have "take 2 (sample_mallocs n) = [(20480, \<lambda>_. 0), (24576, \<lambda>_. 0)]"
    by (simp add: sample_mallocs_def take_map HEAP_BASE_def upt_conv_Cons numeral_eq_Suc)
  with n show ?thesis
    by (simp add: start_blocks_def numeral_2_eq_2) (simp add: sample_mallocs_def HEAP_BASE_def)
qed

lemma sample_start:
  assumes "9 \<le> n"
  shows "\<exists>m. init_ustack sample_library (\<lambda>_. sample_device) (\<lambda>_. 0) sample_addrs (boot (sample_mallocs n)) = Inr m \<and>
    sound 20480 [24576] (stk m) \<and> socks (stk m) = Map.empty \<and> mallocs (stk m) = drop 3 (sample_mallocs n) \<and>
    sent (stk m) = [] \<and> alloc_ready (stk m) 32768"
proof -
  obtain m where m: "init_ustack sample_library (\<lambda>_. sample_device) (\<lambda>_. 0) sample_addrs (boot (sample_mallocs n)) = Inr m"
    "sound 20480 [24576] (stk m)" "socks (stk m) = Map.empty" "mallocs (stk m) = drop 3 (sample_mallocs n)"
    "dom (nodes (stk m)) = set [20480, 24576] \<union> dom bss_nodes" "sent (stk m) = []"
    using init_ustack_ok [OF sample_library_ok sample_start_blocks [of n] _ _ sample_ifaces_up, of "\<lambda>_. 0"] assms by (auto simp: sample_ifaces numeral_3_eq_3)
  obtain F where F: "stack_ok (stk m) F" using sound_stackE [OF m(2)] by blast
  have "dom bss_nodes \<subseteq> {..<32768}" using bss_below_heap by (auto simp: HEAP_BASE_def)
  then have "alloc_ready (stk m) (HEAP_BASE + 4096 * int 3)"
    using m(3-5) assms by (intro sample_alloc [OF F, of 3 n]) (auto simp: HEAP_BASE_def)
  with m show ?thesis by (auto simp: HEAP_BASE_def)
qed

section \<open>Properties\<close>

text \<open>
  C26: After \<^verbatim>\<open>init_ustack\<close> the stack is ready. With working devices, memory and
  library it completes; the tables are empty and sound, every usable interface is listed with the index,
  addresses and names the kernel reports, and each descriptor that \<^verbatim>\<open>poll\<close> watches leads
  \<^verbatim>\<open>fd_to_iface\<close> back to its own interface.
\<close>

theorem init_ustack_ready:
  assumes "lib_start_ok lib n" and "start_blocks ms p ps" and "ps \<noteq> []" and "length ps = length (filter usable_iface es)" and "ifaces_up devs es"
    and "distinct (map (\<lambda>e. os_socket (devs (fst e))) (filter usable_iface es))" and "i < length ps"
  shows "\<exists>m. init_ustack lib devs junk es (boot ms) = Inr m \<and> the_instance m = p \<and> sound p ps (stk m) \<and> socks (stk m) = Map.empty \<and>
    nifs m = int (length ps) \<and> fds m = map (\<lambda>e. os_socket (devs (fst e))) (filter usable_iface es) \<and> fd_to_iface m (fds m ! i) = Inr (ps ! i) \<and>
    ifaces m (ps ! i) = Some (opened_iface (devs (fst (filter usable_iface es ! i))) (fst (filter usable_iface es ! i)))"
proof -
  let ?us = "filter usable_iface es"
  obtain m where m: "init_ustack lib devs junk es (boot ms) = Inr m" "the_instance m = p" "sound p ps (stk m)"
    "socks (stk m) = Map.empty" "nifs m = int (length ps)" "fds m = map (\<lambda>e. os_socket (devs (fst e))) ?us"
    "map (ifaces m) ps = map (\<lambda>e. Some (opened_iface (devs (fst e)) (fst e))) ?us"
    using init_ustack_ok [OF assms(1-5)] by blast
  from watched_fd [OF m(3,2,6,7) assms(6,4,7)] m show ?thesis by (intro exI [of _ m]) simp
qed

theorem init_ustack_ready_witness:
  "\<exists>m. init_ustack sample_library (\<lambda>_. sample_device) (\<lambda>_. 0) sample_addrs (boot (sample_mallocs 3)) = Inr m \<and>
     fd_to_iface m 5 = Inr 24576 \<and> map_option if_ip (ifaces m 24576) = Some 0x0a000001"
proof -
  have fds: "map (\<lambda>e. os_socket sample_device) (filter usable_iface sample_addrs) = [5]"
    by (simp only: sample_ifaces) (simp add: sample_device_def)
  have ip: "if_ip (opened_iface sample_device x) = 0x0a000001" for x
    by (simp add: opened_iface_def sample_device_def Let_def) code_simp
  have "\<exists>m. init_ustack sample_library (\<lambda>_. sample_device) (\<lambda>_. 0) sample_addrs (boot (sample_mallocs 3)) = Inr m \<and> the_instance m = 20480 \<and>
      sound 20480 [24576] (stk m) \<and> socks (stk m) = Map.empty \<and> nifs m = int (length [24576 :: addr]) \<and>
      fds m = map (\<lambda>e. os_socket sample_device) (filter usable_iface sample_addrs) \<and>
      fd_to_iface m (fds m ! 0) = Inr ([24576] ! 0) \<and>
      ifaces m ([24576] ! 0) = Some (opened_iface sample_device (fst (filter usable_iface sample_addrs ! 0)))"
    by (rule init_ustack_ready [OF sample_library_ok sample_start_blocks _ _ sample_ifaces_up]) (simp_all only: fds sample_ifaces, simp_all)
  then obtain m where "init_ustack sample_library (\<lambda>_. sample_device) (\<lambda>_. 0) sample_addrs (boot (sample_mallocs 3)) = Inr m"
    "fds m = [5]" "fd_to_iface m (fds m ! 0) = Inr ([24576] ! 0)"
    "ifaces m ([24576] ! 0) = Some (opened_iface sample_device (fst (filter usable_iface sample_addrs ! 0)))"
    unfolding fds by blast
  with ip show ?thesis by simp
qed

end
