(* ===== verification/Program_Runs.thy ===== *)
theory Program_Runs
  imports Main_Program
begin

text \<open>
  Runs of the whole program. After \<^verbatim>\<open>init_ustack\<close> the application and timer threads make
  their calls while the main thread, in \<^verbatim>\<open>ustack_run\<close>, receives frames; an \<open>event\<close> is one
  of either. The specification of \<open>Tcp_Spec\<close> is extended by the frames: each needs a block of
  memory, and only those that are IP packets for the address of their interface with TCP inside
  reach the stack. It also counts the packets that are never freed.

  Frames of ARP and the answer to an ICMP echo request are the business of the prebuilt library:
  \<open>library_ok\<close> says that it leaves sockets, tables and interfaces alone and takes memory only.
\<close>

section \<open>Where a frame goes\<close>

datatype target = To_Tcp nat | To_Library | Ignored | Unclaimed

definition target_of :: "u32 \<Rightarrow> u8 list \<Rightarrow> target res" where
  "target_of address buf =
     rbind (rd16 buf 12) (\<lambda>ty.
     if ntohs ty = ETH_P_IP then
       rbind (rd32 buf 30) (\<lambda>daddr.
       if ntohl daddr \<noteq> address then Inr Unclaimed
       else
         rbind (rd8 buf 23) (\<lambda>protocol.
         if protocol = IPPROTO_ICMP then
           rbind (IP_DATA buf 14) (\<lambda>icmp.
           rbind (rd8 buf icmp) (\<lambda>type.
           Inr (if type = ICMP_ECHOREQUEST then To_Library else Ignored)))
         else if protocol = IPPROTO_TCP then rbind (IP_DATA buf 14) (\<lambda>tcp. Inr (To_Tcp tcp))
         else Inr Ignored))
     else Inr (if ntohs ty = ETH_P_ARP then To_Library else Unclaimed))"

text \<open>The library answers a packet with \<open>used pkt\<close> blocks of memory.\<close>

definition library_ok :: "icmp_send \<Rightarrow> arp_input \<Rightarrow> (u8 list \<Rightarrow> nat) \<Rightarrow> bool" where
  "library_ok icmp_send_packet handle_arp_packet used \<longleftrightarrow>
     (\<forall>st pkt len type code. icmp_send_packet st pkt len type code = takes_blocks (used pkt) st) \<and>
     (\<forall>m iface pkt len. handle_arp_packet m iface pkt len = Inr (m\<lparr>stk := takes_blocks (used pkt) (stk m)\<rparr>))"

lemma handle_packet_target:
  assumes lib: "library_ok g arp used" and i: "ifaces m iface = Some i" and t: "target_of (if_ip i) buf = Inr t"
  shows "handle_packet f g arp m iface buf len =
    (case t of
       To_Tcp tcp \<Rightarrow> rbind (handle_tcp_packet f (stk m) buf 14 tcp) (\<lambda>st. Inr (m\<lparr>stk := st\<rparr>))
     | To_Library \<Rightarrow> Inr (m\<lparr>stk := takes_blocks (used buf) (stk m)\<rparr>)
     | Ignored \<Rightarrow> Inr m
     | Unclaimed \<Rightarrow> Inr (m\<lparr>leaked := leaked m + 1\<rparr>))"
proof -
  have icmp: "g st pkt l ty code = takes_blocks (used pkt) st" for st pkt l ty code using lib by (simp add: library_ok_def)
  have arp: "arp m iface pkt l = Inr (m\<lparr>stk := takes_blocks (used pkt) (stk m)\<rparr>)" for m iface pkt l using lib by (simp add: library_ok_def)
  show ?thesis using i t
    by (auto simp: target_of_def handle_packet_def handle_ip_packet_def packet_to_ip_hdr_def size_defs rd_iface_def icmp arp
        IPPROTO_TCP_def IPPROTO_ICMP_def rbind_Inr_iff split: if_splits)
qed

section \<open>Events\<close>

datatype event = Call api_call | Receive nat rx

fun prog_step :: "ip_init \<Rightarrow> icmp_send \<Rightarrow> arp_input \<Rightarrow> addr \<Rightarrow> u32 \<Rightarrow> machine \<Rightarrow> event \<Rightarrow> machine res" where
  "prog_step f g arp il ip m (Call c) = rbind (api_step f il (Some ip) (stk m) c) (\<lambda>st. Inr (m\<lparr>stk := st\<rparr>))"
| "prog_step f g arp il ip m (Receive i r) = receive_on f g arp m (fds m ! i) r"

text \<open>Segments come in frames only.\<close>

fun is_segment :: "api_call \<Rightarrow> bool" where
  "is_segment (Segment tcp pkt) = True"
| "is_segment c = False"

definition frame_ok :: "u32 \<Rightarrow> stack \<Rightarrow> u8 list \<Rightarrow> bool" where
  "frame_ok address st buf \<longleftrightarrow>
     (case target_of address buf of
        Inl e \<Rightarrow> False
      | Inr (To_Tcp tcp) \<Rightarrow> admissible st (Segment tcp buf)
      | Inr t \<Rightarrow> True)"

fun prog_ok :: "u32 list \<Rightarrow> machine \<Rightarrow> event \<Rightarrow> bool" where
  "prog_ok as m (Call c) \<longleftrightarrow> \<not> is_segment c \<and> admissible (stk m) c"
| "prog_ok as m (Receive i (Incoming frame)) \<longleftrightarrow> i < length as \<and>
     (let buf = take ETH_FRAME_LEN frame in
      buf = [] \<or> (case mallocs (stk m) of [] \<Rightarrow> True
        | b # bs \<Rightarrow> fst b = 0 \<or> frame_ok (as ! i) ((stk m)\<lparr>mallocs := bs\<rparr>) buf))"
| "prog_ok as m (Receive i r) \<longleftrightarrow> i < length as"

section \<open>The specification\<close>

definition spec_frame :: "(u8 list \<Rightarrow> nat) \<Rightarrow> u32 \<Rightarrow> target res \<Rightarrow> u8 list \<Rightarrow> spec \<times> nat \<Rightarrow> spec \<times> nat" where
  "spec_frame used ip t buf sn =
     (case t of
        Inr (To_Tcp tcp) \<Rightarrow> (spec_step ip (fst sn) (Segment tcp buf), snd sn)
      | Inr To_Library \<Rightarrow> ((fst sn)\<lparr>sp_mem := drop (used buf) (sp_mem (fst sn))\<rparr>, snd sn)
      | Inr Unclaimed \<Rightarrow> (fst sn, snd sn + 1)
      | _ \<Rightarrow> sn)"

fun prog_spec :: "(u8 list \<Rightarrow> nat) \<Rightarrow> u32 \<Rightarrow> u32 list \<Rightarrow> spec \<times> nat \<Rightarrow> event \<Rightarrow> spec \<times> nat" where
  "prog_spec used ip as (s, n) (Call c) = (spec_step ip s c, n)"
| "prog_spec used ip as (s, n) (Receive i (Incoming frame)) =
     (let buf = take ETH_FRAME_LEN frame; s' = s\<lparr>sp_mem := tl (sp_mem s)\<rparr> in
      if buf = [] then (s, n)
      else if \<not> can_send s then (s', n)
      else spec_frame used ip (target_of (as ! i) buf) buf (s', n))"
| "prog_spec used ip as (s, n) (Receive i r) = (s, n)"

definition prog_view :: "machine \<Rightarrow> spec \<times> nat" where
  "prog_view m = (view (stk m), leaked m)"

section \<open>The invariant\<close>

text \<open>The interfaces \<open>is\<close> are linked at \<open>ps\<close> and their descriptors are polled.\<close>

definition wired :: "addr \<Rightarrow> addr list \<Rightarrow> iface_info list \<Rightarrow> machine \<Rightarrow> bool" where
  "wired p ps is m \<longleftrightarrow> the_instance m = p \<and> fds m = map if_fd is \<and> map (ifaces m) ps = map Some is \<and> distinct (map if_fd is)"

definition prog_inv :: "ip_init \<Rightarrow> addr \<Rightarrow> addr list \<Rightarrow> iface_info list \<Rightarrow> machine \<Rightarrow> bool" where
  "prog_inv f p ps is m \<longleftrightarrow> ip_init_hdr_ok f \<and> sound p ps (stk m) \<and> wired p ps is m"

lemma wired_upd [simp]: "wired p ps is (m\<lparr>stk := st\<rparr>) = wired p ps is m" "wired p ps is (m\<lparr>leaked := n\<rparr>) = wired p ps is m"
  by (simp_all add: wired_def)

lemma wired_iface:
  assumes "prog_inv f p ps is m" "i < length is"
  shows "fd_to_iface m (fds m ! i) = Inr (ps ! i)" "ifaces m (ps ! i) = Some (is ! i)"
proof -
  have m: "the_instance m = p" "fds m = map if_fd is" "map (ifaces m) ps = map Some is" "distinct (map if_fd is)"
    "sound p ps (stk m)" using assms(1) by (simp_all add: prog_inv_def wired_def)
  have len: "length ps = length is" using arg_cong [OF m(3), of length] by simp
  obtain F where "stack_ok (stk m) F" "F p = Some ps" using sound_stackE [OF m(5)] by blast
  then have "dll (nodes (stk m)) (the_instance m) ps"
    using lists.family_list [OF mem_ok_family [OF stack_okD(1)]] m(1) by blast
  from fd_to_iface_ok [OF this m(3,4)] show "fd_to_iface m (fds m ! i) = Inr (ps ! i)" using assms(2) len m(2) by simp
  show "ifaces m (ps ! i) = Some (is ! i)" using arg_cong [OF m(3), of "\<lambda>xs. xs ! i"] assms(2) len by simp
qed

lemma sound_mallocs [simp]: "sound p ps (st\<lparr>mallocs := ms\<rparr>) = sound p ps st"
  by (simp add: sound_def ghost_ok_def stack_ok_def)

lemma view_mallocs: "view (st\<lparr>mallocs := ms\<rparr>) = (view st)\<lparr>sp_mem := map (\<lambda>m. fst m \<noteq> 0) ms\<rparr>"
proof -
  have "conns (st\<lparr>mallocs := ms\<rparr>) k = conns st k" for k
    by (cases k) (simp add: tcp_sock_lookup_established_def hash_entry_def rd_sock_def)
  moreover have "listeners (st\<lparr>mallocs := ms\<rparr>) k = listeners st k" for k
    by (simp add: listeners_def tcp_sock_lookup_listen_def hash_entry_def rd_sock_def)
  ultimately show ?thesis by (simp add: view_def fun_eq_iff)
qed

lemma sp_mem_view: "sp_mem (view st) = map (\<lambda>m. fst m \<noteq> 0) (mallocs st)"
  by (simp add: view_def)

lemma view_no_mem: "mallocs st = [] \<Longrightarrow> (view st)\<lparr>sp_mem := []\<rparr> = view st"
  by (simp add: view_def)

lemma prog_view_blocks: "prog_view (m\<lparr>stk := takes_blocks k (stk m)\<rparr>) =
    ((view (stk m))\<lparr>sp_mem := drop k (sp_mem (view (stk m)))\<rparr>, leaked m)"
  by (simp add: prog_view_def takes_blocks_def view_mallocs sp_mem_view drop_map)

lemma prog_inv_blocks: "prog_inv f p ps is m \<Longrightarrow> prog_inv f p ps is (m\<lparr>stk := takes_blocks k (stk m)\<rparr>)"
  by (simp add: prog_inv_def takes_blocks_def)

text \<open>One frame for which there is memory.\<close>

lemma frame_step:
  assumes lib: "library_ok g arp used" and inv: "prog_inv f p ps is m" "i < length is" and ok: "frame_ok (if_ip (is ! i)) (stk m) buf"
  shows "\<exists>m'. handle_packet f g arp m (ps ! i) buf (int (length buf)) = Inr m' \<and> prog_inv f p ps is m' \<and>
    prog_view m' = spec_frame used ip (target_of (if_ip (is ! i)) buf) buf (prog_view m)"
proof -
  obtain t where t: "target_of (if_ip (is ! i)) buf = Inr t" "\<And>tcp. t = To_Tcp tcp \<Longrightarrow> admissible (stk m) (Segment tcp buf)"
    using ok by (auto simp: frame_ok_def split: sum.splits target.splits)
  note path = handle_packet_target [OF lib wired_iface(2) [OF inv] t(1), where len = "int (length buf)"]
  show ?thesis
  proof (cases t)
    case (To_Tcp tcp)
    have "ip_init_hdr_ok f" "sound p ps (stk m)" using inv(1) by (simp_all add: prog_inv_def)
    with t(2) [OF To_Tcp] obtain st where "handle_tcp_packet f (stk m) buf 14 tcp = Inr st" "sound p ps st"
      "view st = spec_step ip (view (stk m)) (Segment tcp buf)"
      using admissible_step [of f p ps "stk m" "Segment tcp buf" ip] by auto
    with path t(1) To_Tcp inv(1) show ?thesis by (simp add: prog_view_def prog_inv_def spec_frame_def)
  next
    case To_Library
    with path t(1) prog_inv_blocks [OF inv(1)] show ?thesis by (simp add: prog_view_blocks) (simp add: prog_view_def spec_frame_def)
  qed (use path t(1) inv(1) in \<open>auto simp: prog_view_def prog_inv_def spec_frame_def\<close>)
qed

lemma receive_step:
  assumes lib: "library_ok g arp used" and inv: "prog_inv f p ps is m" and ok: "prog_ok (map if_ip is) m (Receive i r)"
  shows "\<exists>m'. receive_on f g arp m (fds m ! i) r = Inr m' \<and> prog_inv f p ps is m' \<and>
    prog_view m' = prog_spec used ip (map if_ip is) (prog_view m) (Receive i r)"
proof (cases r)
  case (Incoming frame)
  let ?buf = "take ETH_FRAME_LEN frame"
  have i: "i < length is" using ok Incoming by simp
  note fd = wired_iface(1) [OF inv i]
  show ?thesis
  proof (cases "?buf = [] \<or> mallocs (stk m) = [] \<or> fst (List.hd (mallocs (stk m))) = 0")
    case True
    then show ?thesis using inv fd Incoming
      by (cases "mallocs (stk m)"; cases "List.hd (mallocs (stk m))")
        (simp_all add: receive_on_def malloc_def prog_view_def prog_inv_def view_mallocs can_send_view Let_def sp_mem_view view_no_mem, auto)
  next
    case False
    then obtain b bs where b: "mallocs (stk m) = b # bs" "fst b \<noteq> 0" "?buf \<noteq> []" by (cases "mallocs (stk m)") auto
    let ?m = "m\<lparr>stk := (stk m)\<lparr>mallocs := bs\<rparr>\<rparr>"
    have run: "receive_on f g arp m (fds m ! i) r = handle_packet f g arp ?m (ps ! i) ?buf (int (length ?buf))"
      using b fd Incoming by (cases b) (auto simp: receive_on_def malloc_def Let_def)
    have "prog_inv f p ps is ?m" "frame_ok (if_ip (is ! i)) (stk ?m) ?buf"
      using inv ok b i Incoming by (auto simp: prog_inv_def)
    note step = frame_step [OF lib this(1) i this(2), of ip]
    have "prog_spec used ip (map if_ip is) (prog_view m) (Receive i r) =
      spec_frame used ip (target_of (if_ip (is ! i)) ?buf) ?buf (prog_view ?m)"
      using b i Incoming by (simp add: view_mallocs prog_view_def can_send_view Let_def sp_mem_view)
    with step show ?thesis unfolding run by (simp only:)
  qed
qed (use inv in \<open>auto simp: receive_on_def prog_view_def\<close>)

lemma prog_step_ok:
  assumes "library_ok g arp used" "prog_inv f p ps is m" "prog_ok (map if_ip is) m e"
  shows "\<exists>m'. prog_step f g arp p ip m e = Inr m' \<and> prog_inv f p ps is m' \<and>
    prog_view m' = prog_spec used ip (map if_ip is) (prog_view m) e"
proof (cases e)
  case (Call c)
  have "ip_init_hdr_ok f" "sound p ps (stk m)" using assms(2) by (simp_all add: prog_inv_def)
  with assms(3) Call obtain st where "api_step f p (Some ip) (stk m) c = Inr st" "sound p ps st" "view st = spec_step ip (view (stk m)) c"
    using admissible_step [of f p ps "stk m" c ip] by auto
  with assms(2) Call show ?thesis by (simp add: prog_inv_def prog_view_def)
next
  case (Receive i r)
  with receive_step [OF assms(1,2)] assms(3) show ?thesis by auto
qed

interpretation prog: refining_machine "\<lambda>m. library_ok g arp used \<and> prog_inv f p ps is m" "prog_ok (map if_ip is)"
    "prog_step f g arp p ip" prog_view "prog_spec used ip (map if_ip is)"
  for f g arp used p ps ip "is"
  by unfold_locales (metis prog_step_ok, metis prog_step_ok sum.inject(2))

section \<open>The receive loop\<close>

text \<open>The events in a sequence of results of \<^verbatim>\<open>poll\<close>, up to the failure that ends the loop.\<close>

fun poll_events :: "poll_result list \<Rightarrow> event list" where
  "poll_events [] = []"
| "poll_events (Poll_Failed # rs) = []"
| "poll_events (Poll_Timeout # rs) = poll_events rs"
| "poll_events (Poll_Ready xs # rs) = map2 Receive [0..<length xs] xs @ poll_events rs"

lemma run_append: "run step s (xs @ ys) = rbind (run step s xs) (\<lambda>s. run step s ys)"
  by (induction xs arbitrary: s) (simp_all add: rbind_def split: sum.splits)

lemma obeys_append: "run step s xs = Inr s' \<Longrightarrow> obeys ok step s (xs @ ys) \<longleftrightarrow> obeys ok step s xs \<and> obeys ok step s' ys"
  by (induction xs arbitrary: s) (auto simp: rbind_def split: sum.splits)

lemma obeys_prefix: "obeys ok step s (xs @ ys) \<Longrightarrow> obeys ok step s xs"
  by (induction xs arbitrary: s) (auto split: sum.splits)

lemma obeys_appendI: "obeys ok step s xs \<Longrightarrow> (\<And>s'. obeys ok step s' ys) \<Longrightarrow> obeys ok step s (xs @ ys)"
  by (induction xs arbitrary: s) (auto split: sum.splits)

lemma receive_all_events:
  assumes lib: "library_ok g arp used" and "prog_inv f p ps is m" "obeys (prog_ok (map if_ip is)) (prog_step f g arp p ip) m (map2 Receive [k..<k + length rs] rs)"
  shows "receive_all f g arp m (drop k (map if_fd is)) rs = run (prog_step f g arp p ip) m (map2 Receive [k..<k + length rs] rs)"
  using assms(2,3)
proof (induction rs arbitrary: k m)
  case (Cons r rs)
  have ev: "map2 Receive [k..<k + length (r # rs)] (r # rs) = Receive k r # map2 Receive [Suc k..<Suc k + length rs] rs"
    by (simp add: upt_conv_Cons del: upt_Suc)
  have ok: "prog_ok (map if_ip is) m (Receive k r)" using Cons.prems(2) unfolding ev by simp
  then have k: "k < length is" by (cases r) auto
  have "fds m = map if_fd is" using Cons.prems(1) by (simp add: prog_inv_def wired_def)
  then have "drop k (map if_fd is) = fds m ! k # drop (Suc k) (map if_fd is)" using k by (metis Cons_nth_drop_Suc length_map)
  moreover obtain m' where m': "prog_step f g arp p ip m (Receive k r) = Inr m'" "prog_inv f p ps is m'"
    using prog_step_ok [OF lib Cons.prems(1) ok] by blast
  moreover from this Cons.prems(2) Cons.IH [of m' "Suc k"]
  have "receive_all f g arp m' (drop (Suc k) (map if_fd is)) rs = run (prog_step f g arp p ip) m' (map2 Receive [Suc k..<Suc k + length rs] rs)"
    unfolding ev by simp
  ultimately show ?case unfolding ev by simp
qed simp

lemma ustack_run_events:
  assumes lib: "library_ok g arp used" and "prog_inv f p ps is m" "obeys (prog_ok (map if_ip is)) (prog_step f g arp p ip) m (poll_events rs)"
  shows "ustack_run f g arp m rs = run (prog_step f g arp p ip) m (poll_events rs)"
  using assms(2,3)
proof (induction rs arbitrary: m rule: poll_events.induct)
  case (4 xs rs)
  let ?step = "prog_step f g arp p ip" and ?ev = "map2 Receive [0..<0 + length xs] xs"
  have "obeys (prog_ok (map if_ip is)) ?step m ?ev"
  proof (cases "run ?step m ?ev")
    case (Inr m')
    with 4(3) show ?thesis using obeys_append [OF Inr] by simp
  qed (use 4 in \<open>auto dest: obeys_prefix\<close>)
  with 4(2) obtain m' where m': "run ?step m ?ev = Inr m'" "prog_inv f p ps is m'"
    using prog.run_safe lib by blast
  then show ?case using 4 obeys_append [OF m'(1)] receive_all_events [OF lib 4(2), of ip 0 xs]
    by (simp add: run_append prog_inv_def wired_def)
qed auto

section \<open>The start\<close>

lemma add_ifaces_leaked: "add_ifaces m es = Inr m' \<Longrightarrow> leaked m' = leaked m"
proof (induction es arbitrary: m)
  case (Cons e es)
  have "leaked m1 = leaked m" if "add_iface m name = Inr m1" for m m1 name
    using that by (auto simp: add_iface_def rbind_Inr_iff Let_def split: prod.splits if_splits)
  with Cons show ?case by (auto simp: rbind_Inr_iff split: if_splits)
qed simp

lemma read_ifaces_leaked:
  "read_ifaces devs junk m got n = Some r \<Longrightarrow> case r of Inl e \<Rightarrow> True | Inr m' \<Rightarrow> leaked m' = leaked m"
proof (erule read_ifaces.raw_induct [rotated])
  fix rec devs junk m got n r
  assume IH: "\<And>devs junk m got n r. rec devs junk m got n = Some r \<Longrightarrow> case r of Inl e \<Rightarrow> True | Inr m' \<Rightarrow> leaked m' = leaked m"
    and body: "(if n = the_instance m then Some (Inr (m\<lparr>fds := got\<rparr>))
      else case rd_iface m (list_entry n 0) of
        Inl e \<Rightarrow> Some (Inl e)
      | Inr iface \<Rightarrow> case read_iface_info (devs (if_name iface)) junk iface of
          Inl e \<Rightarrow> Some (Inl e)
        | Inr r \<Rightarrow> if nifs m \<le> int (length got) then Some (Inl Out_Of_Bounds)
            else case rd_node (nodes (stk m)) n of
              Inl e \<Rightarrow> Some (Inl e)
            | Inr nd \<Rightarrow> rec devs junk (m\<lparr>ifaces := (ifaces m)(list_entry n 0 \<mapsto> snd r)\<rparr>) (got @ [fst r]) (nxt nd)) = Some r"
  have "leaked m' = leaked m" if "rec devs junk m got n = Some (Inr m')" for devs junk m got n m'
    using IH [OF that] by simp
  then show "case r of Inl e \<Rightarrow> True | Inr m' \<Rightarrow> leaked m' = leaked m"
    using body by (fastforce split: if_splits sum.splits)
qed

lemma init_ustack_leaked:
  assumes "lib_start_ok lib n" and "init_ustack lib devs junk es st = Inr m"
  shows "leaked m = 0"
proof -
  have found: "leaked m1 = leaked m" if "find_available_ifaces m es = Inr m1" for m m1
    using that by (auto simp: find_available_ifaces_def rbind_Inr_iff split: if_splits dest!: add_ifaces_leaked)
  have "leaked m' = leaked m" if init: "init_all_ifaces devs junk m es = Inr m'" for m m'
  proof -
    obtain m1 where m1: "find_available_ifaces m es = Inr m1" using init by (auto simp: init_all_ifaces_def rbind_Inr_iff)
    with init obtain st nd where "of_loop (read_ifaces devs junk (m1\<lparr>stk := st\<rparr>) [] nd) = Inr m'"
      by (cases "malloc (stk m1)") (auto simp: init_all_ifaces_def rbind_Inr_iff Let_def split: if_splits)
    then have "leaked m' = leaked m1"
      using read_ifaces_leaked [of devs junk "m1\<lparr>stk := st\<rparr>" "[]" nd] by (auto simp: of_loop_def split: option.splits)
    with found [OF m1] show ?thesis by simp
  qed
  with assms show ?thesis by (auto simp: init_ustack_def lib_start_ok_def rbind_Inr_iff Let_def split: prod.splits if_splits)
qed

text \<open>The interfaces the start opens.\<close>

definition opened :: "(string \<Rightarrow> device) \<Rightarrow> (string \<times> bool) list \<Rightarrow> iface_info list" where
  "opened devs es = map (\<lambda>e. opened_iface (devs (fst e)) (fst e)) (filter usable_iface es)"

lemma started_prog_inv:
  assumes "ip_init_hdr_ok f" and "start_blocks ms p ps" and "ps \<noteq> []" and "length ps = length (filter usable_iface es)"
    and "ifaces_up devs es" and "distinct (map if_fd (opened devs es))" and lib: "lib_start_ok lib n"
  shows "\<exists>m. init_ustack lib devs junk es (boot ms) = Inr m \<and> prog_inv f p ps (opened devs es) m \<and>
    prog_view m = (spec_start (map (\<lambda>b. fst b \<noteq> 0) (drop (length ps + 2 + n) ms)), 0)"
proof -
  obtain m where m: "init_ustack lib devs junk es (boot ms) = Inr m" "the_instance m = p" "sound p ps (stk m)"
    "socks (stk m) = Map.empty" "sent (stk m) = []" "mallocs (stk m) = drop (length ps + 2 + n) ms"
    "fds m = map (\<lambda>e. os_socket (devs (fst e))) (filter usable_iface es)"
    "map (ifaces m) ps = map (\<lambda>e. Some (opened_iface (devs (fst e)) (fst e))) (filter usable_iface es)"
    using init_ustack_ok [OF lib assms(2-5)] by blast
  have "if_fd (opened_iface d name) = os_socket d" for d name by (simp add: opened_iface_def Let_def)
  with m assms(1,6) have "prog_inv f p ps (opened devs es) m" by (simp add: prog_inv_def wired_def opened_def comp_def)
  moreover obtain F where "stack_ok (stk m) F" using sound_stackE [OF m(3)] .
  from view_start [OF this m(4,5)] m(6) init_ustack_leaked [OF lib m(1)]
  have "prog_view m = (spec_start (map (\<lambda>b. fst b \<noteq> 0) (drop (length ps + 2 + n) ms)), 0)" by (simp add: prog_view_def)
  ultimately show ?thesis using m(1) by blast
qed

text \<open>Calls alone run as on the stack.\<close>

lemma run_calls:
  "run (prog_step f g arp il ip) m (map Call cs) = rbind (run (api_step f il (Some ip)) (stk m) cs) (\<lambda>st. Inr (m\<lparr>stk := st\<rparr>))"
  by (induction cs arbitrary: m) (simp_all add: rbind_def split: sum.splits)

lemma obeys_calls:
  assumes "obeys admissible (api_step f il (Some ip)) (stk m) cs" "\<forall>c\<in>set cs. \<not> is_segment c"
  shows "obeys (prog_ok as) (prog_step f g arp il ip) m (map Call cs)"
  using assms by (induction cs arbitrary: m) (auto split: sum.splits)

end
