(* ===== verification/Logging.thy ===== *)
theory Logging
  imports Main_Program
begin

text \<open>
  The messages of \<^verbatim>\<open>include/log.h\<close> and the address formats of \<^verbatim>\<open>include/ip.h\<close>.
  \<^verbatim>\<open>LOG_DEBUG\<close> is not defined, so a message has no file name and line. A logged line is the
  string written to \<^verbatim>\<open>stderr\<close>. The other theories leave messages out, as nothing reads them
  back; here are the two that describe a socket, with the lemmas that make them readable: what
  is printed determines addresses, ports and states.
\<close>

section \<open>Levels and lines\<close>

datatype log_level = DEBUG | INFO | WARNING | ERROR

fun log_level_num :: "log_level \<Rightarrow> nat" where
  "log_level_num DEBUG = 0"
| "log_level_num INFO = 1"
| "log_level_num WARNING = 2"
| "log_level_num ERROR = 3"

instantiation log_level :: linorder
begin

definition "l \<le> k \<longleftrightarrow> log_level_num l \<le> log_level_num k"

definition "l < k \<longleftrightarrow> log_level_num l < log_level_num k"

instance
proof
  fix l k :: log_level
  assume "l \<le> k" "k \<le> l"
  then show "l = k" by (cases l; cases k) (simp_all add: less_eq_log_level_def)
qed (auto simp: less_eq_log_level_def less_log_level_def)

end

fun log_level_str :: "log_level \<Rightarrow> string" where
  "log_level_str DEBUG = ''DEBUG''"
| "log_level_str INFO = ''INFO''"
| "log_level_str WARNING = ''WARNING''"
| "log_level_str ERROR = ''ERROR''"

definition log_it :: "string \<Rightarrow> string \<Rightarrow> string" where
  "log_it msg level_str = level_str @ '': '' @ msg @ [CHR 0x0A]"

text \<open>What a call writes while the threshold \<^verbatim>\<open>this_log_level\<close> is \<open>this_level\<close>.\<close>

definition log_out :: "log_level \<Rightarrow> log_level \<Rightarrow> string \<Rightarrow> string" where
  "log_out this_level level msg = (if level < this_level then [] else log_it msg (log_level_str level))"

definition this_log_level :: log_level where
  "this_log_level = DEBUG"

section \<open>Addresses\<close>

text \<open>The bytes the macros list, in the order of the format, on a little-endian host.\<close>

definition LE_IP_FMT_STR :: "u32 \<Rightarrow> u8 list" where
  "LE_IP_FMT_STR ip = [bytes32 ip ! 3, bytes32 ip ! 2, bytes32 ip ! 1, bytes32 ip ! 0]"

definition BE_IP_FMT_STR :: "u32 \<Rightarrow> u8 list" where
  "BE_IP_FMT_STR ip = [bytes32 ip ! 0, bytes32 ip ! 1, bytes32 ip ! 2, bytes32 ip ! 3]"

definition NET_IP_FMT_STR :: "u32 \<Rightarrow> u8 list" where
  "NET_IP_FMT_STR ip = BE_IP_FMT_STR ip"

definition HOST_IP_FMT_STR :: "u32 \<Rightarrow> u8 list" where
  "HOST_IP_FMT_STR ip = LE_IP_FMT_STR ip"

text \<open>\<^verbatim>\<open>printf\<close> of four bytes with the format \<^verbatim>\<open>IP_FMT\<close>.\<close>

fun IP_FMT :: "u8 list \<Rightarrow> string" where
  "IP_FMT [a, b, c, d] = decimal (unat a) @ ''.'' @ decimal (unat b) @ ''.'' @ decimal (unat c) @ ''.'' @ decimal (unat d)"
| "IP_FMT _ = []"

definition port_str :: "u16 \<Rightarrow> string" where
  "port_str p = decimal (unat p)"

section \<open>The messages about sockets\<close>

definition tcp_set_state_log :: "tcp_sock \<Rightarrow> tcp_state \<Rightarrow> string" where
  "tcp_set_state_log tsk state = log_out this_log_level DEBUG
     (IP_FMT (HOST_IP_FMT_STR (sk_sip tsk)) @ '':'' @ port_str (sk_sport tsk) @ '' switch state, from '' @
      tcp_state_str (sk_state tsk) @ '' to '' @ tcp_state_str state @ ''.'')"

definition free_tcp_sock_log :: "tcp_sock \<Rightarrow> string" where
  "free_tcp_sock_log tsk = (if ref_cnt tsk - 1 \<le> 0 then log_out this_log_level DEBUG
     (''free tcp sock: ['' @ IP_FMT (HOST_IP_FMT_STR (sk_sip tsk)) @ '':'' @ port_str (sk_sport tsk) @ ''<->'' @
      IP_FMT (HOST_IP_FMT_STR (sk_dip tsk)) @ '':'' @ port_str (sk_dport tsk) @ ''].'') else [])"

section \<open>Reading messages back\<close>

text \<open>\<^verbatim>\<open>NET_IP_FMT_STR\<close> is for addresses in wire order, \<^verbatim>\<open>HOST_IP_FMT_STR\<close> for those in
  host order, and the latter prints what \<^verbatim>\<open>inet_ntoa\<close> prints.\<close>

lemma net_host_fmt: "NET_IP_FMT_STR (htonl ip) = HOST_IP_FMT_STR ip"
  by (simp add: NET_IP_FMT_STR_def HOST_IP_FMT_STR_def BE_IP_FMT_STR_def LE_IP_FMT_STR_def bytes32_def htonl_def byte_simps)

lemma net_fmt_inet_ntoa: "IP_FMT (NET_IP_FMT_STR ip) = inet_ntoa ip"
  by (simp add: NET_IP_FMT_STR_def BE_IP_FMT_STR_def bytes32_def inet_ntoa_def)

lemma break_unique:
  assumes "c \<notin> set xs" and "c \<notin> set ys"
  shows "xs @ c # xs' = ys @ c # ys' \<longleftrightarrow> xs = ys \<and> xs' = ys'"
proof
  assume eq: "xs @ c # xs' = ys @ c # ys'"
  have "takeWhile (\<lambda>d. d \<noteq> c) (xs @ c # xs') = xs" "takeWhile (\<lambda>d. d \<noteq> c) (ys @ c # ys') = ys"
    using assms by (auto simp: takeWhile_append)
  with eq show "xs = ys \<and> xs' = ys'" by (metis append_same_eq list.inject same_append_eq)
qed simp

lemma decimal_digits: "list_all is_digit (decimal n)"
proof (induction n rule: less_induct)
  case (less n)
  show ?case
  proof (cases "n < 10")
    case True
    then show ?thesis using digit_char [of n] by (subst decimal.simps) simp
  next
    case False
    with less [of "n div 10"] digit_char [of "n mod 10"] show ?thesis by (subst decimal.simps) simp
  qed
qed

lemma decimal_chars: "\<not> is_digit c \<Longrightarrow> c \<notin> set (decimal n)"
  using decimal_digits by (auto simp: list_all_iff)

lemma separators: "\<not> is_digit CHR ''.''" "\<not> is_digit CHR '':''" "\<not> is_digit CHR '' ''" "\<not> is_digit CHR ''<''" "\<not> is_digit CHR '']''"
  by (simp_all add: is_digit_def)

lemma decimal_inject [simp]: "decimal m = decimal n \<longleftrightarrow> m = n"
  by (metis atoi_decimal of_nat_eq_iff)

lemma decimal_then:
  assumes "\<not> is_digit c"
  shows "decimal m @ c # xs = decimal n @ c # ys \<longleftrightarrow> m = n \<and> xs = ys"
  using break_unique [OF decimal_chars [OF assms] decimal_chars [OF assms]] by simp

lemmas decimal_splits = decimal_then [OF separators(1)] decimal_then [OF separators(2)] decimal_then [OF separators(3)]
  decimal_then [OF separators(4)] decimal_then [OF separators(5)]

lemma host_fmt: "IP_FMT (HOST_IP_FMT_STR ip) = decimal (unat (byte32 3 ip)) @ CHR ''.'' # decimal (unat (byte32 2 ip)) @
    CHR ''.'' # decimal (unat (byte32 1 ip)) @ CHR ''.'' # decimal (unat (byte32 0 ip))"
  by (simp add: HOST_IP_FMT_STR_def LE_IP_FMT_STR_def bytes32_def)

lemma byte32_eqI:
  assumes "byte32 0 x = byte32 0 y" "byte32 (Suc 0) x = byte32 (Suc 0) y" "byte32 2 x = byte32 2 y" "byte32 3 x = byte32 3 y"
  shows "x = y"
proof -
  have "x = le32 (byte32 0 x) (byte32 (Suc 0) x) (byte32 2 x) (byte32 3 x)" by (rule le32_bytes [symmetric])
  also have "\<dots> = y" unfolding assms by (rule le32_bytes)
  finally show ?thesis .
qed

text \<open>An address followed by a colon is read back.\<close>

lemma host_fmt_then:
  "IP_FMT (HOST_IP_FMT_STR x) @ CHR '':'' # xs = IP_FMT (HOST_IP_FMT_STR y) @ CHR '':'' # ys \<longleftrightarrow> x = y \<and> xs = ys"
  by (auto simp: host_fmt decimal_splits word_unat_eq_iff [symmetric] intro: byte32_eqI)

lemma tcp_state_str_then: "tcp_state_str a @ CHR '' '' # xs = tcp_state_str b @ CHR '' '' # ys \<longleftrightarrow> a = b \<and> xs = ys"
  by (cases a; cases b) simp_all

lemma tcp_state_str_inject: "tcp_state_str a = tcp_state_str b \<longleftrightarrow> a = b"
  using tcp_state_str_then [of a "[]" b "[]"] by simp

lemmas log_simps = log_out_def log_it_def host_fmt_then port_str_def decimal_splits tcp_state_str_then
  tcp_state_str_inject less_log_level_def this_log_level_def word_unat_eq_iff [symmetric]

text \<open>
  The log identifies what happened. Two lines about a switch of state are equal only if
  they are about the same address, port, old and new state; two lines about a freed socket only
  if all four parts of its key agree.
\<close>

theorem log_lines_identify:
  "(tcp_set_state_log a s = tcp_set_state_log b t \<longleftrightarrow>
     sk_sip a = sk_sip b \<and> sk_sport a = sk_sport b \<and> sk_state a = sk_state b \<and> s = t) \<and>
   (free_tcp_sock_log (a\<lparr>ref_cnt := 1\<rparr>) = free_tcp_sock_log (b\<lparr>ref_cnt := 1\<rparr>) \<longleftrightarrow>
     sk_sip a = sk_sip b \<and> sk_sport a = sk_sport b \<and> sk_dip a = sk_dip b \<and> sk_dport a = sk_dport b)"
  by (simp add: tcp_set_state_log_def free_tcp_sock_log_def log_simps)

end
