(* ===== verification/Struct_Layout.thy ===== *)
theory Struct_Layout
  imports Sock_Memory
begin

text \<open>
  The layout of the C structures. The other theories place list nodes and packet fields by
  numeric offsets; here the structure declarations of the headers are written down as C types,
  with the rules of the x86-64 ABI for size, alignment and padding, and the offsets are computed
  from them. Two members of an integer bit field that share a byte are one member of one byte.
  \<^verbatim>\<open>ustack_t\<close> and \<^verbatim>\<open>iface_info_t\<close> are also the interface to the prebuilt library, like
  the structures of \<^verbatim>\<open>arpcache.h\<close> and \<^verbatim>\<open>rtable.h\<close>, which only the library uses;
  the types of the thread library are parameters there.
\<close>

section \<open>Layout of C types\<close>

datatype ctype =
    C_Int nat                                  \<comment> \<open>a scalar of that many bytes, aligned to its size\<close>
  | C_Array nat ctype
  | C_Struct bool "(string \<times> ctype) list"      \<comment> \<open>packed or not; the members in order\<close>

fun alignof :: "ctype \<Rightarrow> nat" and members_align :: "(string \<times> ctype) list \<Rightarrow> nat" where
  "alignof (C_Int n) = n"
| "alignof (C_Array n t) = alignof t"
| "alignof (C_Struct packed ms) = (if packed then 1 else members_align ms)"
| "members_align [] = 1"
| "members_align ((m, t) # ms) = max (alignof t) (members_align ms)"

definition round_up :: "nat \<Rightarrow> nat \<Rightarrow> nat" where
  "round_up n a = (n + (a - 1)) div a * a"

text \<open>Where a member of type \<open>t\<close> starts when the ones before it end at \<open>p\<close>.\<close>

definition member_start :: "bool \<Rightarrow> nat \<Rightarrow> ctype \<Rightarrow> nat" where
  "member_start packed p t = (if packed then p else round_up p (alignof t))"

fun sizeof :: "ctype \<Rightarrow> nat" and members_end :: "bool \<Rightarrow> nat \<Rightarrow> (string \<times> ctype) list \<Rightarrow> nat" where
  "sizeof (C_Int n) = n"
| "sizeof (C_Array n t) = n * sizeof t"
| "sizeof (C_Struct packed ms) = round_up (members_end packed 0 ms) (alignof (C_Struct packed ms))"
| "members_end packed p [] = p"
| "members_end packed p ((m, t) # ms) = members_end packed (member_start packed p t + sizeof t) ms"

fun member_offsets :: "bool \<Rightarrow> nat \<Rightarrow> (string \<times> ctype) list \<Rightarrow> (string \<times> nat) list" where
  "member_offsets packed p [] = []"
| "member_offsets packed p ((m, t) # ms) =
     (m, member_start packed p t) # member_offsets packed (member_start packed p t + sizeof t) ms"

fun offsetof :: "ctype \<Rightarrow> string \<Rightarrow> nat option" where
  "offsetof (C_Struct packed ms) m = map_of (member_offsets packed 0 ms) m"
| "offsetof _ m = None"

text \<open>The addresses of all objects of type \<open>u\<close> inside an object of type \<open>t\<close> at \<open>b\<close>, in order.\<close>

fun embedded :: "ctype \<Rightarrow> nat \<Rightarrow> ctype \<Rightarrow> nat list"
  and embedded_members :: "ctype \<Rightarrow> nat \<Rightarrow> bool \<Rightarrow> nat \<Rightarrow> (string \<times> ctype) list \<Rightarrow> nat list"
  and embedded_elems :: "ctype \<Rightarrow> nat \<Rightarrow> nat \<Rightarrow> ctype \<Rightarrow> nat list" where
  "embedded u b t =
     (if t = u then [b] else case t of
        C_Int n \<Rightarrow> []
      | C_Array n t' \<Rightarrow> embedded_elems u b n t'
      | C_Struct packed ms \<Rightarrow> embedded_members u b packed 0 ms)"
| "embedded_elems u b 0 t = []"
| "embedded_elems u b (Suc n) t = embedded u b t @ embedded_elems u (b + sizeof t) n t"
| "embedded_members u b packed p [] = []"
| "embedded_members u b packed p ((m, t) # ms) =
     embedded u (b + member_start packed p t) t @ embedded_members u b packed (member_start packed p t + sizeof t) ms"

declare embedded.simps [simp del]

lemmas embedded_simps = embedded.simps [of _ _ "C_Int n" for n] embedded.simps [of _ _ "C_Array n t" for n t]
  embedded.simps [of _ _ "C_Struct packed ms" for packed ms]

text \<open>Scalars of one, two, four or eight bytes.\<close>

fun wf_ctype :: "ctype \<Rightarrow> bool" and wf_members :: "(string \<times> ctype) list \<Rightarrow> bool" where
  "wf_ctype (C_Int n) \<longleftrightarrow> n \<in> {1, 2, 4, 8}"
| "wf_ctype (C_Array n t) \<longleftrightarrow> wf_ctype t"
| "wf_ctype (C_Struct packed ms) \<longleftrightarrow> wf_members ms"
| "wf_members [] \<longleftrightarrow> True"
| "wf_members ((m, t) # ms) \<longleftrightarrow> wf_ctype t \<and> wf_members ms"

lemma alignof_cases: "wf_ctype t \<Longrightarrow> alignof t \<in> {1, 2, 4, 8}" "wf_members ms \<Longrightarrow> members_align ms \<in> {1, 2, 4, 8}"
  by (induction t and ms rule: alignof_members_align.induct) (auto simp: max_def)

lemma alignof_pos [simp]: "wf_ctype t \<Longrightarrow> 0 < alignof t"
  using alignof_cases(1) by fastforce

lemma round_up_ge: "0 < a \<Longrightarrow> n \<le> round_up n a"
proof -
  assume "0 < a"
  then have "n + (a - 1) < (n + (a - 1)) div a * a + a"
    using div_mult_mod_eq [of "n + (a - 1)" a] mod_less_divisor [of a "n + (a - 1)"] by linarith
  with \<open>0 < a\<close> show ?thesis by (simp add: round_up_def)
qed

lemma round_up_dvd [simp]: "a dvd round_up n a"
  by (simp add: round_up_def)

lemma member_start_ge: "wf_ctype t \<Longrightarrow> p \<le> member_start packed p t"
  by (simp add: member_start_def round_up_ge)

text \<open>The blocks of \<open>n\<close> bytes at \<open>xs\<close> follow each other between \<open>lo\<close> and \<open>hi\<close>.\<close>

fun spaced :: "nat \<Rightarrow> nat \<Rightarrow> nat \<Rightarrow> nat list \<Rightarrow> bool" where
  "spaced n lo hi [] \<longleftrightarrow> lo \<le> hi"
| "spaced n lo hi (x # xs) \<longleftrightarrow> lo \<le> x \<and> spaced n (x + n) hi xs"

lemma spaced_mono: "spaced n lo hi xs \<Longrightarrow> lo' \<le> lo \<Longrightarrow> hi \<le> hi' \<Longrightarrow> spaced n lo' hi' xs"
  by (induction n lo hi xs arbitrary: lo' rule: spaced.induct) auto

lemma spaced_append: "spaced n lo mid xs \<Longrightarrow> spaced n mid hi ys \<Longrightarrow> spaced n lo hi (xs @ ys)"
  by (induction n lo mid xs rule: spaced.induct) (auto elim: spaced_mono)

lemma spaced_le: "spaced n lo hi xs \<Longrightarrow> lo \<le> hi"
  by (induction n lo hi xs rule: spaced.induct) auto

lemma spaced_bounds: "spaced n lo hi xs \<Longrightarrow> x \<in> set xs \<Longrightarrow> lo \<le> x \<and> x + n \<le> hi"
  by (induction n lo hi xs rule: spaced.induct) (auto dest: spaced_le)

lemma spaced_apart: "spaced n lo hi xs \<Longrightarrow> i < j \<Longrightarrow> j < length xs \<Longrightarrow> xs ! i + n \<le> xs ! j"
proof (induction n lo hi xs arbitrary: i j rule: spaced.induct)
  case (2 n lo hi x xs)
  show ?case
  proof (cases i)
    case 0
    with 2 spaced_bounds [of n "x + n" hi xs "xs ! (j - 1)"] show ?thesis by (cases j) auto
  next
    case (Suc k)
    with 2 show ?thesis by (cases j) auto
  qed
qed simp

lemma embedded_spaced:
  "wf_ctype t \<Longrightarrow> spaced (sizeof u) b (b + sizeof t) (embedded u b t)"
  "wf_members ms \<Longrightarrow> spaced (sizeof u) (b + p) (b + members_end packed p ms) (embedded_members u b packed p ms)"
  "wf_ctype t \<Longrightarrow> spaced (sizeof u) b (b + n * sizeof t) (embedded_elems u b n t)"
proof (induction u b t and u b packed p ms and u b n t rule: embedded_embedded_members_embedded_elems.induct)
  case (1 u b t)
  show ?case
  proof (cases "t = u")
    case True
    then show ?thesis by (simp add: embedded.simps [of u b u])
  next
    case False
    have "spaced (sizeof u) b (b + sizeof t) (embedded_members u b packed 0 ms)" if "t = C_Struct packed ms" for packed ms
    proof -
      have "0 < (if packed then 1 else members_align ms)" using alignof_cases(2) [of ms] 1(3) that by fastforce
      then have "members_end packed 0 ms \<le> sizeof t" using that by (simp add: round_up_ge)
      with spaced_mono [OF 1(2) [OF False that], of b "b + sizeof t"] 1(3) that show ?thesis by simp
    qed
    with 1 False show ?thesis by (cases t) (simp_all add: embedded_simps)
  qed
next
  case (3 u b n t)
  then show ?case by (auto simp: add.assoc intro: spaced_append)
next
  case (5 u b packed p m t ms)
  then have "spaced (sizeof u) (b + p) (b + (member_start packed p t + sizeof t)) (embedded u (b + member_start packed p t) t)"
    using member_start_ge [of t p packed] by (auto simp: add.assoc elim: spaced_mono)
  with 5 show ?case by (auto intro: spaced_append)
qed auto

section \<open>The structures\<close>

abbreviation c_char :: ctype where "c_char \<equiv> C_Int 1"
abbreviation c_u8 :: ctype where "c_u8 \<equiv> C_Int 1"
abbreviation c_u16 :: ctype where "c_u16 \<equiv> C_Int 2"
abbreviation c_u32 :: ctype where "c_u32 \<equiv> C_Int 4"
abbreviation c_int :: ctype where "c_int \<equiv> C_Int 4"
abbreviation c_long :: ctype where "c_long \<equiv> C_Int 8"
abbreviation c_ptr :: ctype where "c_ptr \<equiv> C_Int 8"

definition struct_list_head :: ctype where
  "struct_list_head = C_Struct False [(''next'', c_ptr), (''prev'', c_ptr)]"

definition struct_tcp_timer :: ctype where
  "struct_tcp_timer = C_Struct False
     [(''type'', c_int), (''timeout'', c_int), (''list'', struct_list_head), (''enable'', c_int)]"

definition struct_sock_addr :: ctype where
  "struct_sock_addr = C_Struct True [(''ip'', c_u32), (''port'', c_u16)]"

definition struct_tcp_sock :: ctype where
  "struct_tcp_sock = C_Struct False
     [(''local'', struct_sock_addr), (''peer'', struct_sock_addr), (''parent'', c_ptr), (''ref_cnt'', c_int),
      (''hash_list'', struct_list_head), (''bind_hash_list'', struct_list_head),
      (''listen_queue'', struct_list_head), (''accept_queue'', struct_list_head),
      (''accept_backlog'', c_int), (''backlog'', c_int), (''list'', struct_list_head),
      (''timewait'', struct_tcp_timer), (''retrans_timer'', struct_tcp_timer),
      (''wait_connect'', c_ptr), (''wait_accept'', c_ptr), (''wait_recv'', c_ptr), (''wait_send'', c_ptr),
      (''rcv_buf'', c_ptr), (''send_buf'', struct_list_head), (''rcv_ofo_buf'', struct_list_head),
      (''state'', c_int), (''iss'', c_u32), (''snd_una'', c_u32), (''snd_nxt'', c_u32), (''rcv_nxt'', c_u32),
      (''recovery_point'', c_u32), (''snd_wnd'', c_u32), (''adv_wnd'', c_u16), (''rcv_wnd'', c_u16),
      (''cwnd'', c_u32), (''ssthresh'', c_u32)]"

definition struct_ustack :: ctype where
  "struct_ustack = C_Struct False [(''iface_list'', struct_list_head), (''nifs'', c_int), (''fds'', c_ptr)]"

definition struct_iface_info :: ctype where
  "struct_iface_info = C_Struct False
     [(''list'', struct_list_head), (''fd'', c_int), (''index'', c_int), (''mac'', C_Array 6 c_u8), (''ip'', c_u32),
      (''mask'', c_u32), (''name'', C_Array 16 c_char), (''ip_str'', C_Array 16 c_char)]"

definition struct_ether_header :: ctype where
  "struct_ether_header = C_Struct False
     [(''ether_dhost'', C_Array 6 c_u8), (''ether_shost'', C_Array 6 c_u8), (''ether_type'', c_u16)]"

definition struct_iphdr :: ctype where
  "struct_iphdr = C_Struct False
     [(''ihl_version'', c_u8), (''tos'', c_u8), (''tot_len'', c_u16), (''id'', c_u16), (''frag_off'', c_u16),
      (''ttl'', c_u8), (''protocol'', c_u8), (''checksum'', c_u16), (''saddr'', c_u32), (''daddr'', c_u32)]"

definition struct_tcphdr :: ctype where
  "struct_tcphdr = C_Struct True
     [(''sport'', c_u16), (''dport'', c_u16), (''seq'', c_u32), (''ack'', c_u32), (''x2_off'', c_u8), (''flags'', c_u8),
      (''rwnd'', c_u16), (''checksum'', c_u16), (''urp'', c_u16)]"

definition struct_icmphdr :: ctype where
  "struct_icmphdr = C_Struct True
     [(''type'', c_u8), (''code'', c_u8), (''checksum'', c_u16), (''icmp_identifier'', c_u16), (''icmp_sequence'', c_u16)]"

definition struct_ether_arp :: ctype where
  "struct_ether_arp = C_Struct True
     [(''arp_hrd'', c_u16), (''arp_pro'', c_u16), (''arp_hln'', c_u8), (''arp_pln'', c_u8), (''arp_op'', c_u16),
      (''arp_sha'', C_Array 6 c_u8), (''arp_spa'', c_u32), (''arp_tha'', C_Array 6 c_u8), (''arp_tpa'', c_u32)]"

definition struct_cached_pkt :: ctype where
  "struct_cached_pkt = C_Struct False [(''list'', struct_list_head), (''packet'', c_ptr), (''len'', c_int)]"

definition struct_arp_req :: ctype where
  "struct_arp_req = C_Struct False
     [(''list'', struct_list_head), (''iface'', c_ptr), (''ip4'', c_u32), (''sent'', c_long), (''retries'', c_int),
      (''cached_packets'', struct_list_head)]"

definition struct_arp_cache_entry :: ctype where
  "struct_arp_cache_entry = C_Struct False
     [(''ip4'', c_u32), (''mac'', C_Array 6 c_u8), (''added'', c_long), (''valid'', c_int)]"

definition MAX_ARP_SIZE :: nat where "MAX_ARP_SIZE = 32"

definition struct_arpcache :: "ctype \<Rightarrow> ctype \<Rightarrow> ctype" where
  "struct_arpcache pthread_mutex_t pthread_t = C_Struct False
     [(''entries'', C_Array MAX_ARP_SIZE struct_arp_cache_entry), (''req_list'', struct_list_head),
      (''lock'', pthread_mutex_t), (''thread'', pthread_t)]"

definition struct_rt_entry :: ctype where
  "struct_rt_entry = C_Struct False
     [(''list'', struct_list_head), (''dest'', c_u32), (''mask'', c_u32), (''gw'', c_u32), (''flags'', c_int),
      (''if_name'', C_Array 16 c_char), (''iface'', c_ptr)]"

lemmas struct_defs = struct_list_head_def struct_tcp_timer_def struct_sock_addr_def struct_tcp_sock_def
  struct_ustack_def struct_iface_info_def struct_ether_header_def struct_iphdr_def struct_tcphdr_def
  struct_icmphdr_def struct_ether_arp_def struct_cached_pkt_def struct_arp_req_def struct_arp_cache_entry_def
  struct_arpcache_def struct_rt_entry_def

lemmas layout_simps = struct_defs member_start_def round_up_def embedded_simps

section \<open>Properties\<close>

text \<open>
  The layout of a socket. With the alignment rules of the ABI, \<^verbatim>\<open>struct tcp_sock\<close> has
  296 bytes; \<open>sock_nodes\<close> are exactly the list nodes inside it, those of the two timers included;
  they lie inside the socket without overlapping, at multiples of 8; and \<^verbatim>\<open>list_entry\<close> and
  the timer macros subtract the offsets of the members they name.
\<close>

theorem tcp_sock_layout:
  "int (sizeof struct_tcp_sock) = SOCK_SIZE \<and>
   sock_nodes p = map (\<lambda>i. p + int i) (embedded struct_list_head 0 struct_tcp_sock) \<and>
   spaced (sizeof struct_list_head) 0 (sizeof struct_tcp_sock) (embedded struct_list_head 0 struct_tcp_sock) \<and>
   list_all (\<lambda>i. alignof struct_list_head dvd i) (embedded struct_list_head 0 struct_tcp_sock) \<and>
   map (offsetof struct_tcp_sock) [''hash_list'', ''bind_hash_list'', ''listen_queue'', ''accept_queue'', ''list'',
     ''timewait'', ''retrans_timer'', ''send_buf'', ''rcv_ofo_buf''] =
   map (Some \<circ> nat) [OFF_hash_list, OFF_bind_hash_list, OFF_listen_queue, OFF_accept_queue, OFF_list,
     OFF_timewait, OFF_retrans_timer, OFF_send_buf, OFF_rcv_ofo_buf] \<and>
   offsetof struct_tcp_timer ''list'' = Some (nat OFF_timer_list)"
proof -
  have "wf_ctype struct_tcp_sock" by (simp add: struct_defs)
  from embedded_spaced(1) [OF this, of struct_list_head 0]
  have "spaced (sizeof struct_list_head) 0 (sizeof struct_tcp_sock) (embedded struct_list_head 0 struct_tcp_sock)" by simp
  moreover have nodes: "embedded struct_list_head 0 struct_tcp_sock = [32, 48, 64, 80, 104, 128, 160, 224, 240]"
    by (simp add: layout_simps)
  moreover have "sizeof struct_tcp_sock = 296" "alignof struct_list_head = 8" by (simp_all add: layout_simps)
  moreover have "offsetof struct_tcp_timer ''list'' = Some 8" by (simp add: layout_simps)
  moreover have "map (offsetof struct_tcp_sock) [''hash_list'', ''bind_hash_list'', ''listen_queue'', ''accept_queue'', ''list'',
     ''timewait'', ''retrans_timer'', ''send_buf'', ''rcv_ofo_buf''] = map Some [32, 48, 64, 80, 104, 120, 152, 224, 240]"
    by (simp add: layout_simps)
  ultimately show ?thesis by (simp add: sock_nodes_def offsets add.assoc)
qed

text \<open>
  The headers: the sizes and member offsets at which the packet code reads and writes.
\<close>

lemma header_layouts:
  "sizeof struct_ether_header = ETHER_HDR_SIZE \<and> offsetof struct_ether_header ''ether_type'' = Some 12"
  "sizeof struct_iphdr = IP_BASE_HDR_SIZE \<and> length (iphdr_bytes i) = sizeof struct_iphdr \<and>
   map (offsetof struct_iphdr) [''tot_len'', ''protocol'', ''checksum'', ''saddr'', ''daddr''] = map Some [2, 9, 10, 12, 16]"
  "sizeof struct_tcphdr = TCP_BASE_HDR_SIZE \<and> length (tcphdr_bytes t) = sizeof struct_tcphdr \<and>
   map (offsetof struct_tcphdr) [''seq'', ''ack'', ''x2_off'', ''flags'', ''rwnd'', ''checksum''] = map Some [4, 8, 12, 13, 14, 16]"
  "length (icmphdr_bytes c) = sizeof struct_icmphdr"
  "sizeof struct_ether_arp = 28"
  by (simp_all add: layout_simps size_defs flip: numeral_2_eq_2)

text \<open>
  The source address of a connection. \<^verbatim>\<open>tcp_sock_connect\<close> takes the head of the
  interface list, the first member of the \<^verbatim>\<open>ustack_t\<close>, for the list node of an
  \<^verbatim>\<open>iface_info_t\<close> and reads its member \<^verbatim>\<open>ip\<close>: these four bytes begin exactly where
  the \<^verbatim>\<open>ustack_t\<close> ends.
\<close>

theorem connect_reads_behind_ustack:
  "offsetof struct_ustack ''iface_list'' = offsetof struct_iface_info ''list'' \<and>
   offsetof struct_iface_info ''ip'' = Some (sizeof struct_ustack)"
  by (simp add: layout_simps)

lemma library_layouts:
  "offsetof struct_cached_pkt ''list'' = Some 0" "offsetof struct_arp_req ''list'' = Some 0" "offsetof struct_rt_entry ''list'' = Some 0"
  "sizeof struct_arp_cache_entry = 32" "offsetof (struct_arpcache mtx thr) ''req_list'' = Some (MAX_ARP_SIZE * 32)"
  "embedded struct_list_head 0 struct_arp_req = [0, 48]"
  by (simp_all add: layout_simps MAX_ARP_SIZE_def)

end
