(* ===== verification/Async_Wait.thy ===== *)
theory Async_Wait
  imports Synch_Wait
begin

text \<open>
  The wait structure of \<^verbatim>\<open>include/async_wait.h\<close>, which no file includes any more. It has
  its own type; its operations carry the prefix \<open>async\<close> here. It keeps the contract of a
  notification channel, and every call on it does what the call of the same name in
  \<^verbatim>\<open>synch_wait.h\<close> does, so it can take the place of the other.
\<close>

record async_wait =
  aw_notified :: int
  aw_dead :: int
  aw_sleep :: int

definition async_wait_init :: async_wait where
  "async_wait_init = \<lparr>aw_notified = 0, aw_dead = 0, aw_sleep = 0\<rparr>"

text \<open>The structure after the call, and whether \<^verbatim>\<open>pthread_cond_broadcast\<close> is called.\<close>

definition async_wait_exit :: "async_wait \<Rightarrow> async_wait \<times> bool" where
  "async_wait_exit wait =
     (if aw_dead wait \<noteq> 0 then (wait, False)
      else let wait = wait\<lparr>aw_dead := 1\<rparr> in (wait, aw_sleep wait \<noteq> 0))"

text \<open>\<open>Inl\<close>: the call returns; \<open>Inr\<close>: it blocks in \<^verbatim>\<open>pthread_cond_wait\<close>.\<close>

definition async_sleep_on_resume :: "async_wait \<Rightarrow> int \<times> async_wait" where
  "async_sleep_on_resume wait =
     (let wait = wait\<lparr>aw_notified := 0, aw_sleep := 0\<rparr> in (- aw_dead wait, wait))"

definition async_sleep_on :: "async_wait \<Rightarrow> (int \<times> async_wait) + async_wait" where
  "async_sleep_on wait =
     (if aw_dead wait \<noteq> 0 then Inl (- aw_dead wait, wait)
      else let wait = wait\<lparr>aw_sleep := 1\<rparr> in
        if aw_notified wait = 0 then Inr wait else Inl (async_sleep_on_resume wait))"

text \<open>The result, the structure after the call, and whether \<^verbatim>\<open>pthread_cond_signal\<close> is called.\<close>

definition async_wake_up :: "async_wait \<Rightarrow> int \<times> async_wait \<times> bool" where
  "async_wake_up wait =
     (if aw_dead wait \<noteq> 0 then (- aw_dead wait, wait, False)
      else if aw_notified wait = 0
        then let wait = wait\<lparr>aw_notified := 1\<rparr> in (- aw_dead wait, wait, aw_sleep wait \<noteq> 0)
        else (- aw_dead wait, wait, False))"

definition async_alloc_wait_struct :: async_wait where
  "async_alloc_wait_struct = async_wait_init"

lemmas async_ops =
  async_sleep_on_def async_sleep_on_resume_def async_wake_up_def async_wait_exit_def Let_def

interpretation async: notification_channel
  "\<lambda>w. aw_dead w = 0" "\<lambda>w. aw_notified w \<noteq> 0" async_sleep_on "\<lambda>w. snd (async_wake_up w)" async_sleep_on_resume
  by unfold_locales (auto simp: async_ops)

section \<open>The two structures\<close>

definition as_synch :: "async_wait \<Rightarrow> synch_wait" where
  "as_synch w = \<lparr>sw_notified = aw_notified w, sw_dead = aw_dead w, sw_sleep = aw_sleep w\<rparr>"

text \<open>One call on a structure, and what the caller and the other threads see of it.\<close>

datatype wait_call = Call_Sleep | Call_Resume | Call_Wake | Call_Exit

datatype wait_effect = Returned int | Blocked | Signals int bool | Broadcasts bool

fun synch_call :: "synch_wait \<Rightarrow> wait_call \<Rightarrow> wait_effect \<times> synch_wait" where
  "synch_call w Call_Sleep = (case sleep_on w of Returns r w' \<Rightarrow> (Returned r, w') | Blocks w' \<Rightarrow> (Blocked, w'))"
| "synch_call w Call_Resume = (case sleep_on_resume w of (r, w') \<Rightarrow> (Returned r, w'))"
| "synch_call w Call_Wake = (case wake_up w of (r, w', s) \<Rightarrow> (Signals r s, w'))"
| "synch_call w Call_Exit = (case wait_exit w of (w', b) \<Rightarrow> (Broadcasts b, w'))"

fun async_call :: "async_wait \<Rightarrow> wait_call \<Rightarrow> wait_effect \<times> async_wait" where
  "async_call w Call_Sleep = (case async_sleep_on w of Inl (r, w') \<Rightarrow> (Returned r, w') | Inr w' \<Rightarrow> (Blocked, w'))"
| "async_call w Call_Resume = (case async_sleep_on_resume w of (r, w') \<Rightarrow> (Returned r, w'))"
| "async_call w Call_Wake = (case async_wake_up w of (r, w', s) \<Rightarrow> (Signals r s, w'))"
| "async_call w Call_Exit = (case async_wait_exit w of (w', b) \<Rightarrow> (Broadcasts b, w'))"

fun effects :: "('w \<Rightarrow> 'c \<Rightarrow> 'e \<times> 'w) \<Rightarrow> 'w \<Rightarrow> 'c list \<Rightarrow> 'e list" where
  "effects f w [] = []"
| "effects f w (c # cs) = (case f w c of (e, w') \<Rightarrow> e # effects f w' cs)"

lemma async_call_step: "synch_call (as_synch w) c = map_prod id as_synch (async_call w c)"
  by (cases c) (auto simp: as_synch_def wait_ops async_ops)

text \<open>
  The two wait structures cannot be told apart. Every sequence of calls on a new structure
  of \<^verbatim>\<open>async_wait.h\<close>, with threads resuming at any point, has the same results, blocks
  the same callers and gives the same signals and broadcasts as on one of \<^verbatim>\<open>synch_wait.h\<close>.
\<close>

theorem async_wait_replaces_synch_wait:
  "effects async_call async_alloc_wait_struct cs = effects synch_call alloc_wait_struct cs"
proof -
  have "effects async_call w cs = effects synch_call (as_synch w) cs" for w
    by (induction cs arbitrary: w) (simp_all add: async_call_step split: prod.splits)
  moreover have "as_synch async_alloc_wait_struct = alloc_wait_struct"
    by (simp add: as_synch_def alloc_wait_struct_def async_alloc_wait_struct_def wait_init_def async_wait_init_def)
  ultimately show ?thesis by metis
qed

text \<open>As for the other structure, a wake-up before and one after the call of
  \<^verbatim>\<open>sleep_on\<close> both release the caller.\<close>

lemma async_wake_up_sleep_on_commute:
  assumes "aw_dead w = 0" and "aw_notified w = 0"
  shows "(\<exists>w'. async_sleep_on (fst (snd (async_wake_up w))) = Inl (0, w') \<and> aw_notified w' = 0) \<and>
    (\<exists>w1. async_sleep_on w = Inr w1 \<and> snd (snd (async_wake_up w1)) \<and>
      fst (async_sleep_on_resume (fst (snd (async_wake_up w1)))) = 0)"
  using async.either_order [of w] assms by auto

end
