(* ===== verification/Spec2Isabelle.thy ===== *)
theory Spec2Isabelle
  imports Program_Runs Logging Struct_Layout Async_Wait
begin

text \<open>
  \<^bold>\<open>The program.\<close> The repository is a TCP stack in user space, in C, on top of a prebuilt IP
  library. \<^verbatim>\<open>main.c\<close> finds the network interfaces, starts the stack and one
  application thread, and receives Ethernet frames in a loop; \<^verbatim>\<open>ip.c\<close> takes the IP
  packets among them and hands TCP segments to \<^verbatim>\<open>tcp.c\<close>, which checks the checksum, looks
  up the socket (\<^verbatim>\<open>tcp_sock.c\<close>) and runs the state machine (\<^verbatim>\<open>tcp_in.c\<close>). The
  application threads (\<^verbatim>\<open>tcp_apps.c\<close>) use the socket calls of \<^verbatim>\<open>tcp_sock.c\<close>;
  both sides send through \<^verbatim>\<open>tcp_out.c\<close> and meet at the wait structures of
  \<^verbatim>\<open>synch_wait.h\<close>. Sockets are linked into three hash tables by intrusive lists
  (\<^verbatim>\<open>list.h\<close>) and counted by references; \<^verbatim>\<open>tcp_timer.c\<close> keeps timers in one
  more list.

  \<^bold>\<open>The model.\<close> Machine integers are words; a pointer is an integer address with 0 for
  \<^verbatim>\<open>NULL\<close>; memory is a record of maps, one for the list nodes (\<open>nodes\<close>) and one for the
  other members of each socket (\<open>socks\<close>), with the member offsets of the LP64 little-endian
  layout, so that pointer arithmetic such as \<^verbatim>\<open>list_entry\<close> with the wrong member is what
  it is in C. Code that can go wrong returns \<open>fault + 'a\<close>: \<open>Wild_Pointer\<close>, \<open>Out_Of_Bounds\<close>,
  \<open>Assert_Failed\<close>, \<open>Never_Returns\<close> or \<open>Exit\<close>. Every list walk is a \<open>partial_function\<close> in
  the option type, whose \<open>None\<close>, a loop that does not end, becomes \<open>Never_Returns\<close>; there is
  no fuel. \<^verbatim>\<open>malloc\<close> takes the next of a given sequence of answers; sent packets are
  collected in \<open>sent\<close>. A thread that sleeps ends the function that models it with \<open>Asleep\<close>,
  and a second function continues after the wake-up.

  \<^bold>\<open>The theories.\<close>
  \<^item> \<open>Prelude\<close>: types, faults and their sequencing, byte order, reading and writing bytes.
  \<^item> \<open>Ring_Buffer\<close> (\<^verbatim>\<open>ring_buffer.h\<close>): locale \<open>bounded_fifo\<close>; the buffer is a bounded queue of
    bytes for every schedule of reads and writes.
  \<^item> \<open>Linked_List\<close> (\<^verbatim>\<open>list.h\<close>): locale \<open>intrusive_list\<close>; the pointer operations implement lists
    and leave other nodes alone; families of disjoint lists.
  \<^item> \<open>Checksum\<close>, \<open>Hash\<close>, \<open>Seq_Arith\<close> (\<^verbatim>\<open>checksum.h\<close>, \<^verbatim>\<open>hash.h\<close>, \<^verbatim>\<open>tcp_hash.h\<close>, the macros of
    \<^verbatim>\<open>tcp.h\<close>): equivalence with the Internet checksum and its limits, bucket bounds, locale
    \<open>window_order\<close> for comparison modulo \<open>2 ^ 32\<close>.
  \<^item> \<open>Synch_Wait\<close> (\<^verbatim>\<open>synch_wait.h\<close>): threads on one structure as a step relation, locale
    \<open>notification_channel\<close>; no wake-up is lost with one sleeper, and one can be with two.
  \<^item> \<open>Packets\<close> (\<^verbatim>\<open>ether.h\<close>, \<^verbatim>\<open>ip.h\<close>, \<^verbatim>\<open>tcp.h\<close>, \<^verbatim>\<open>icmp.h\<close>, \<^verbatim>\<open>arp.h\<close>, parts of \<^verbatim>\<open>tcp.c\<close>): header
    structures as bytes, protocol checksums, the control block.
  \<^item> \<open>Sock_Memory\<close>, \<open>Stack_Inv\<close> (\<^verbatim>\<open>tcp_sock.h\<close>, first part of \<^verbatim>\<open>tcp_sock.c\<close>): the socket, its
    allocation and release, the static tables; the memory invariant \<open>mem_ok\<close> and locale
    \<open>socket_table\<close>, interpreted for the hash tables and the bind table.
  \<^item> \<open>Tcp_Tables\<close> (\<^verbatim>\<open>tcp_sock.c\<close>): lookup, hashing, ports; the stack invariant \<open>stack_ok\<close>.
  \<^item> \<open>Tcp_Out\<close> (\<^verbatim>\<open>tcp_out.c\<close>): what is sent is what the receiver's code reads.
  \<^item> \<open>Tcp_Api\<close> (\<^verbatim>\<open>tcp_sock.c\<close>): the socket calls and the accept queue.
  \<^item> \<open>Tcp_In\<close> (\<^verbatim>\<open>tcp_in.c\<close>, \<^verbatim>\<open>handle_tcp_packet\<close>): window test and state machine.
  \<^item> \<open>Tcp_Timer\<close> (\<^verbatim>\<open>tcp_timer.c\<close>): the timer list and its scan.
  \<^item> \<open>Tcp_Apps\<close> (\<^verbatim>\<open>tcp_apps.c\<close>): server and client thread.
  \<^item> \<open>Tcp_Spec\<close>: the abstract machine a user of the stack sees, with sockets, keys, listeners and
    the segments sent, and \<open>view\<close>, what a state of the program shows of it.
  \<^item> \<open>Tcp_Runs\<close>: sequences of socket calls, segments and timer scans; locale \<open>safe_machine\<close> and its
    extension \<open>refining_machine\<close>, the invariant \<open>sound\<close> of all admissible runs, the refinement
    of \<open>Tcp_Spec\<close> call by call, the active and the passive open.
  \<^item> \<open>Interfaces\<close> (\<^verbatim>\<open>main.c\<close>, \<^verbatim>\<open>ip.c\<close>, \<^verbatim>\<open>base.h\<close>): interfaces, frames, the receive loop over a given
    list of \<^verbatim>\<open>poll\<close> results.
  \<^item> \<open>Main_Program\<close> (\<^verbatim>\<open>main.c\<close>): arguments, \<^verbatim>\<open>init_ustack\<close>, \<^verbatim>\<open>main\<close>; the state after the start.
  \<^item> \<open>Program_Runs\<close>: the events of all threads, socket calls, timer scans and frames; the whole
    program as a \<open>refining_machine\<close>, and the receive loop as a run of events.
  \<^item> \<open>Logging\<close> (\<^verbatim>\<open>log.h\<close>, the formats of \<^verbatim>\<open>ip.h\<close>): log lines; those about sockets can be read back.
  \<^item> \<open>Struct_Layout\<close> (the structures of all headers): size, alignment and padding of C types; the
    offsets the model uses are those of the declarations.
  \<^item> \<open>Async_Wait\<close> (\<^verbatim>\<open>async_wait.h\<close>): the older wait structure; it behaves like \<^verbatim>\<open>synch_wait.h\<close>.
  \<^item> this theory: properties of the whole, from the start through runs, frames and handshakes.

  \<^bold>\<open>Code that does not compile.\<close> Some lines of the sources are not accepted by a C compiler. They
  are read in the one way their context allows, stated at the head of \<open>Tcp_Api\<close>, \<open>Tcp_In\<close> and
  \<open>Tcp_Timer\<close>; valid but unintended code (a stray semicolon, operator precedence, a wrong
  member name) is kept as the language defines it.

  \<^bold>\<open>Parameters.\<close> \<^verbatim>\<open>ip_init_hdr\<close>, \<^verbatim>\<open>icmp_send_packet\<close>, \<^verbatim>\<open>handle_arp_packet\<close> belong to the
  prebuilt library and are arguments of the model. \<open>ip_init_hdr_ok\<close> is what the senders rely
  on; \<open>sample_ip_init\<close> shows that it can hold. \<^verbatim>\<open>ip_send_packet\<close> is the end of the model.
  \<^verbatim>\<open>arpcache_init\<close>, \<^verbatim>\<open>init_rtable\<close> and \<^verbatim>\<open>load_rtable_from_kernel\<close> are one argument of
  \<open>init_ustack\<close>. \<open>lib_start_ok\<close> (they take \<open>n\<close> blocks from \<^verbatim>\<open>malloc\<close> and do nothing else to
  the stack) and \<open>library_ok\<close> (an ICMP or ARP answer takes a given number of blocks and leaves
  the sockets alone) are what the properties of whole runs rely on; \<open>sample_library_ok\<close> and
  \<open>sample_lib_answers\<close> show that they can hold.
  \<^verbatim>\<open>inet_addr\<close>, the answers of the kernel, the memory behind the \<^verbatim>\<open>ustack_t\<close>, which
  \<^verbatim>\<open>tcp_sock_connect\<close> reads by mistake, and what the application thread finds in the dead local
  variable of \<^verbatim>\<open>run_application\<close> whose address it is given, are arguments too.

  \<^bold>\<open>Not modelled.\<close> \<^verbatim>\<open>arpcache.h\<close>, \<^verbatim>\<open>rtable.h\<close> and \<^verbatim>\<open>packet.h\<close> declare functions of the
  library, which have no source here; only the structures they share are laid out. Of the log
  messages those that describe a socket are modelled, the others are fixed texts. Socket calls
  and segments are interleaved call by call: races inside a call, which the code does nothing
  against, are outside the model.
\<close>

section \<open>Runs from the start\<close>

text \<open>The sample machine takes the calls of a server.\<close>

abbreviation sample_server_calls :: "api_call list" where
  "sample_server_calls \<equiv> [Alloc 32768, Bind 32768 \<lparr>sa_ip = 0, sa_port = htons 80\<rparr>, Listen 32768 3, Accept 32768]"

lemma sample_server_obeys:
  assumes "9 \<le> n" and "init_ustack sample_library (\<lambda>_. sample_device) (\<lambda>_. 0) sample_addrs (boot (sample_mallocs n)) = Inr m"
  shows "obeys admissible (api_step sample_ip_init 20480 (Some 1)) (stk m) sample_server_calls"
proof -
  have m: "sound 20480 [24576] (stk m)" "alloc_ready (stk m) 32768" using sample_start [OF assms(1)] assms(2) by auto
  note step = obeys_step [OF sample_ip_init_ok]
  show ?thesis
  proof (rule step [OF m(1)])
    show "admissible (stk m) (Alloc 32768)" using m(2) by simp
  qed ((rule step, assumption, (simp add: admissible_view on_sock_def spec_listen_def del: view_simps not_None_eq)[1])+, simp)
qed




text \<open>
  C2: The started program stays sound. Whatever sequence of socket calls (opening, binding,
  listening, connecting, accepting, reading, writing, closing), incoming segments and timer
  scans follows \<^verbatim>\<open>init_ustack\<close>, as long as each call uses its socket in order and each
  segment finds a socket that can take it, no call faults or fails to return, the tables, the
  reference counts and the list of interfaces stay consistent, and no socket ever gets into
  \<^verbatim>\<open>TCP_SYN_RECV\<close>.
\<close>

theorem started_program_stays_sound:
  assumes "ip_init_hdr_ok f" and "start_blocks ms p ps" and "ps \<noteq> []"
    and "length ps = length (filter usable_iface es)" and "ifaces_up devs es" and "lib_start_ok lib n"
  shows "\<exists>m. init_ustack lib devs junk es (boot ms) = Inr m \<and>
    (\<forall>cs. obeys admissible (api_step f p (Some ip)) (stk m) cs \<longrightarrow>
      (\<exists>st. run (api_step f p (Some ip)) (stk m) cs = Inr st \<and> sound p ps st))"
proof -
  obtain m where m: "init_ustack lib devs junk es (boot ms) = Inr m" "sound p ps (stk m)"
    using init_ustack_ok [OF assms(6,2-5)] by blast
  then show ?thesis using runs.run_safe [of f p ps "stk m"] assms(1) by blast
qed

theorem started_program_stays_sound_witness:
  "\<exists>m st. init_ustack sample_library (\<lambda>_. sample_device) (\<lambda>_. 0) sample_addrs (boot (sample_mallocs 9)) = Inr m \<and>
     run (api_step sample_ip_init 20480 (Some 1)) (stk m) sample_server_calls = Inr st \<and> sound 20480 [24576] st"
proof -
  have "\<exists>m. init_ustack sample_library (\<lambda>_. sample_device) (\<lambda>_. 0) sample_addrs (boot (sample_mallocs 9)) = Inr m \<and>
    (\<forall>cs. obeys admissible (api_step sample_ip_init 20480 (Some 1)) (stk m) cs \<longrightarrow>
      (\<exists>st. run (api_step sample_ip_init 20480 (Some 1)) (stk m) cs = Inr st \<and> sound 20480 [24576] st))"
    by (rule started_program_stays_sound [OF sample_ip_init_ok sample_start_blocks _ _ sample_ifaces_up sample_library_ok])
      (simp_all add: sample_ifaces)
  then show ?thesis using sample_server_obeys [of 9] by blast
qed

text \<open>
  C1: The program refines its specification. \<^verbatim>\<open>init_ustack\<close> leaves a program that shows
  nothing open. Whatever sequence of socket calls, timer scans and received frames follows, with
  the receive loop \<^verbatim>\<open>ustack_run\<close> at its end, as long as each is admissible and the library
  (its start-up, its answers to ICMP and ARP frames) keeps to its memory: nothing faults
  and the loop returns, and what the program shows then (the states, keys and sequence numbers
  of the sockets, which socket every key and every port leads to, the segments sent, as the
  receiving code of a peer reads them, and the number of packets never freed) is what the
  abstract machine of \<open>Tcp_Spec\<close> and \<open>Program_Runs\<close> computes from the same events.
\<close>

theorem program_refines_spec:
  assumes "ip_init_hdr_ok f" and "start_blocks ms p ps" and "ps \<noteq> []" and "length ps = length (filter usable_iface es)"
    and "ifaces_up devs es" and "distinct (map if_fd (opened devs es))" and "lib_start_ok lib n" and "library_ok g arp used"
  shows "\<exists>m. init_ustack lib devs junk es (boot ms) = Inr m \<and>
    (\<forall>evs polls. obeys (prog_ok (map if_ip (opened devs es))) (prog_step f g arp p ip) m (evs @ poll_events polls) \<longrightarrow>
      (\<exists>m1 m2. run (prog_step f g arp p ip) m evs = Inr m1 \<and> ustack_run f g arp m1 polls = Inr m2 \<and>
        prog_view m2 = foldl (prog_spec used ip (map if_ip (opened devs es)))
          (spec_start (map (\<lambda>b. fst b \<noteq> 0) (drop (length ps + 2 + n) ms)), 0) (evs @ poll_events polls)))"
proof -
  let ?is = "opened devs es" and ?start = "(spec_start (map (\<lambda>b. fst b \<noteq> 0) (drop (length ps + 2 + n) ms)), 0 :: nat)"
  let ?step = "prog_step f g arp p ip" and ?ok = "prog_ok (map if_ip ?is)"
  obtain m where m: "init_ustack lib devs junk es (boot ms) = Inr m" "prog_inv f p ps ?is m" "prog_view m = ?start"
    using started_prog_inv [OF assms(1-7)] by blast
  have inv: "library_ok g arp used \<and> prog_inv f p ps ?is m" using assms(8) m(2) by simp
  have "\<exists>m1 m2. run ?step m evs = Inr m1 \<and> ustack_run f g arp m1 polls = Inr m2 \<and>
      prog_view m2 = foldl (prog_spec used ip (map if_ip ?is)) ?start (evs @ poll_events polls)"
    if ob: "obeys ?ok ?step m (evs @ poll_events polls)" for evs polls
  proof -
    obtain m1 where m1: "run ?step m evs = Inr m1" "prog_inv f p ps ?is m1"
      using prog.run_safe [OF inv obeys_prefix [OF ob]] by blast
    have "obeys ?ok ?step m1 (poll_events polls)" using ob obeys_append [OF m1(1)] by blast
    from ustack_run_events [OF assms(8) m1(2) this] m1(1)
    have run: "run ?step m (evs @ poll_events polls) = ustack_run f g arp m1 polls" by (simp add: run_append)
    obtain m2 where m2: "run ?step m (evs @ poll_events polls) = Inr m2" using prog.run_safe [OF inv ob] by blast
    from prog.run_refines [OF inv ob m2] m(3)
    have "prog_view m2 = foldl (prog_spec used ip (map if_ip ?is)) ?start (evs @ poll_events polls)" by simp
    moreover have "ustack_run f g arp m1 polls = Inr m2" using run m2 by simp
    ultimately show ?thesis using m1(1) by blast
  qed
  with m(1) show ?thesis by blast
qed

text \<open>A frame of a type nobody handles.\<close>

definition stray_frame :: "u8 list" where
  "stray_frame = replicate 12 0 @ [0x86, 0xdd]"

lemma stray_unclaimed: "target_of a stray_frame = Inr Unclaimed" "take ETH_FRAME_LEN stray_frame = stray_frame" "stray_frame \<noteq> []"
proof -
  have ty: "rd16 stray_frame 12 = Inr 0xdd86" "ntohs 0xdd86 = 0x86dd" by code_simp+
  then show "target_of a stray_frame = Inr Unclaimed" by (simp add: target_of_def ETH_P_IP_def ETH_P_ARP_def)
qed (simp_all add: stray_frame_def ETH_FRAME_LEN_def)

text \<open>A library that answers nothing.\<close>

definition sample_icmp :: icmp_send where
  "sample_icmp st pkt len type code = st"

definition sample_arp :: arp_input where
  "sample_arp m iface pkt len = Inr m"

lemma sample_lib_answers: "library_ok sample_icmp sample_arp (\<lambda>_. 0)"
  by (simp add: library_ok_def sample_icmp_def sample_arp_def takes_blocks_def)

theorem program_refines_spec_witness:
  "\<exists>m m1 m2. init_ustack sample_library (\<lambda>_. sample_device) (\<lambda>_. 0) sample_addrs (boot (sample_mallocs 10)) = Inr m \<and>
     run (prog_step sample_ip_init sample_icmp sample_arp 20480 1) m (map Call sample_server_calls) = Inr m1 \<and>
     ustack_run sample_ip_init sample_icmp sample_arp m1 [Poll_Ready [Incoming stray_frame], Poll_Failed] = Inr m2 \<and>
     tcp_sock_lookup_listen (stk m2) 0 80 = Inr 32768 \<and> leaked m2 = 1"
proof -
  let ?step = "prog_step sample_ip_init sample_icmp sample_arp 20480 1"
  let ?as = "map if_ip (opened (\<lambda>_. sample_device) sample_addrs)" and ?polls = "[Poll_Ready [Incoming stray_frame], Poll_Failed]"
  let ?s = "(spec_start (map (\<lambda>b. fst b \<noteq> 0) (drop (length [24576 :: addr] + 2 + 0) (sample_mallocs 10))), 0 :: nat)"
  have one: "length ?as = 1" by (simp add: opened_def sample_ifaces)
  have "\<exists>m. init_ustack sample_library (\<lambda>_. sample_device) (\<lambda>_. 0) sample_addrs (boot (sample_mallocs 10)) = Inr m \<and>
    (\<forall>evs polls. obeys (prog_ok ?as) ?step m (evs @ poll_events polls) \<longrightarrow>
      (\<exists>m1 m2. run ?step m evs = Inr m1 \<and> ustack_run sample_ip_init sample_icmp sample_arp m1 polls = Inr m2 \<and>
        prog_view m2 = foldl (prog_spec (\<lambda>_. 0) 1 ?as) ?s (evs @ poll_events polls)))"
    by (rule program_refines_spec [OF sample_ip_init_ok sample_start_blocks _ _ sample_ifaces_up _ sample_library_ok sample_lib_answers])
      (simp_all add: sample_ifaces opened_def)
  then obtain m where m: "init_ustack sample_library (\<lambda>_. sample_device) (\<lambda>_. 0) sample_addrs (boot (sample_mallocs 10)) = Inr m"
    "\<And>evs polls. obeys (prog_ok ?as) ?step m (evs @ poll_events polls) \<Longrightarrow>
      \<exists>m1 m2. run ?step m evs = Inr m1 \<and> ustack_run sample_ip_init sample_icmp sample_arp m1 polls = Inr m2 \<and>
        prog_view m2 = foldl (prog_spec (\<lambda>_. 0) 1 ?as) ?s (evs @ poll_events polls)" by blast
  have calls: "obeys (prog_ok ?as) ?step m (map Call sample_server_calls)"
    by (rule obeys_calls) (use sample_server_obeys [OF _ m(1)] in simp_all)
  have frame: "prog_ok ?as m' (Receive 0 (Incoming stray_frame))" for m'
    using one by (simp add: stray_unclaimed frame_ok_def split: list.split)
  have "obeys (prog_ok ?as) ?step m (map Call sample_server_calls @ poll_events ?polls)"
  proof (rule obeys_appendI [OF calls])
    show "obeys (prog_ok ?as) ?step m' (poll_events ?polls)" for m' using frame by (simp split: sum.split del: prog_step.simps prog_ok.simps)
  qed
  from m(2) [OF this] obtain m1 m2 where r: "run ?step m (map Call sample_server_calls) = Inr m1"
    "ustack_run sample_ip_init sample_icmp sample_arp m1 ?polls = Inr m2"
    "prog_view m2 = foldl (prog_spec (\<lambda>_. 0) 1 ?as) ?s (map Call sample_server_calls @ poll_events ?polls)" by blast
  have "map (\<lambda>b. fst b \<noteq> 0) (drop (length [24576 :: addr] + 2 + 0) (sample_mallocs 10)) = [True, True, True, True, True, True, True]"
    by (simp add: sample_mallocs_def drop_map HEAP_BASE_def upt_conv_Cons numeral_eq_Suc)
  from r(3) [unfolded this] have view: "prog_view m2 = foldl (prog_spec (\<lambda>_. 0) 1 ?as)
    (spec_start [True, True, True, True, True, True, True], 0) (map Call sample_server_calls @ poll_events ?polls)" .
  have "chosen_port (ntohs (htons 80)) = 80" by (simp add: chosen_port_def)
  with view have "sp_listeners (view (stk m2)) 80 = Some 32768" "leaked m2 = 1"
    by (simp_all add: prog_view_def on_sock_def spec_listen_def spec_frame_def stray_unclaimed Let_def can_send_def spec_start_def del: view_simps)
  then show ?thesis using m(1) r(1,2)
    by (auto simp: listeners_def sock_at_def split: sum.splits if_splits)
qed



text \<open>
  C3: The active open. The thread of \<^verbatim>\<open>tcp_client\<close> sends a SYN with its key and sequence
  number zero and sleeps. If the peer's SYN and ACK starts in the first 65535 sequence numbers
  (or at the last one), \<^verbatim>\<open>handle_tcp_packet\<close> finds the sleeping socket, establishes it
  and notifies the thread; \<^verbatim>\<open>tcp_sock_connect\<close> then returns 0 with an established socket
  that further segments of the connection find. An answer with any other initial sequence
  number is dropped, as \<^verbatim>\<open>rcv_nxt\<close> is still zero, and the client keeps sleeping.
\<close>

theorem client_handshake:
  assumes "ip_init_hdr_ok f" and "sound il ifs st" and "alloc_ready st p"
    and "6 < length (mallocs st)" and "fst (mallocs st ! 6) \<noteq> 0"
    and "tcp_sock_lookup_established st ip (htonl (sa_ip a)) (htons 12345) (htons (sa_port a)) = Inr 0"
    and "received reply (cb_of (htonl (sa_ip a)) ip (htons (sa_port a)) (htons 12345) sq ack (TCP_SYN OR TCP_ACK) wnd 0)"
  shows "\<exists>st1 pkt. tcp_client_start f il (Some ip) st a = Inr (Asleep, p, st1) \<and> sent st1 = sent st @ [pkt] \<and>
    received pkt (cb_of ip (htonl (sa_ip a)) (htons 12345) (htons (sa_port a)) 0 0 TCP_SYN 65535 0) \<and>
    (if unat sq < 65535 \<or> sq = - 1
     then \<exists>st2 st3 sk2 sk3. handle_tcp_packet f st1 reply 14 34 = Inr st2 \<and> socks st2 p = Some sk2 \<and> sw_notified (wait_connect sk2) = 1 \<and>
       tcp_sock_connect_resume st2 p = Inr (0, st3) \<and> sound il ifs st3 \<and> socks st3 p = Some sk3 \<and> sk_state sk3 = TCP_ESTABLISHED \<and>
       tcp_sock_lookup_established st3 ip (htonl (sa_ip a)) (htons 12345) (htons (sa_port a)) = Inr p
     else handle_tcp_packet f st1 reply 14 34 = Inr st1)"
proof -
  let ?cb = "cb_of (htonl (sa_ip a)) ip (htons (sa_port a)) (htons 12345) sq ack (TCP_SYN OR TCP_ACK) wnd 0"
  obtain st1 sk1 F1 where 1: "tcp_client_start f il (Some ip) st a = Inr (Asleep, p, st1)" "sound il ifs st1" "ghost_ok il ifs F1 st1"
    "socks st1 p = Some sk1" "sk_state sk1 = TCP_SYN_SENT"
    "wait_connect sk1 = \<lparr>sw_notified = 0, sw_dead = 0, sw_sleep = 1\<rparr>"
    "connected st1 F1 (ip, htonl (sa_ip a), htons 12345, htons (sa_port a)) p"
    "emitted (st\<lparr>mallocs := drop 6 (mallocs st)\<rparr>) (cb_of ip (htonl (sa_ip a)) (htons 12345) (htons (sa_port a)) 0 0 TCP_SYN 65535 0) st1"
    using client_start_ok [OF assms(1-3,6)] by blast
  have "drop 6 (mallocs st) \<noteq> []" "hd (drop 6 (mallocs st)) = mallocs st ! 6" using assms(4) by (simp_all add: hd_drop_conv_nth)
  then obtain pkt where pkt: "sent st1 = sent st @ [pkt]"
    "received pkt (cb_of ip (htonl (sa_ip a)) (htons 12345) (htons (sa_port a)) 0 0 TCP_SYN 65535 0)"
    using 1(8) assms(5) by (auto simp: emitted_def)
  have "rcv_nxt sk1 = 0" "rcv_wnd sk1 = 65535" using sound_live [OF 1(2,4)] by (simp_all add: sock_live_def)
  then have seq: "is_tcp_seq_valid sk1 ?cb \<longleftrightarrow> unat sq < 65535 \<or> sq = - 1"
    using first_segment_window [of sk1 ?cb] by (simp add: cb_of_def flag_defs)
  show ?thesis
  proof (cases "unat sq < 65535 \<or> sq = - 1")
    case True
    from handshake_reply [OF assms(1) 1(2-7) assms(7)] seq True 1(1) pkt show ?thesis
      by (intro exI [of _ st1] exI [of _ pkt]) simp
  next
    case False
    then have "handle_tcp_packet f st1 reply 14 34 = Inr st1"
      using reply_dispatch [OF ghost_okD(1) [OF 1(3)] 1(7) assms(7)] seq 1(4) by (simp add: tcp_process_def)
    with False 1(1) pkt show ?thesis by (intro exI [of _ st1] exI [of _ pkt]) simp
  qed
qed

theorem client_handshake_witness:
  "\<exists>m reply st1 st2 sk. init_ustack sample_library (\<lambda>_. sample_device) (\<lambda>_. 0) sample_addrs (boot (sample_mallocs 10)) = Inr m \<and>
     received reply (cb_of 0x0a000002 1 10001 (htons 12345) 77 1 (TCP_SYN OR TCP_ACK) 9 0) \<and>
     tcp_client_start sample_ip_init 20480 (Some 1) (stk m) \<lparr>sa_ip = htonl 0x0a000002, sa_port = htons 10001\<rparr> = Inr (Asleep, 32768, st1) \<and>
     handle_tcp_packet sample_ip_init st1 reply 14 34 = Inr st2 \<and> socks st2 32768 = Some sk \<and> sw_notified (wait_connect sk) = 1"
proof -
  let ?a = "\<lparr>sa_ip = htonl 0x0a000002, sa_port = htons 10001\<rparr>"
  obtain m where m: "init_ustack sample_library (\<lambda>_. sample_device) (\<lambda>_. 0) sample_addrs (boot (sample_mallocs 10)) = Inr m"
    "sound 20480 [24576] (stk m)" "socks (stk m) = Map.empty" "mallocs (stk m) = drop 3 (sample_mallocs 10)"
    "alloc_ready (stk m) 32768"
    using sample_start [of 10] by auto
  obtain F where "stack_ok (stk m) F" using sound_stackE [OF m(2)] by blast
  from lookup_established_iff [OF this] m(3)
  have free: "tcp_sock_lookup_established (stk m) 1 (htonl (sa_ip ?a)) (htons 12345) (htons (sa_port ?a)) = Inr 0"
    by (auto simp: connected_def)
  obtain reply where reply: "received reply (cb_of (htonl (sa_ip ?a)) 1 (htons (sa_port ?a)) (htons 12345) 77 1 (TCP_SYN OR TCP_ACK) 9 0)"
    using build_header_only [OF sample_ip_init_ok] by blast
  have "6 < length (mallocs (stk m))" "fst (mallocs (stk m) ! 6) \<noteq> 0"
    using m(4) by (simp_all add: sample_mallocs_def HEAP_BASE_def)
  from client_handshake [OF sample_ip_init_ok m(2,5) this free reply] m(1) reply show ?thesis by auto
qed

text \<open>
  C8: Frames reach the stack. After the start and any admissible sequence of socket calls and
  segments, let \<^verbatim>\<open>poll\<close> report one incoming frame with a TCP packet on one of the
  interfaces, and then fail. If the frame is addressed to the interface and memory is left,
  \<^verbatim>\<open>ustack_run\<close> has handed exactly this frame to \<^verbatim>\<open>handle_tcp_packet\<close>; if it is addressed
  to someone else, the copy of the frame is leaked and nothing else changed; without memory the
  frame is dropped.
\<close>

theorem frames_reach_the_stack:
  assumes "ip_init_hdr_ok f" and "start_blocks ms p ps" and "length ps = length (filter usable_iface es)" and "ifaces_up devs es"
    and lib: "lib_start_ok lib n" and "distinct (map (\<lambda>e. os_socket (devs (fst e))) (filter usable_iface es))" and "i < length ps"
    and "rd16 frame 12 = Inr (htons ETH_P_IP)" and "rd8 frame 14 = Inr (nibbles 5 v)" and "rd8 frame 23 = Inr IPPROTO_TCP"
    and "rd32 frame 30 = Inr daddr" and "length frame \<le> ETH_FRAME_LEN"
  shows "\<exists>m. init_ustack lib devs junk es (boot ms) = Inr m \<and>
    (\<forall>cs. obeys admissible (api_step f p (Some ip)) (stk m) cs \<longrightarrow> (\<exists>st. run (api_step f p (Some ip)) (stk m) cs = Inr st \<and>
      ustack_run f g arp (m\<lparr>stk := st\<rparr>) [Poll_Ready (replicate i Not_Ready @ [Incoming frame]), Poll_Failed] =
        (let st' = st\<lparr>mallocs := tl (mallocs st)\<rparr>; e = filter usable_iface es ! i in
         if mallocs st = [] \<or> fst (hd (mallocs st)) = 0 then Inr (m\<lparr>stk := st'\<rparr>)
         else if ntohl daddr = if_ip (opened_iface (devs (fst e)) (fst e))
         then rbind (handle_tcp_packet f st' frame 14 34) (\<lambda>st. Inr (m\<lparr>stk := st\<rparr>))
         else Inr (m\<lparr>stk := st', leaked := leaked m + 1\<rparr>))))"
proof -
  let ?us = "filter usable_iface es"
  have "ps \<noteq> []" using assms(7) by auto
  then obtain m where m: "init_ustack lib devs junk es (boot ms) = Inr m" "the_instance m = p" "sound p ps (stk m)"
    "fds m = map (\<lambda>e. os_socket (devs (fst e))) ?us"
    "map (ifaces m) ps = map (\<lambda>e. Some (opened_iface (devs (fst e)) (fst e))) ?us"
    using init_ustack_ok [OF lib assms(2) _ assms(3,4)] by blast
  show ?thesis
  proof (intro exI [of _ m] conjI allI impI m(1))
    fix cs assume "obeys admissible (api_step f p (Some ip)) (stk m) cs"
    then obtain st where st: "run (api_step f p (Some ip)) (stk m) cs = Inr st" "sound p ps st"
      using runs.run_safe [of f p ps "stk m"] assms(1) m(3) by blast
    let ?m = "m\<lparr>stk := st\<rparr>"
    from watched_fd [of p ps ?m devs ?us i] st(2) m(2,4,5) assms(3,6,7)
    have "fd_to_iface ?m (fds ?m ! i) = Inr (ps ! i)" "i < length (fds ?m)"
      "ifaces ?m (ps ! i) = Some (opened_iface (devs (fst (?us ! i))) (fst (?us ! i)))" by simp_all
    from ustack_run_frame [OF this(2,1,3) assms(8-12)] st(1)
    show "\<exists>st. run (api_step f p (Some ip)) (stk m) cs = Inr st \<and>
      ustack_run f g arp (m\<lparr>stk := st\<rparr>) [Poll_Ready (replicate i Not_Ready @ [Incoming frame]), Poll_Failed] =
        (let st' = st\<lparr>mallocs := tl (mallocs st)\<rparr>; e = filter usable_iface es ! i in
         if mallocs st = [] \<or> fst (hd (mallocs st)) = 0 then Inr (m\<lparr>stk := st'\<rparr>)
         else if ntohl daddr = if_ip (opened_iface (devs (fst e)) (fst e))
         then rbind (handle_tcp_packet f st' frame 14 34) (\<lambda>st. Inr (m\<lparr>stk := st\<rparr>))
         else Inr (m\<lparr>stk := st', leaked := leaked m + 1\<rparr>))"
      by (intro exI [of _ st]) (simp add: Let_def cong del: rbind_cong)
  qed
qed

definition sample_frame :: "u8 list" where
  "sample_frame = replicate 12 0 @ [8, 0, 0x45] @ replicate 8 0 @ [6] @ replicate 6 0 @ [10, 0, 0, 1] @ replicate 20 0"

lemma sample_frame_fields:
  "rd16 sample_frame 12 = Inr (htons ETH_P_IP)" "rd8 sample_frame 14 = Inr (nibbles 5 4)" "rd8 sample_frame 23 = Inr IPPROTO_TCP"
  "rd32 sample_frame 30 = Inr 0x0100000a" "length sample_frame \<le> ETH_FRAME_LEN"
  by code_simp+

theorem frames_reach_the_stack_witness:
  "\<exists>m st. init_ustack sample_library (\<lambda>_. sample_device) (\<lambda>_. 0) sample_addrs (boot (sample_mallocs 10)) = Inr m \<and>
     run (api_step sample_ip_init 20480 (Some 1)) (stk m) [Alloc 32768] = Inr st \<and>
     ustack_run sample_ip_init sample_icmp sample_arp (m\<lparr>stk := st\<rparr>) [Poll_Ready [Incoming sample_frame], Poll_Failed] =
     rbind (handle_tcp_packet sample_ip_init (st\<lparr>mallocs := []\<rparr>) sample_frame 14 34) (\<lambda>st. Inr (m\<lparr>stk := st\<rparr>))"
proof -
  let ?step = "api_step sample_ip_init 20480 (Some 1)" and ?us = "filter usable_iface sample_addrs"
  let ?run = "\<lambda>m. ustack_run sample_ip_init sample_icmp sample_arp m
    [Poll_Ready (replicate 0 Not_Ready @ [Incoming sample_frame]), Poll_Failed]"
  have ip: "ntohl 0x0100000a = if_ip (opened_iface sample_device x)" for x
    by (simp add: opened_iface_def sample_device_def Let_def)
  have "\<exists>m. init_ustack sample_library (\<lambda>_. sample_device) (\<lambda>_. 0) sample_addrs (boot (sample_mallocs 10)) = Inr m \<and>
    (\<forall>cs. obeys admissible ?step (stk m) cs \<longrightarrow> (\<exists>st. run ?step (stk m) cs = Inr st \<and>
      ?run (m\<lparr>stk := st\<rparr>) = (let st' = st\<lparr>mallocs := tl (mallocs st)\<rparr>; e = ?us ! 0 in
        if mallocs st = [] \<or> fst (hd (mallocs st)) = 0 then Inr (m\<lparr>stk := st'\<rparr>)
        else if ntohl 0x0100000a = if_ip (opened_iface sample_device (fst e))
        then rbind (handle_tcp_packet sample_ip_init st' sample_frame 14 34) (\<lambda>st. Inr (m\<lparr>stk := st\<rparr>))
        else Inr (m\<lparr>stk := st', leaked := leaked m + 1\<rparr>))))"
    by (rule frames_reach_the_stack [OF sample_ip_init_ok sample_start_blocks _ sample_ifaces_up sample_library_ok _ _ sample_frame_fields])
      (simp_all add: sample_ifaces)
  then obtain m where m: "init_ustack sample_library (\<lambda>_. sample_device) (\<lambda>_. 0) sample_addrs (boot (sample_mallocs 10)) = Inr m"
    and del: "\<And>cs. obeys admissible ?step (stk m) cs \<Longrightarrow> \<exists>st. run ?step (stk m) cs = Inr st \<and>
      ?run (m\<lparr>stk := st\<rparr>) = (if mallocs st = [] \<or> fst (hd (mallocs st)) = 0 then Inr (m\<lparr>stk := st\<lparr>mallocs := tl (mallocs st)\<rparr>\<rparr>)
        else rbind (handle_tcp_packet sample_ip_init (st\<lparr>mallocs := tl (mallocs st)\<rparr>) sample_frame 14 34) (\<lambda>st. Inr (m\<lparr>stk := st\<rparr>)))"
    by (auto simp only: Let_def ip if_True)
  then have s: "sound 20480 [24576] (stk m)" "alloc_ready (stk m) 32768" "mallocs (stk m) = drop 3 (sample_mallocs 10)"
    using sample_start [of 10] by auto
  from alloc_sound [OF s(1,2)] obtain h where h: "alloc_tcp_sock (stk m) = Inr (32768, (stk m)\<lparr>socks :=
    (socks (stk m))(32768 \<mapsto> fresh_sock), nodes := h, mallocs := drop 6 (mallocs (stk m))\<rparr>)" by blast
  have left: "drop 6 (mallocs (stk m)) = [(HEAP_BASE + 4096 * 9, \<lambda>_. 0)]" using s(3) by (simp add: sample_mallocs_def drop_map upt_conv_Cons)
  have "obeys admissible ?step (stk m) [Alloc 32768]" using s(2) by (simp split: sum.splits)
  from del [OF this] h left m show ?thesis by (auto simp: HEAP_BASE_def)
qed

text \<open>
  C25: The server listens on the port it finds, which is its argument only if it looks in time.
  \<^verbatim>\<open>run_application\<close> stores the port, given in decimal between 1 and 65535, in a local
  variable and starts the thread with its address. Whatever the thread reads there,
  \<^verbatim>\<open>tcp_server\<close> goes to sleep in \<^verbatim>\<open>tcp_sock_accept\<close> with a new socket that listens on the
  port read, or on 12345 if that is zero. A segment to the port of the argument that found no
  socket before finds this one exactly if the two ports agree, in particular if the variable
  still holds what was stored; otherwise it finds none.
\<close>

theorem server_listens_on_port_read:
  assumes "0 < n" and "n < 65536" and "stack_ok st F" and "alloc_ready st p"
    and "tcp_sock_lookup st cb = Inr 0" and "cb_dport cb = word_of_nat n"
  shows "\<exists>port st'. run_application inet_addr port_later addr_later [''server'', decimal n] = Inr (Server port) \<and>
    port = port_later (htons (word_of_nat n)) \<and> tcp_server_start st port = Inr (Asleep, p, st') \<and>
    tcp_sock_lookup st' cb = Inr (if (if port = 0 then 12345 else ntohs port) = word_of_nat n then p else 0)"
proof -
  let ?n = "word_of_nat n :: u16" and ?k = "(cb_daddr cb, cb_saddr cb, cb_dport cb, cb_sport cb)"
  let ?port = "port_later (htons ?n)"
  have app: "run_application inet_addr port_later addr_later [''server'', decimal n] = Inr (Server ?port)"
    by (simp add: run_application_def atoi_decimal)
  have "ntohs ?port = 0 \<longleftrightarrow> ?port = 0" by (rule htons_0_iff)
  then have port: "chosen_port (ntohs ?port) = (if ?port = 0 then 12345 else ntohs ?port)" by (simp add: chosen_port_def)
  obtain st' F' sk where s: "tcp_server_start st ?port = Inr (Asleep, p, st')" "stack_ok st' F'"
    "\<forall>l q. listening st' F' l q \<longleftrightarrow> (q = p \<and> l = sk_sport sk) \<or> (q \<noteq> p \<and> listening st F l q)"
    "\<forall>k q. q \<noteq> p \<longrightarrow> connected st' F' k q = connected st F k q" "\<forall>k. \<not> connected st' F' k p"
    "sk_sport sk = (if ?port = 0 then 12345 else ntohs ?port)" "socks st' p = Some sk"
    using server_start_ok [OF assms(3,4), of ?port] port by auto
  have none: "\<not> connected st F ?k q" "\<not> listening st F ?n q" for q
    using lookup_nothing [OF assms(3,5)] assms(6) by simp_all
  have "tcp_sock_lookup_established st' (cb_daddr cb) (cb_saddr cb) (cb_dport cb) (cb_sport cb) = Inr 0"
    using lookup_established_iff [OF s(2), of "cb_daddr cb" "cb_saddr cb" "cb_dport cb" "cb_sport cb"] none(1) s(4,5) by metis
  moreover have "tcp_sock_lookup_listen st' (cb_daddr cb) ?n = Inr (if sk_sport sk = ?n then p else 0)"
    using lookup_listen_iff [OF s(2), of "cb_daddr cb" ?n] none(2) s(3) by metis
  ultimately have "tcp_sock_lookup st' cb = Inr (if sk_sport sk = ?n then p else 0)" using assms(6) by (simp add: tcp_sock_lookup_def)
  with app s(1,6) show ?thesis by auto
qed

theorem server_listens_on_port_read_witness:
  "\<exists>st st1 st2. init_tcp_stack (boot (sample_mallocs 6)) = Inr st \<and>
     tcp_server_start st (htons 10001) = Inr (Asleep, 20480, st1) \<and> tcp_sock_lookup st1 (cb_of 1 2 3 10001 0 0 TCP_SYN 9 0) = Inr 20480 \<and>
     tcp_server_start st 0 = Inr (Asleep, 20480, st2) \<and> tcp_sock_lookup st2 (cb_of 1 2 3 10001 0 0 TCP_SYN 9 0) = Inr 0"
proof -
  let ?cb = "cb_of 1 2 3 10001 0 0 TCP_SYN 9 0"
  obtain st F where st: "init_tcp_stack (boot (sample_mallocs 6)) = Inr st" "stack_ok st F" "socks st = Map.empty"
    "mallocs st = sample_mallocs 6" "dom (nodes st) \<subseteq> {4096..timer_list}"
    using sample_stack by blast
  have ready: "alloc_ready st 20480"
    using sample_first_block [OF st(2,3,4)] st(5) by simp
  have "\<exists>p. tcp_sock_lookup_established st 2 1 10001 3 = Inr p \<and> (\<forall>q. connected st F (2, 1, 10001, 3) q \<longleftrightarrow> q = p \<and> p \<noteq> 0)"
    "\<exists>p. tcp_sock_lookup_listen st 2 10001 = Inr p \<and> (p \<noteq> 0 \<longrightarrow> listening st F 10001 p)"
    using lookup_established_iff [OF st(2)] lookup_listen_iff [OF st(2)] by blast+
  then have none: "tcp_sock_lookup st ?cb = Inr 0"
    using st(3) by (auto simp: tcp_sock_lookup_def cb_of_def connected_def listening_def)
  have "cb_dport ?cb = word_of_nat 10001" by (simp add: cb_of_def)
  note listens = server_listens_on_port_read [OF _ _ st(2) ready none this]
  have "htons 10001 \<noteq> (0 :: u16)" by (simp add: htons_0_iff)
  with listens [of "\<lambda>_. 0" "\<lambda>p. p" "\<lambda>a. a"] listens [of "\<lambda>_. 0" "\<lambda>_. 0" "\<lambda>a. a"] st(1) show ?thesis by auto
qed

end
